(* ===== verification/Prelude.thy ===== *)
theory Prelude
  imports Main "HOL-Library.Word" "HOL-Library.AList" "HOL-Library.Char_ord"
    "HOL-Library.List_Lexorder"
begin

text \<open>
  Shared vocabulary of the development: the Go built-ins that the packages under src/ use.
  \<^item> results: a call that returns \<open>(T, error)\<close> is a value of \<open>'e + 'a\<close>; \<open>bindE\<close> is the
    \<open>if err != nil { return ..., err }\<close> idiom;
  \<^item> machine integers: \<open>int\<close> is 64 bits wide, \<open>wrap64\<close> is its two's complement wrap-around;
  \<^item> strings: a Go string is its list of bytes; \<open>trim_space\<close> is \<open>strings.TrimSpace\<close>,
    \<open>show_int\<close> the decimal form that \<open>%d\<close> prints, \<open>ascii_lower\<close> the ASCII part of
    \<open>strings.ToLower\<close>;
  \<^item> maps: a Go map is an association list with distinct keys whose order is the order in
    which \<open>range\<close> visits it (Go leaves that order open, so the theorems quantify over it).
\<close>

named_theorems wf_intros \<open>introduction rules for well-formedness predicates\<close>
named_theorems wf_dests \<open>what a well-formedness predicate gives\<close>
named_theorems go_consts \<open>the numeric constants of the enumerated types\<close>


section \<open>Results\<close>

definition bindE :: "'e + 'a \<Rightarrow> ('a \<Rightarrow> 'e + 'b) \<Rightarrow> 'e + 'b" where
  "bindE m f = (case m of Inl e \<Rightarrow> Inl e | Inr x \<Rightarrow> f x)"

lemma bindE_Inl [simp]: "bindE (Inl e) f = Inl e"
  by (simp add: bindE_def)

lemma bindE_Inr [simp]: "bindE (Inr x) f = f x"
  by (simp add: bindE_def)

lemma bindE_eq_Inr: "bindE m f = Inr y \<longleftrightarrow> (\<exists>x. m = Inr x \<and> f x = Inr y)"
  by (cases m) auto

lemma bindE_eq_Inl: "bindE m f = Inl e \<longleftrightarrow> m = Inl e \<or> (\<exists>x. m = Inr x \<and> f x = Inl e)"
  by (cases m) auto

lemma bindE_assoc: "bindE (bindE m f) g = bindE m (\<lambda>x. bindE (f x) g)"
  by (cases m) auto

text \<open>Computations that may also not return: \<open>None\<close> is "does not return".\<close>

type_synonym ('e, 'a) partial_res = "('e + 'a) option"

definition bindP :: "('e, 'a) partial_res \<Rightarrow> ('a \<Rightarrow> ('e, 'b) partial_res) \<Rightarrow> ('e, 'b) partial_res" where
  "bindP m f = (case m of None \<Rightarrow> None | Some (Inl e) \<Rightarrow> Some (Inl e) | Some (Inr x) \<Rightarrow> f x)"

lemma bindP_simps [simp]:
  "bindP None f = None"
  "bindP (Some (Inl e)) f = Some (Inl e)"
  "bindP (Some (Inr x)) f = f x"
  by (simp_all add: bindP_def)

lemma bindP_eq_Inr: "bindP m f = Some (Inr y) \<longleftrightarrow> (\<exists>x. m = Some (Inr x) \<and> f x = Some (Inr y))"
  by (auto simp: bindP_def split: option.splits sum.splits)

lemma bindP_eq_None: "bindP m f = None \<longleftrightarrow> m = None \<or> (\<exists>x. m = Some (Inr x) \<and> f x = None)"
  by (auto simp: bindP_def split: option.splits sum.splits)


section \<open>Machine integers\<close>

definition wrap64 :: "int \<Rightarrow> int" where
  "wrap64 x = (x + 2 ^ 63) mod 2 ^ 64 - 2 ^ 63"

definition int64 :: "int \<Rightarrow> bool" where
  "int64 x \<longleftrightarrow> - (2 ^ 63) \<le> x \<and> x < 2 ^ 63"

lemma wrap64_int64: "int64 (wrap64 x)"
  by (simp add: wrap64_def int64_def)

lemma wrap64_id: "int64 x \<Longrightarrow> wrap64 x = x"
  by (simp add: wrap64_def int64_def)


section \<open>Strings\<close>

fun digits_of :: "nat \<Rightarrow> string" where
  "digits_of n = (if n < 10 then [char_of (48 + n)]
                  else digits_of (n div 10) @ [char_of (48 + n mod 10)])"

declare digits_of.simps [simp del]

definition show_int :: "int \<Rightarrow> string" where
  "show_int i = (if i < 0 then ''-'' @ digits_of (nat (- i)) else digits_of (nat i))"

lemma digits_of_nonempty [simp]: "digits_of n \<noteq> []"
  by (subst digits_of.simps) simp

lemma show_int_nonempty [simp]: "show_int i \<noteq> []"
  by (simp add: show_int_def)

text \<open>
  The UTF-8 encodings of the code points that \<open>unicode.IsSpace\<close> accepts. A valid encoding
  at the start (end) of a byte string is exactly the first (last) rune that Go decodes there,
  so trimming runes is trimming these byte sequences.
\<close>

definition space_encodings :: "string list" where
  "space_encodings =
     [[CHR 0x20], [CHR 0x09], [CHR 0x0A], [CHR 0x0B], [CHR 0x0C], [CHR 0x0D],
      [CHR 0xC2, CHR 0x85], [CHR 0xC2, CHR 0xA0],
      [CHR 0xE1, CHR 0x9A, CHR 0x80],
      [CHR 0xE2, CHR 0x80, CHR 0x80], [CHR 0xE2, CHR 0x80, CHR 0x81],
      [CHR 0xE2, CHR 0x80, CHR 0x82], [CHR 0xE2, CHR 0x80, CHR 0x83],
      [CHR 0xE2, CHR 0x80, CHR 0x84], [CHR 0xE2, CHR 0x80, CHR 0x85],
      [CHR 0xE2, CHR 0x80, CHR 0x86], [CHR 0xE2, CHR 0x80, CHR 0x87],
      [CHR 0xE2, CHR 0x80, CHR 0x88], [CHR 0xE2, CHR 0x80, CHR 0x89],
      [CHR 0xE2, CHR 0x80, CHR 0x8A], [CHR 0xE2, CHR 0x80, CHR 0xA8],
      [CHR 0xE2, CHR 0x80, CHR 0xA9], [CHR 0xE2, CHR 0x80, CHR 0xAF],
      [CHR 0xE2, CHR 0x81, CHR 0x9F], [CHR 0xE3, CHR 0x80, CHR 0x80]]"

fun strip_prefix :: "'a list \<Rightarrow> 'a list \<Rightarrow> 'a list option" where
  "strip_prefix [] s = Some s"
| "strip_prefix (x # xs) [] = None"
| "strip_prefix (x # xs) (y # ys) = (if x = y then strip_prefix xs ys else None)"

lemma strip_prefix_Some: "strip_prefix p s = Some r \<longleftrightarrow> s = p @ r"
  by (induction p s rule: strip_prefix.induct) auto

fun strip_any :: "'a list list \<Rightarrow> 'a list \<Rightarrow> 'a list option" where
  "strip_any [] s = None"
| "strip_any (p # ps) s =
     (if p = [] then strip_any ps s
      else case strip_prefix p s of Some r \<Rightarrow> Some r | None \<Rightarrow> strip_any ps s)"

lemma strip_any_SomeD: "strip_any ps s = Some r \<Longrightarrow> \<exists>p \<in> set ps. p \<noteq> [] \<and> s = p @ r"
  by (induction ps) (auto split: if_splits option.splits simp: strip_prefix_Some)

lemma strip_any_None: "strip_any ps s = None \<longleftrightarrow> (\<forall>p \<in> set ps. p \<noteq> [] \<longrightarrow> (\<nexists>r. s = p @ r))"
proof (induction ps)
  case (Cons p ps)
  have "strip_prefix p s = None \<longleftrightarrow> (\<nexists>r. s = p @ r)"
    by (metis not_None_eq strip_prefix_Some)
  with Cons show ?case by (auto split: option.splits simp: strip_prefix_Some)
qed simp

lemma strip_any_shorter: "strip_any ps s = Some r \<Longrightarrow> length r < length s"
  by (auto dest!: strip_any_SomeD)

function strip_all :: "'a list list \<Rightarrow> 'a list \<Rightarrow> 'a list" where
  "strip_all ps s = (case strip_any ps s of None \<Rightarrow> s | Some r \<Rightarrow> strip_all ps r)"
  by pat_completeness auto
termination
  by (relation "measure (\<lambda>(ps, s). length s)") (auto dest: strip_any_shorter)

declare strip_all.simps [simp del]

lemma strip_all_done: "strip_any ps (strip_all ps s) = None"
proof (induction ps s rule: strip_all.induct)
  case (1 ps s)
  then show ?case
    by (cases "strip_any ps s") (simp_all add: strip_all.simps [of ps s])
qed

lemma strip_all_fix: "strip_all ps s = s \<longleftrightarrow> strip_any ps s = None"
proof
  assume "strip_all ps s = s"
  with strip_all_done [of ps s] show "strip_any ps s = None" by simp
next
  assume "strip_any ps s = None"
  then show "strip_all ps s = s" by (simp add: strip_all.simps [of ps s])
qed

lemma strip_all_suffix: "\<exists>p. s = p @ strip_all ps s"
proof (induction ps s rule: strip_all.induct)
  case (1 ps s)
  show ?case
  proof (cases "strip_any ps s")
    case None
    then show ?thesis by (simp add: strip_all.simps [of ps s])
  next
    case (Some r)
    from strip_any_SomeD [OF this] obtain p where "s = p @ r" by blast
    moreover from 1 Some obtain q where "r = q @ strip_all ps r" by blast
    moreover from Some have "strip_all ps s = strip_all ps r"
      by (simp add: strip_all.simps [of ps s])
    ultimately have "s = (p @ q) @ strip_all ps s" by simp
    then show ?thesis by blast
  qed
qed

definition trim_left :: "string \<Rightarrow> string" where
  "trim_left s = strip_all space_encodings s"

definition trim_right :: "string \<Rightarrow> string" where
  "trim_right s = rev (strip_all (map rev space_encodings) (rev s))"

definition trim_space :: "string \<Rightarrow> string" where
  "trim_space s = trim_right (trim_left s)"

lemma strip_all_Nil [simp]: "strip_all ps [] = []"
  by (simp add: strip_all_fix strip_any_None)

lemma trim_space_Nil [simp]: "trim_space [] = []"
  by (simp add: trim_space_def trim_left_def trim_right_def)

lemma trim_right_prefix: "\<exists>q. s = trim_right s @ q"
proof -
  from strip_all_suffix [of "rev s" "map rev space_encodings"]
  obtain p where "rev s = p @ strip_all (map rev space_encodings) (rev s)" by blast
  then have "s = rev (strip_all (map rev space_encodings) (rev s)) @ rev p"
    by (metis rev_append rev_rev_ident)
  then show ?thesis by (auto simp: trim_right_def)
qed

text \<open>Trimming twice is trimming once.\<close>

lemma trim_space_idem [simp]: "trim_space (trim_space s) = trim_space s"
proof -
  let ?t = "trim_left s"
  obtain q where q: "?t = trim_right ?t @ q" using trim_right_prefix by blast
  have none: "strip_any space_encodings ?t = None"
    by (simp add: trim_left_def strip_all_done)
  have "strip_any space_encodings (trim_right ?t) = None"
    unfolding strip_any_None
  proof (intro ballI impI notI)
    fix p assume p: "p \<in> set space_encodings" "p \<noteq> []" and "\<exists>r. trim_right ?t = p @ r"
    then obtain r where "trim_right ?t = p @ r" by blast
    with q have "?t = p @ (r @ q)" by (metis append.assoc)
    with none p show False by (auto simp: strip_any_None)
  qed
  then have "trim_left (trim_right ?t) = trim_right ?t"
    by (simp add: trim_left_def strip_all_fix)
  moreover have "trim_right (trim_right ?t) = trim_right ?t"
    by (simp add: trim_right_def strip_all_fix strip_all_done)
  ultimately show ?thesis by (simp add: trim_space_def)
qed

text \<open>A text that starts and ends with a visible ASCII character is not trimmed.\<close>

definition visible :: "char \<Rightarrow> bool" where
  "visible c \<longleftrightarrow> 0x20 < (of_char c :: nat) \<and> (of_char c :: nat) < 0x7F"

lemma space_encodings_invisible:
  "p \<in> set space_encodings \<Longrightarrow> p \<noteq> [] \<and> \<not> visible (hd p) \<and> \<not> visible (last p)"
  by (auto simp: space_encodings_def visible_def)

lemma trim_space_visible:
  assumes "s \<noteq> []" and "visible (hd s)" and "visible (last s)"
  shows "trim_space s = s"
proof -
  have "strip_any space_encodings s = None"
    using assms space_encodings_invisible by (fastforce simp: strip_any_None)
  moreover have "strip_any (map rev space_encodings) (rev s) = None"
    unfolding strip_any_None
  proof (intro ballI impI notI)
    fix p assume "p \<in> set (map rev space_encodings)" "p \<noteq> []" "\<exists>r. rev s = p @ r"
    then obtain q r where q: "q \<in> set space_encodings" "p = rev q" "rev s = rev q @ r" by auto
    then have "s = rev r @ q" by (metis rev_append rev_rev_ident)
    with q assms space_encodings_invisible [OF q(1)] show False by simp
  qed
  ultimately show ?thesis
    by (simp add: trim_space_def trim_left_def trim_right_def strip_all_fix [THEN iffD2])
qed

text \<open>The ASCII part of \<open>strings.ToLower\<close>.\<close>

definition is_ascii :: "string \<Rightarrow> bool" where
  "is_ascii s \<longleftrightarrow> (\<forall>c \<in> set s. (of_char c :: nat) < 128)"

definition lower_byte :: "char \<Rightarrow> char" where
  "lower_byte c = (let n = (of_char c :: nat) in if 65 \<le> n \<and> n \<le> 90 then char_of (n + 32) else c)"

definition ascii_lower :: "string \<Rightarrow> string" where
  "ascii_lower s = map lower_byte s"


section \<open>Maps\<close>

type_synonym ('k, 'v) gomap = "('k \<times> 'v) list"

definition gm_get :: "('k, 'v) gomap \<Rightarrow> 'k \<Rightarrow> 'v option" where
  "gm_get m k = map_of m k"

definition gm_put :: "'k \<Rightarrow> 'v \<Rightarrow> ('k, 'v) gomap \<Rightarrow> ('k, 'v) gomap" where
  "gm_put k v m = AList.update k v m"

definition gm_del :: "'k \<Rightarrow> ('k, 'v) gomap \<Rightarrow> ('k, 'v) gomap" where
  "gm_del k m = AList.delete k m"

text \<open>The values in the order \<open>range\<close> visits them.\<close>

definition gm_vals :: "('k, 'v) gomap \<Rightarrow> 'v list" where
  "gm_vals m = map snd m"

definition gm_ok :: "('k, 'v) gomap \<Rightarrow> bool" where
  "gm_ok m \<longleftrightarrow> distinct (map fst m)"

lemma gm_get_map_of: "gm_get m = map_of m"
  by (simp add: gm_get_def fun_eq_iff)

lemma gm_get_empty [simp]: "gm_get [] = Map.empty"
  by (simp add: gm_get_def fun_eq_iff)

lemma gm_get_put [simp]: "gm_get (gm_put k v m) = (gm_get m)(k \<mapsto> v)"
  by (simp add: gm_get_def gm_put_def fun_eq_iff update_conv')

lemma gm_get_del [simp]: "gm_get (gm_del k m) = (gm_get m)(k := None)"
  by (simp add: gm_get_def gm_del_def fun_eq_iff delete_conv')

lemma gm_ok_empty [simp]: "gm_ok []"
  by (simp add: gm_ok_def)

lemma gm_ok_put [simp]: "gm_ok m \<Longrightarrow> gm_ok (gm_put k v m)"
  by (simp add: gm_ok_def gm_put_def distinct_update)

lemma gm_ok_del [simp]: "gm_ok m \<Longrightarrow> gm_ok (gm_del k m)"
  by (simp add: gm_ok_def gm_del_def distinct_delete)

lemma set_gm_vals: "gm_ok m \<Longrightarrow> set (gm_vals m) = ran (gm_get m)"
  by (simp add: gm_ok_def gm_vals_def gm_get_map_of ran_distinct)

text \<open>Every value is stored under its own key \<open>f v\<close>.\<close>

definition gm_keyed :: "('v \<Rightarrow> 'k) \<Rightarrow> ('k, 'v) gomap \<Rightarrow> bool" where
  "gm_keyed f m \<longleftrightarrow> gm_ok m \<and> (\<forall>k v. gm_get m k = Some v \<longrightarrow> f v = k)"

lemma gm_keyed_ok: "gm_keyed f m \<Longrightarrow> gm_ok m"
  by (simp add: gm_keyed_def)

lemma gm_keyed_empty [simp]: "gm_keyed f []"
  by (simp add: gm_keyed_def)

lemma distinct_gm_vals:
  assumes "gm_keyed f m"
  shows "distinct (gm_vals m)"
proof -
  have "f v = k" if "(k, v) \<in> set m" for k v
    using assms that by (auto simp: gm_keyed_def gm_get_def gm_ok_def)
  then have "map f (gm_vals m) = map fst m"
    by (auto simp: gm_vals_def)
  with assms have "distinct (map f (gm_vals m))" by (simp add: gm_keyed_def gm_ok_def)
  then show ?thesis by (simp add: distinct_map)
qed

lemma gm_get_mem: "gm_ok m \<Longrightarrow> (k, v) \<in> set m \<longleftrightarrow> gm_get m k = Some v"
  by (simp add: gm_ok_def gm_get_def)

lemma finite_dom_gm_get [simp]: "finite (dom (gm_get m))"
  by (simp add: gm_get_map_of finite_dom_map_of)

lemma finite_ran_gm_get [simp]: "finite (ran (gm_get m))"
  by (rule finite_ran) simp

end
