(* ===== verification/Errors.thy ===== *)
theory Errors
  imports Prelude
begin

text \<open>
  The package \<open>errors\<close> (src/errors/errors.go): the stable codes, the error value with its code,
  message and wrapped cause, and the tests \<open>Is\<close> and \<open>HasCode\<close> that walk the chain of causes.
  An error of another origin (\<open>fmt.Errorf\<close>, encoding/json, the database) is in the same type,
  so that every \<open>error\<close> result of the program is one value of it.
\<close>

section \<open>Codes and errors\<close>

datatype Code =
    CodeNoKnownConnection | CodePersonNotFound | CodeRelationshipNotFound | CodeSourceNotFound
  | CodeProposalNotFound | CodeInvalidTransition | CodeImmutableTerminalProposal
  | CodeCycleDetected | CodeForbiddenRelationship | CodeFabricationAttempt
  | CodeVersionNotFound | CodeInvalidArgument

fun Code_string :: "Code \<Rightarrow> string" where
  "Code_string CodeNoKnownConnection = ''NO_KNOWN_CONNECTION''"
| "Code_string CodePersonNotFound = ''PERSON_NOT_FOUND''"
| "Code_string CodeRelationshipNotFound = ''RELATIONSHIP_NOT_FOUND''"
| "Code_string CodeSourceNotFound = ''SOURCE_NOT_FOUND''"
| "Code_string CodeProposalNotFound = ''PROPOSAL_NOT_FOUND''"
| "Code_string CodeInvalidTransition = ''INVALID_PROPOSAL_TRANSITION''"
| "Code_string CodeImmutableTerminalProposal = ''IMMUTABLE_TERMINAL_PROPOSAL''"
| "Code_string CodeCycleDetected = ''CYCLE_DETECTED''"
| "Code_string CodeForbiddenRelationship = ''FORBIDDEN_RELATIONSHIP''"
| "Code_string CodeFabricationAttempt = ''FABRICATION_ATTEMPT''"
| "Code_string CodeVersionNotFound = ''VERSION_NOT_FOUND''"
| "Code_string CodeInvalidArgument = ''INVALID_ARGUMENT''"

text \<open>
  \<open>LError\<close> is the package's \<open>*Error\<close>; \<open>FmtError\<close> is what \<open>fmt.Errorf\<close> returns (its text, and
  the error that \<open>%w\<close> wrapped, if any); \<open>ForeignError\<close> is an error of a library, known by its
  text.
\<close>

datatype error =
    LError Code string "error option"
  | FmtError string "error option"
  | ForeignError string

definition New :: "Code \<Rightarrow> string \<Rightarrow> error" where
  "New code message = LError code message None"

definition Wrap :: "Code \<Rightarrow> string \<Rightarrow> error \<Rightarrow> error" where
  "Wrap code message cause = LError code message (Some cause)"

definition Errorf :: "string \<Rightarrow> error" where
  "Errorf s = FmtError s None"

fun Error_text :: "error \<Rightarrow> string" where
  "Error_text (LError c m (Some e)) = Code_string c @ '': '' @ m @ '': '' @ Error_text e"
| "Error_text (LError c m None) = Code_string c @ '': '' @ m"
| "Error_text (FmtError s _) = s"
| "Error_text (ForeignError s) = s"

fun Unwrap :: "error \<Rightarrow> error option" where
  "Unwrap (LError _ _ cause) = cause"
| "Unwrap (FmtError _ w) = w"
| "Unwrap (ForeignError _) = None"

text \<open>\<open>fmt.Errorf(s + ": %w", e)\<close>.\<close>

definition Errorf_wrap :: "string \<Rightarrow> error \<Rightarrow> error" where
  "Errorf_wrap s e = FmtError (s @ Error_text e) (Some e)"


section \<open>Walking the chain of causes\<close>

text \<open>\<open>errors.As(err, &e)\<close> for a target of type \<open>*Error\<close>: the first one along the chain.\<close>

fun as_Error :: "error \<Rightarrow> Code option" where
  "as_Error (LError c _ _) = Some c"
| "as_Error (FmtError _ (Some e)) = as_Error e"
| "as_Error (FmtError _ None) = None"
| "as_Error (ForeignError _) = None"

definition Error_Is :: "Code \<Rightarrow> error \<Rightarrow> bool" where
  "Error_Is receiver target =
     (case as_Error target of None \<Rightarrow> False | Some t \<Rightarrow> receiver = t)"

text \<open>\<open>errors.Is(err, target)\<close> for a target built by this package: it asks every \<open>*Error\<close> along
  the chain of \<open>err\<close>.\<close>

fun errors_Is :: "error \<Rightarrow> error \<Rightarrow> bool" where
  "errors_Is (LError c _ cause) target =
     (Error_Is c target \<or> (case cause of None \<Rightarrow> False | Some e \<Rightarrow> errors_Is e target))"
| "errors_Is (FmtError _ w) target = (case w of None \<Rightarrow> False | Some e \<Rightarrow> errors_Is e target)"
| "errors_Is (ForeignError _) target = False"

definition HasCode :: "error \<Rightarrow> Code \<Rightarrow> bool" where
  "HasCode err code = (case as_Error err of None \<Rightarrow> False | Some c \<Rightarrow> c = code)"

definition IsNoKnownConnection :: "error \<Rightarrow> bool" where
  "IsNoKnownConnection err = HasCode err CodeNoKnownConnection"

definition ErrNoKnownConnection :: error where
  "ErrNoKnownConnection = New CodeNoKnownConnection ''no known genealogical connection exists''"


section \<open>Lemmas\<close>

text \<open>The codes along the chain, outermost first.\<close>

fun chain_codes :: "error \<Rightarrow> Code list" where
  "chain_codes (LError c _ cause) = c # (case cause of None \<Rightarrow> [] | Some e \<Rightarrow> chain_codes e)"
| "chain_codes (FmtError _ w) = (case w of None \<Rightarrow> [] | Some e \<Rightarrow> chain_codes e)"
| "chain_codes (ForeignError _) = []"

lemma HasCode_simps [simp]:
  "HasCode (LError c m e) d \<longleftrightarrow> c = d"
  "HasCode (New c m) d \<longleftrightarrow> c = d"
  "HasCode (Wrap c m e') d \<longleftrightarrow> c = d"
  "\<not> HasCode (Errorf s) d"
  by (simp_all add: HasCode_def New_def Wrap_def Errorf_def)

lemma as_Error_chain: "as_Error e = (case chain_codes e of [] \<Rightarrow> None | c # _ \<Rightarrow> Some c)"
  by (induction e rule: as_Error.induct) (auto split: option.split)

lemma errors_Is_chain: "errors_Is e (New c m) \<longleftrightarrow> c \<in> set (chain_codes e)"
  by (induction e "New c m" rule: errors_Is.induct)
    (auto simp: Error_Is_def New_def split: option.split)

text \<open>
  \<open>HasCode\<close> tests the outermost code of the chain only, while \<open>errors.Is\<close> with a code as its
  target tests every code of the chain. So the two differ exactly on the codes below the first.
\<close>

theorem HasCode_vs_Is:
  "HasCode e c = (take 1 (chain_codes e) = [c]) \<and>
   errors_Is e (New c m) = (c \<in> set (chain_codes e))"
  unfolding HasCode_def as_Error_chain errors_Is_chain
  by (cases "chain_codes e") auto

end
