(* ===== verification/GoText.thy ===== *)
theory GoText
  imports Errors
begin

text \<open>
  The text formats of the standard library that the persistent adapter writes and reads: UTF-8 as
  \<open>unicode/utf8\<close> decodes it, decimal integers as \<open>strconv.ParseInt\<close> reads them, base64 as
  \<open>encoding/base64\<close> codes \<open>[]byte\<close> values, and 8-byte big-endian numbers as \<open>encoding/binary\<close>
  writes them. Each has its round trip.
\<close>

abbreviation byte :: "char \<Rightarrow> nat" where
  "byte c \<equiv> of_char c"


section \<open>UTF-8\<close>

definition in_range :: "nat \<Rightarrow> nat \<Rightarrow> char \<Rightarrow> bool" where
  "in_range lo hi c \<longleftrightarrow> lo \<le> byte c \<and> byte c \<le> hi"

text \<open>
  The length of the encoded rune at the start of a text, 0 when there is none (which is where
  \<open>utf8.DecodeRune\<close> returns \<open>RuneError\<close> and the size 1). The second byte has a narrower range
  after some first bytes: no overlong forms, no surrogates, nothing above U+10FFFF.
\<close>

definition second_ok :: "char \<Rightarrow> char \<Rightarrow> bool" where
  "second_ok c d \<longleftrightarrow>
     in_range (if byte c = 0xE0 then 0xA0 else if byte c = 0xF0 then 0x90 else 0x80)
       (if byte c = 0xED then 0x9F else if byte c = 0xF4 then 0x8F else 0xBF) d"

fun rune_size :: "string \<Rightarrow> nat" where
  "rune_size [] = 0"
| "rune_size (c # s) =
     (if byte c < 0x80 then 1
      else case s of
        [] \<Rightarrow> 0
      | d # t \<Rightarrow>
          if \<not> second_ok c d then 0
          else if in_range 0xC2 0xDF c then 2
          else case t of
            [] \<Rightarrow> 0
          | e # u \<Rightarrow>
              if \<not> in_range 0x80 0xBF e then 0
              else if in_range 0xE0 0xEF c then 3
              else case u of
                [] \<Rightarrow> 0
              | f # _ \<Rightarrow>
                  if in_range 0xF0 0xF4 c \<and> in_range 0x80 0xBF f then 4 else 0)"

declare rune_size.simps(2) [simp del]

lemma rune_size_ascii: "byte c < 0x80 \<Longrightarrow> rune_size (c # s) = 1"
  by (simp add: rune_size.simps)

lemma rune_size_length: "rune_size s \<le> length s"
  by (cases s) (auto simp: rune_size.simps split: list.split)

text \<open>The size looks at the bytes of the rune only, and after the first one they are not ASCII.\<close>

lemma rune_size_prefix: "rune_size s = n \<Longrightarrow> 0 < n \<Longrightarrow> rune_size (take n s @ t) = n"
  by (cases s) (auto simp: rune_size.simps split: list.splits if_splits)

lemma rune_size_high:
  "rune_size (c # s) = n \<Longrightarrow> 1 < n \<Longrightarrow> d \<in> set (take n (c # s)) \<Longrightarrow> 0x80 \<le> byte d"
  by (auto simp: rune_size.simps second_ok_def in_range_def split: list.splits if_splits)

lemma rune_size_one: "rune_size (c # s) = 1 \<Longrightarrow> byte c < 0x80"
  by (auto simp: rune_size.simps split: list.splits if_splits)

text \<open>The encoding of U+FFFD, which stands for an invalid byte.\<close>

definition replacement :: string where
  "replacement = [CHR 0xEF, CHR 0xBF, CHR 0xBD]"

function to_valid :: "string \<Rightarrow> string" where
  "to_valid s =
     (if s = [] then []
      else if rune_size s = 0 then replacement @ to_valid (tl s)
      else take (rune_size s) s @ to_valid (drop (rune_size s) s))"
  by pat_completeness auto
termination
  by (relation "measure length") auto

declare to_valid.simps [simp del]

definition utf8 :: "string \<Rightarrow> bool" where
  "utf8 s \<longleftrightarrow> to_valid s = s"

lemma to_valid_Nil [simp]: "to_valid [] = []"
  by (simp add: to_valid.simps)

lemma utf8_Nil [simp]: "utf8 []"
  by (simp add: utf8_def)

lemma utf8_ascii: "is_ascii s \<Longrightarrow> utf8 s"
proof (induction s)
  case (Cons c s)
  then have "rune_size (c # s) = 1" "is_ascii s"
    by (simp_all add: is_ascii_def rune_size_ascii)
  with Cons show ?case by (simp add: utf8_def to_valid.simps [of "c # s"])
qed simp

lemma to_valid_invalid: "rune_size (c # s) = 0 \<Longrightarrow> to_valid (c # s) = replacement @ to_valid s"
  by (simp add: to_valid.simps [of "c # s"])

lemma to_valid_rune:
  assumes "rune_size s = n" and "0 < n"
  shows "to_valid (take n s @ t) = take n s @ to_valid t"
proof -
  have "length (take n s) = n" using rune_size_length [of s] assms by simp
  moreover from this have "take n s \<noteq> []" using assms by auto
  ultimately show ?thesis
    using assms by (subst to_valid.simps) (simp add: rune_size_prefix)
qed

lemma to_valid_idem [simp]: "to_valid (to_valid s) = to_valid s"
proof (induction s rule: to_valid.induct)
  case (1 s)
  have rep: "to_valid (replacement @ t) = replacement @ to_valid t" for t
    using to_valid_rune [of replacement 3 t]
    by (simp add: replacement_def rune_size.simps second_ok_def in_range_def)
  consider "s = []" | "s \<noteq> []" "rune_size s = 0" | "s \<noteq> []" "0 < rune_size s" by blast
  then show ?case
  proof cases
    case 2
    with 1(1) rep show ?thesis by (simp add: to_valid.simps [of s])
  next
    case 3
    with 1(2) show ?thesis
      by (simp add: to_valid.simps [of s] to_valid_rune [OF refl])
  qed simp
qed

lemma utf8_to_valid [simp]: "utf8 (to_valid s)"
  by (simp add: utf8_def)


lemma utf8_rune:
  assumes "rune_size s = n" and "0 < n"
  shows "utf8 (take n s @ t) \<longleftrightarrow> utf8 t"
  by (simp add: utf8_def to_valid_rune [OF assms])

lemma replacement_rune: "rune_size (replacement @ t) = 3"
  by (simp add: replacement_def rune_size.simps second_ok_def in_range_def)

lemma utf8_starts:
  assumes "utf8 s" and "s \<noteq> []"
  shows "0 < rune_size s"
proof (rule ccontr)
  assume n: "\<not> 0 < rune_size s"
  with assms have "s = replacement @ to_valid (tl s)"
    by (simp add: utf8_def to_valid.simps [of s])
  with n show False using replacement_rune [of "to_valid (tl s)"] by simp
qed

text \<open>The bytes of a rune after the first one are continuation bytes.\<close>

lemma rune_tail:
  "rune_size s = n \<Longrightarrow> d \<in> set (tl (take n s)) \<Longrightarrow> in_range 0x80 0xBF d"
  by (cases s) (auto simp: rune_size.simps second_ok_def in_range_def split: list.splits if_splits)

lemma space_encoding_rune:
  "q \<in> set space_encodings \<Longrightarrow>
   rune_size (q @ t) = length q \<and> q \<noteq> [] \<and> \<not> in_range 0x80 0xBF (hd q)"
  by (auto simp: space_encodings_def rune_size.simps second_ok_def in_range_def)

lemma utf8_drop_space:
  assumes "q \<in> set space_encodings"
  shows "utf8 (q @ r) \<longleftrightarrow> utf8 r"
  using utf8_rune [of "q @ r" "length q" r] space_encoding_rune [OF assms, of r] by simp

lemma utf8_cut_space:
  assumes "q \<in> set space_encodings" and "utf8 (u @ q)"
  shows "utf8 u"
  using assms(2)
proof (induction u rule: length_induct)
  case (1 u)
  show ?case
  proof (cases "u = []")
    case False
    note q = space_encoding_rune [OF assms(1), of "[]"]
    let ?n = "rune_size (u @ q)"
    have n: "0 < ?n" using 1(2) q by (intro utf8_starts) auto
    have "?n \<le> length u"
    proof (rule ccontr)
      assume "\<not> ?n \<le> length u"
      then have "hd q \<in> set (tl (take ?n (u @ q)))"
        using False q by (cases u; cases q; cases ?n) (auto simp: take_Cons')
      with rune_tail [OF refl] q show False by blast
    qed
    then have cut: "u = take ?n (u @ q) @ drop ?n u" "u @ q = take ?n (u @ q) @ (drop ?n u @ q)"
      by simp_all
    have "utf8 (drop ?n u @ q) \<longleftrightarrow> utf8 (u @ q)"
      using utf8_rune [OF refl n, of "drop ?n u @ q"] cut(2) by metis
    with 1 n False have "utf8 (drop ?n u)" by simp
    with utf8_rune [OF refl n, of "drop ?n u"] cut(1) show ?thesis by metis
  qed simp
qed

lemma utf8_trim [simp]:
  assumes "utf8 s"
  shows "utf8 (trim_space s)"
proof -
  have left: "utf8 s \<Longrightarrow> utf8 (strip_all space_encodings s)" for s
  proof (induction s rule: measure_induct_rule [where f = length])
    case (less s)
    show ?case
    proof (cases "strip_any space_encodings s")
      case None
      with less show ?thesis by (simp add: strip_all.simps [of _ s])
    next
      case (Some r)
      with less strip_any_SomeD [OF Some] strip_any_shorter [OF Some] show ?thesis
        by (auto simp: strip_all.simps [of _ s] utf8_drop_space)
    qed
  qed
  have right: "utf8 (rev s) \<Longrightarrow> utf8 (rev (strip_all (map rev space_encodings) s))" for s
  proof (induction s rule: measure_induct_rule [where f = length])
    case (less s)
    show ?case
    proof (cases "strip_any (map rev space_encodings) s")
      case None
      with less show ?thesis by (simp add: strip_all.simps [of _ s])
    next
      case (Some r)
      from strip_any_SomeD [OF Some] obtain q where q: "q \<in> set space_encodings" "rev s = rev r @ q"
        by auto
      with less strip_any_shorter [OF Some] utf8_cut_space [OF q(1)] Some show ?thesis
        by (simp add: strip_all.simps [of _ s])
    qed
  qed
  from left [OF assms] right [of "rev (trim_left s)"] show ?thesis
    by (simp add: trim_space_def trim_right_def trim_left_def)
qed


section \<open>Decimal integers\<close>

definition is_digit :: "char \<Rightarrow> bool" where
  "is_digit c \<longleftrightarrow> in_range 48 57 c"

definition digits_val :: "string \<Rightarrow> nat" where
  "digits_val s = foldl (\<lambda>n c. 10 * n + (byte c - 48)) 0 s"

text \<open>\<open>strconv.ParseInt\<close> in base 10 and 64 bits.\<close>

definition ParseInt :: "string \<Rightarrow> int option" where
  "ParseInt s =
     (let neg = (s \<noteq> [] \<and> hd s = CHR ''-'');
          ds = (if neg \<or> s \<noteq> [] \<and> hd s = CHR ''+'' then tl s else s);
          v = (if neg then - int (digits_val ds) else int (digits_val ds))
      in if ds \<noteq> [] \<and> list_all is_digit ds \<and> int64 v then Some v else None)"

lemma digits_of_digits: "list_all is_digit (digits_of n)"
proof (induction n rule: digits_of.induct)
  case (1 n)
  have "is_digit (char_of (48 + k))" if "k < 10" for k :: nat
    using that by (simp add: is_digit_def in_range_def)
  with 1 show ?case by (subst digits_of.simps) auto
qed

lemma digits_val_of: "digits_val (digits_of n) = n"
proof (induction n rule: digits_of.induct)
  case (1 n)
  then show ?case
    by (subst digits_of.simps) (auto simp: digits_val_def)
qed

lemma is_digit_sign: "is_digit c \<Longrightarrow> c \<noteq> CHR ''-'' \<and> c \<noteq> CHR ''+''"
  by (auto simp: is_digit_def in_range_def)

lemma ParseInt_show:
  assumes "int64 i"
  shows "ParseInt (show_int i) = Some i"
proof -
  have "hd (digits_of n) \<noteq> CHR ''-'' \<and> hd (digits_of n) \<noteq> CHR ''+''" for n
    using digits_of_digits [of n] is_digit_sign [of "hd (digits_of n)"]
    by (cases "digits_of n") auto
  then show ?thesis
    using assms digits_of_digits
    by (auto simp: ParseInt_def show_int_def Let_def digits_val_of)
qed


section \<open>Base64\<close>

definition b64_char :: "nat \<Rightarrow> char" where
  "b64_char n =
     (if n < 26 then char_of (65 + n)
      else if n < 52 then char_of (71 + n)
      else if n < 62 then char_of (n - 4)
      else if n = 62 then CHR ''+'' else CHR ''/'')"

definition b64_val :: "char \<Rightarrow> nat option" where
  "b64_val c =
     (if in_range 65 90 c then Some (byte c - 65)
      else if in_range 97 122 c then Some (byte c - 71)
      else if in_range 48 57 c then Some (byte c + 4)
      else if c = CHR ''+'' then Some 62
      else if c = CHR ''/'' then Some 63 else None)"

fun b64_encode :: "string \<Rightarrow> string" where
  "b64_encode [] = []"
| "b64_encode [a] = [b64_char (byte a div 4), b64_char (byte a mod 4 * 16), CHR ''='', CHR ''='']"
| "b64_encode [a, b] =
     [b64_char (byte a div 4), b64_char (byte a mod 4 * 16 + byte b div 16),
      b64_char (byte b mod 16 * 4), CHR ''='']"
| "b64_encode (a # b # c # s) =
     [b64_char (byte a div 4), b64_char (byte a mod 4 * 16 + byte b div 16),
      b64_char (byte b mod 16 * 4 + byte c div 64), b64_char (byte c mod 64)] @ b64_encode s"

text \<open>Quadruples of digits; the last one may be padded. The unused bits of the digit before the
  padding are not looked at.\<close>

fun b64_quads :: "string \<Rightarrow> string option" where
  "b64_quads [] = Some []"
| "b64_quads (p # q # r # s # t) =
     (case (b64_val p, b64_val q) of
        (Some w, Some x) \<Rightarrow>
          let c1 = char_of ((w * 4 + x div 16) mod 256) in
          if r = CHR ''='' then (if s = CHR ''='' \<and> t = [] then Some [c1] else None)
          else (case b64_val r of
            None \<Rightarrow> None
          | Some y \<Rightarrow>
              let c2 = char_of ((x * 16 + y div 4) mod 256) in
              if s = CHR ''='' then (if t = [] then Some [c1, c2] else None)
              else (case (b64_val s, b64_quads t) of
                (Some z, Some rest) \<Rightarrow> Some (c1 # c2 # char_of ((y * 64 + z) mod 256) # rest)
              | _ \<Rightarrow> None))
      | _ \<Rightarrow> None)"
| "b64_quads _ = None"

text \<open>Line ends are skipped.\<close>

definition b64_decode :: "string \<Rightarrow> string option" where
  "b64_decode s = b64_quads (filter (\<lambda>c. c \<noteq> CHR 0x0A \<and> c \<noteq> CHR 0x0D) s)"

lemma b64_val_char [simp]: "n < 64 \<Longrightarrow> b64_val (b64_char n) = Some n"
  by (auto simp: b64_val_def b64_char_def in_range_def of_char_of char_of_eq_iff)

lemma b64_char_plain:
  assumes "n < 64"
  shows "b64_char n \<noteq> CHR ''='' \<and> b64_char n \<noteq> CHR 0x0A \<and> b64_char n \<noteq> CHR 0x0D"
proof -
  have "b64_val c = None" if "c = CHR ''='' \<or> c = CHR 0x0A \<or> c = CHR 0x0D" for c
    using that by (auto simp: b64_val_def in_range_def)
  with b64_val_char [OF assms] show ?thesis by fastforce
qed

text \<open>The six-bit groups of one to three bytes, and the bytes put together again.\<close>

lemma six_bits:
  fixes a b c :: nat
  assumes "a < 256" "b < 256" "c < 256"
  shows "a div 4 < 64" and "a mod 4 * 16 < 64" and "a mod 4 * 16 + b div 16 < 64"
    and "b mod 16 * 4 < 64" and "b mod 16 * 4 + c div 64 < 64"
proof -
  have "a mod 4 < 4" "b mod 16 < 16" by simp_all
  moreover have "b div 16 < 16" "c div 64 < 4"
    using assms by (simp_all add: div_less_iff_less_mult)
  ultimately show "a mod 4 * 16 < 64" and "a mod 4 * 16 + b div 16 < 64"
    and "b mod 16 * 4 < 64" and "b mod 16 * 4 + c div 64 < 64"
    by linarith+
  show "a div 4 < 64" using assms by (simp add: div_less_iff_less_mult)
qed

lemma six_bits_join:
  fixes a b c :: nat
  assumes "a < 256" "b < 256" "c < 256"
  shows "(a div 4 * 4 + a mod 4 * 16 div 16) mod 256 = a"
    and "(a div 4 * 4 + (a mod 4 * 16 + b div 16) div 16) mod 256 = a"
    and "((a mod 4 * 16 + b div 16) * 16 + b mod 16 * 4 div 4) mod 256 = b"
    and "((a mod 4 * 16 + b div 16) * 16 + (b mod 16 * 4 + c div 64) div 4) mod 256 = b"
    and "((b mod 16 * 4 + c div 64) * 64 + c mod 64) mod 256 = c"
proof -
  have "a mod 4 * 16 div 16 = a mod 4" "b mod 16 * 4 div 4 = b mod 16" by simp_all
  moreover have "(a mod 4 * 16 + b div 16) div 16 = a mod 4" "(b mod 16 * 4 + c div 64) div 4 = b mod 16"
    using assms by simp_all
  moreover have "a div 4 * 4 + a mod 4 = a" by simp
  moreover have "(a mod 4 * 16 + b div 16) * 16 + b mod 16 = a mod 4 * 256 + b"
    "(b mod 16 * 4 + c div 64) * 64 + c mod 64 = b mod 16 * 256 + c"
    by (simp_all add: algebra_simps)
  ultimately show "(a div 4 * 4 + a mod 4 * 16 div 16) mod 256 = a"
    and "(a div 4 * 4 + (a mod 4 * 16 + b div 16) div 16) mod 256 = a"
    and "((a mod 4 * 16 + b div 16) * 16 + b mod 16 * 4 div 4) mod 256 = b"
    and "((a mod 4 * 16 + b div 16) * 16 + (b mod 16 * 4 + c div 64) div 4) mod 256 = b"
    and "((b mod 16 * 4 + c div 64) * 64 + c mod 64) mod 256 = c"
    using assms by simp_all
qed

lemma byte_less: "byte c < 256"
  by simp

lemmas b64_bits [simp] =
  six_bits [OF byte_less byte_less byte_less] six_bits_join [OF byte_less byte_less byte_less]

lemma byte_high [simp]: "byte c div 16 div 16 = 0" "byte c div 64 div 4 = 0"
  by (simp_all flip: div_mult2_eq)

lemma char_of_high [simp]: "char_of (byte c + 256 * n) = c"
  by (metis char_of_mod_256 byte_less char_of_char mod_less mod_mult_self2)

lemma b64_quads_encode: "b64_quads (b64_encode s) = Some s"
  by (induction s rule: b64_encode.induct) (simp_all add: b64_char_plain Let_def)

lemma b64_encode_lines: "filter (\<lambda>c. c \<noteq> CHR 0x0A \<and> c \<noteq> CHR 0x0D) (b64_encode s) = b64_encode s"
  by (induction s rule: b64_encode.induct) (simp_all add: b64_char_plain)

lemma b64_roundtrip: "b64_decode (b64_encode s) = Some s"
  by (simp add: b64_decode_def b64_encode_lines b64_quads_encode)

lemma b64_encode_ascii: "is_ascii (b64_encode s)"
proof -
  have "byte (b64_char n) < 128" for n
    by (auto simp: b64_char_def)
  then show ?thesis
    by (induction s rule: b64_encode.induct) (auto simp: is_ascii_def)
qed


section \<open>Big-endian numbers\<close>

fun be_bytes :: "nat \<Rightarrow> nat \<Rightarrow> string" where
  "be_bytes 0 n = []"
| "be_bytes (Suc k) n = be_bytes k (n div 256) @ [char_of (n mod 256)]"

definition be_val :: "string \<Rightarrow> nat" where
  "be_val s = foldl (\<lambda>n c. 256 * n + byte c) 0 s"

definition PutUint64 :: "64 word \<Rightarrow> string" where
  "PutUint64 w = be_bytes 8 (unat w)"

definition Uint64 :: "string \<Rightarrow> 64 word" where
  "Uint64 s = of_nat (be_val s)"

lemma be_val_bytes: "be_val (be_bytes k n) = n mod 256 ^ k"
proof (induction k arbitrary: n)
  case (Suc k)
  then show ?case
    by (simp add: be_val_def mod_mult2_eq)
qed (simp add: be_val_def)

lemma be_bytes_length [simp]: "length (be_bytes k n) = k"
  by (induction k arbitrary: n) auto

lemma PutUint64_length [simp]: "length (PutUint64 w) = 8"
  by (simp add: PutUint64_def)

lemma Uint64_Put [simp]: "Uint64 (PutUint64 w) = w"
proof -
  have "unat w < 256 ^ 8" using unsigned_less [of w] by simp
  then show ?thesis by (simp add: Uint64_def PutUint64_def be_val_bytes)
qed

end
