(* ===== verification/Json.thy ===== *)
theory Json
  imports GoText "HOL-Library.Monad_Syntax"
begin

text \<open>
  \<open>encoding/json\<close> as the persistent adapter uses it. A document is a tree; \<open>print_json\<close> is the
  compact text that \<open>Marshal\<close> writes (HTML-safe escapes, invalid UTF-8 replaced), \<open>parse_json\<close>
  the scanner together with the decoding of strings. Numbers keep their literal. The round trip
  is \<open>parse_print\<close>. Objects are read into Go structs field by field (\<open>decode_struct\<close>).
\<close>

section \<open>Documents\<close>

datatype json =
    JNull
  | JBool bool
  | JNum string
  | JStr string
  | JArr "json list"
  | JObj "(string \<times> json) list"


section \<open>Printing\<close>

definition hex_digit :: "nat \<Rightarrow> char" where
  "hex_digit n = (if n < 10 then char_of (48 + n) else char_of (87 + n))"

definition escape_byte :: "char \<Rightarrow> string" where
  "escape_byte c =
     (if c = CHR 0x22 \<or> c = CHR 0x5C then [CHR 0x5C, c]
      else if byte c = 8 then [CHR 0x5C, CHR ''b'']
      else if byte c = 12 then [CHR 0x5C, CHR ''f'']
      else if byte c = 10 then [CHR 0x5C, CHR ''n'']
      else if byte c = 13 then [CHR 0x5C, CHR ''r'']
      else if byte c = 9 then [CHR 0x5C, CHR ''t'']
      else if byte c < 0x20 \<or> c = CHR ''<'' \<or> c = CHR ''>'' \<or> c = CHR ''&''
      then [CHR 0x5C, CHR ''u'', CHR ''0'', CHR ''0'', hex_digit (byte c div 16), hex_digit (byte c mod 16)]
      else [c])"

text \<open>The line and paragraph separators U+2028 and U+2029.\<close>

definition separators :: "string list" where
  "separators = [[CHR 0xE2, CHR 0x80, CHR 0xA8], [CHR 0xE2, CHR 0x80, CHR 0xA9]]"

definition escape_rune :: "string \<Rightarrow> string" where
  "escape_rune r =
     (if length r = 1 then escape_byte (hd r)
      else if r \<in> set separators
      then [CHR 0x5C] @ ''u202'' @ [hex_digit (byte (last r) mod 16)]
      else r)"

function escape :: "string \<Rightarrow> string" where
  "escape s =
     (if s = [] then []
      else if rune_size s = 0 then [CHR 0x5C] @ ''ufffd'' @ escape (tl s)
      else escape_rune (take (rune_size s) s) @ escape (drop (rune_size s) s))"
  by pat_completeness auto
termination
  by (relation "measure length") auto

declare escape.simps [simp del]

definition print_string :: "string \<Rightarrow> string" where
  "print_string s = [CHR 0x22] @ escape s @ [CHR 0x22]"

fun join_comma :: "string list \<Rightarrow> string" where
  "join_comma [] = []"
| "join_comma [x] = x"
| "join_comma (x # y # xs) = x @ '','' @ join_comma (y # xs)"

fun print_json :: "json \<Rightarrow> string" where
  "print_json JNull = ''null''"
| "print_json (JBool b) = (if b then ''true'' else ''false'')"
| "print_json (JNum l) = l"
| "print_json (JStr s) = print_string s"
| "print_json (JArr js) = ''['' @ join_comma (map print_json js) @ '']''"
| "print_json (JObj kvs) =
     ''{'' @ join_comma (map (\<lambda>(k, v). print_string k @ '':'' @ print_json v) kvs) @ ''}''"


section \<open>Parsing\<close>

definition is_ws :: "char \<Rightarrow> bool" where
  "is_ws c \<longleftrightarrow> c = CHR 0x20 \<or> c = CHR 0x09 \<or> c = CHR 0x0A \<or> c = CHR 0x0D"

definition skip_ws :: "string \<Rightarrow> string" where
  "skip_ws s = dropWhile is_ws s"

definition hex_val :: "char \<Rightarrow> nat option" where
  "hex_val c =
     (if in_range 48 57 c then Some (byte c - 48)
      else if in_range 97 102 c then Some (byte c - 87)
      else if in_range 65 70 c then Some (byte c - 55) else None)"

definition hex4 :: "char \<Rightarrow> char \<Rightarrow> char \<Rightarrow> char \<Rightarrow> nat option" where
  "hex4 a b c d = do {
     w \<leftarrow> hex_val a; x \<leftarrow> hex_val b; y \<leftarrow> hex_val c; z \<leftarrow> hex_val d;
     Some (((w * 16 + x) * 16 + y) * 16 + z) }"

definition surrogate :: "nat \<Rightarrow> bool" where
  "surrogate r \<longleftrightarrow> 0xD800 \<le> r \<and> r < 0xE000"

text \<open>\<open>utf8.EncodeRune\<close>; a surrogate or a number above U+10FFFF becomes U+FFFD.\<close>

definition encode_rune :: "nat \<Rightarrow> string" where
  "encode_rune r =
     (if r < 0x80 then [char_of r]
      else if r < 0x800 then [char_of (0xC0 + r div 64), char_of (0x80 + r mod 64)]
      else if surrogate r \<or> 0x10FFFF < r then replacement
      else if r < 0x10000
      then [char_of (0xE0 + r div 4096), char_of (0x80 + r div 64 mod 64), char_of (0x80 + r mod 64)]
      else [char_of (0xF0 + r div 262144), char_of (0x80 + r div 4096 mod 64),
            char_of (0x80 + r div 64 mod 64), char_of (0x80 + r mod 64)])"

text \<open>\<open>utf16.DecodeRune\<close> on the two halves of a pair.\<close>

definition join_surrogates :: "nat \<Rightarrow> nat \<Rightarrow> nat option" where
  "join_surrogates r1 r2 =
     (if 0xD800 \<le> r1 \<and> r1 < 0xDC00 \<and> 0xDC00 \<le> r2 \<and> r2 < 0xE000
      then Some ((r1 - 0xD800) * 1024 + (r2 - 0xDC00) + 0x10000) else None)"

definition simple_escape :: "char \<Rightarrow> char option" where
  "simple_escape e =
     (if e = CHR 0x22 \<or> e = CHR 0x5C \<or> e = CHR ''/'' then Some e
      else if e = CHR ''b'' then Some (CHR 0x08)
      else if e = CHR ''f'' then Some (CHR 0x0C)
      else if e = CHR ''n'' then Some (CHR 0x0A)
      else if e = CHR ''r'' then Some (CHR 0x0D)
      else if e = CHR ''t'' then Some (CHR 0x09) else None)"

text \<open>The second half of a pair, when there is one.\<close>

definition low_half :: "nat \<Rightarrow> string \<Rightarrow> (nat \<times> string) option" where
  "low_half r s =
     (case s of
        a # u # h1 # h2 # h3 # h4 # t \<Rightarrow>
          (if a = CHR 0x5C \<and> u = CHR ''u''
           then do { r2 \<leftarrow> hex4 h1 h2 h3 h4; r' \<leftarrow> join_surrogates r r2; Some (r', t) } else None)
      | _ \<Rightarrow> None)"

lemma low_half_shorter: "low_half r s = Some (r', t) \<Longrightarrow> length t < length s"
  by (auto simp: low_half_def bind_eq_Some_conv split: list.splits if_splits)

text \<open>The text of a string after its opening quote: its value and what follows the closing one.\<close>

function parse_str :: "string \<Rightarrow> (string \<times> string) option" where
  "parse_str s =
     (case s of
        [] \<Rightarrow> None
      | c # t \<Rightarrow>
          if c = CHR 0x22 then Some ([], t)
          else if c = CHR 0x5C then
            (case t of
               [] \<Rightarrow> None
             | e # u \<Rightarrow>
                 if e = CHR ''u'' then
                   (case u of
                      h1 # h2 # h3 # h4 # v \<Rightarrow>
                        (case hex4 h1 h2 h3 h4 of
                           None \<Rightarrow> None
                         | Some r \<Rightarrow>
                             if surrogate r then
                               (case low_half r v of
                                  Some (r', w) \<Rightarrow> map_option (map_prod ((@) (encode_rune r')) id) (parse_str w)
                                | None \<Rightarrow> map_option (map_prod ((@) replacement) id) (parse_str v))
                             else map_option (map_prod ((@) (encode_rune r)) id) (parse_str v))
                    | _ \<Rightarrow> None)
                 else (case simple_escape e of
                    None \<Rightarrow> None
                  | Some d \<Rightarrow> map_option (map_prod ((@) [d]) id) (parse_str u)))
          else if byte c < 0x20 then None
          else if rune_size s = 0 then map_option (map_prod ((@) replacement) id) (parse_str t)
          else map_option (map_prod ((@) (take (rune_size s) s)) id)
                 (parse_str (drop (rune_size s) s)))"
  by pat_completeness auto
termination
  by (relation "measure length") (auto dest: low_half_shorter)

declare parse_str.simps [simp del]

text \<open>A number literal: sign, integer part without leading zero, fraction, exponent.\<close>

definition parse_frac :: "string \<Rightarrow> (string \<times> string) option" where
  "parse_frac s =
     (case s of c # t \<Rightarrow>
        (if c = CHR ''.'' then
           (let ds = takeWhile is_digit t
            in if ds = [] then None else Some (c # ds, dropWhile is_digit t))
         else Some ([], s))
      | [] \<Rightarrow> Some ([], s))"

definition parse_exp :: "string \<Rightarrow> (string \<times> string) option" where
  "parse_exp s =
     (case s of c # t \<Rightarrow>
        (if c = CHR ''e'' \<or> c = CHR ''E'' then
           (let sign = (case t of [] \<Rightarrow> [] | d # _ \<Rightarrow> if d = CHR ''+'' \<or> d = CHR ''-'' then [d] else []);
                u = drop (length sign) t;
                ds = takeWhile is_digit u
            in if ds = [] then None else Some (c # sign @ ds, dropWhile is_digit u))
         else Some ([], s))
      | [] \<Rightarrow> Some ([], s))"

definition parse_num :: "string \<Rightarrow> (string \<times> string) option" where
  "parse_num s =
     (let sign = (if s \<noteq> [] \<and> hd s = CHR ''-'' then ''-'' else []);
          t = drop (length sign) s
      in if t = [] \<or> \<not> is_digit (hd t) then None
         else
           let ip = (if hd t = CHR ''0'' then ''0'' else takeWhile is_digit t) in
           do { (f, u) \<leftarrow> parse_frac (drop (length ip) t);
                (e, v) \<leftarrow> parse_exp u;
                Some (sign @ ip @ f @ e, v) })"

text \<open>
  Values, by recursive descent. The fuel bounds the nesting of calls; \<open>parse_json\<close> gives more
  than twice the length of the text, which is always enough (\<open>parse_fuel\<close>).
\<close>

fun parse_value :: "nat \<Rightarrow> string \<Rightarrow> (json \<times> string) option"
and parse_elems :: "nat \<Rightarrow> string \<Rightarrow> (json list \<times> string) option"
and parse_members :: "nat \<Rightarrow> string \<Rightarrow> ((string \<times> json) list \<times> string) option" where
  "parse_value 0 s = None"
| "parse_value (Suc n) s =
     (case skip_ws s of
        [] \<Rightarrow> None
      | c # t \<Rightarrow>
          if c = CHR ''{'' then
            (case skip_ws t of
               [] \<Rightarrow> None
             | d # u \<Rightarrow> if d = CHR ''}'' then Some (JObj [], u)
                 else map_option (map_prod JObj id) (parse_members n t))
          else if c = CHR ''['' then
            (case skip_ws t of
               [] \<Rightarrow> None
             | d # u \<Rightarrow> if d = CHR '']'' then Some (JArr [], u)
                 else map_option (map_prod JArr id) (parse_elems n t))
          else if c = CHR 0x22 then map_option (map_prod JStr id) (parse_str t)
          else if take 4 (c # t) = ''null'' then Some (JNull, drop 4 (c # t))
          else if take 4 (c # t) = ''true'' then Some (JBool True, drop 4 (c # t))
          else if take 5 (c # t) = ''false'' then Some (JBool False, drop 5 (c # t))
          else map_option (map_prod JNum id) (parse_num (c # t)))"
| "parse_elems 0 s = None"
| "parse_elems (Suc n) s =
     (case parse_value n s of
        None \<Rightarrow> None
      | Some (j, u) \<Rightarrow>
          (case skip_ws u of
             [] \<Rightarrow> None
           | c # v \<Rightarrow>
               if c = CHR '','' then map_option (map_prod ((#) j) id) (parse_elems n v)
               else if c = CHR '']'' then Some ([j], v) else None))"
| "parse_members 0 s = None"
| "parse_members (Suc n) s =
     (case skip_ws s of
        [] \<Rightarrow> None
      | q # t \<Rightarrow>
          if q \<noteq> CHR 0x22 then None
          else (case parse_str t of
            None \<Rightarrow> None
          | Some (k, u) \<Rightarrow>
              (case skip_ws u of
                 [] \<Rightarrow> None
               | c # v \<Rightarrow>
                   if c \<noteq> CHR '':'' then None
                   else (case parse_value n v of
                     None \<Rightarrow> None
                   | Some (j, w) \<Rightarrow>
                       (case skip_ws w of
                          [] \<Rightarrow> None
                        | d # x \<Rightarrow>
                            if d = CHR '','' then map_option (map_prod ((#) (k, j)) id) (parse_members n x)
                            else if d = CHR ''}'' then Some ([(k, j)], x) else None)))))"

definition parse_json :: "string \<Rightarrow> json option" where
  "parse_json s =
     (case parse_value (Suc (2 * length s)) s of
        Some (j, u) \<Rightarrow> if skip_ws u = [] then Some j else None
      | None \<Rightarrow> None)"


section \<open>The round trip of strings\<close>

abbreviation prepend :: "'a list \<Rightarrow> ('a list \<times> 'b) option \<Rightarrow> ('a list \<times> 'b) option" where
  "prepend xs \<equiv> map_option (map_prod ((@) xs) id)"

lemma hex_val_digit [simp]: "n < 16 \<Longrightarrow> hex_val (hex_digit n) = Some n"
  by (auto simp: hex_val_def hex_digit_def in_range_def)

lemma parse_str_end: "parse_str (CHR 0x22 # t) = Some ([], t)"
  by (simp add: parse_str.simps)

lemma parse_str_simple:
  "simple_escape e = Some d \<Longrightarrow> e \<noteq> CHR ''u'' \<Longrightarrow>
   parse_str (CHR 0x5C # e # t) = prepend [d] (parse_str t)"
  by (subst parse_str.simps) simp

lemma parse_str_hex:
  "hex4 a b c d = Some r \<Longrightarrow> \<not> surrogate r \<Longrightarrow>
   parse_str (CHR 0x5C # CHR ''u'' # a # b # c # d # t) = prepend (encode_rune r) (parse_str t)"
  by (subst parse_str.simps) simp

lemma parse_str_rune:
  assumes n: "rune_size s = n" "0 < n" and hd: "hd s \<noteq> CHR 0x22" "hd s \<noteq> CHR 0x5C" "0x20 \<le> byte (hd s)"
  shows "parse_str (take n s @ t) = prepend (take n s) (parse_str t)"
proof -
  obtain c u where s: "s = c # u" using n by (cases s) auto
  have len: "length (take n s) = n" using rune_size_length [of s] n by simp
  obtain m where m: "n = Suc m" using n by (cases n) auto
  have "parse_str (take n s @ t) = prepend (take n (take n s @ t)) (parse_str (drop n (take n s @ t)))"
    using rune_size_prefix [OF n, of t] n hd by (subst parse_str.simps) (simp add: s m)
  with len show ?thesis by simp
qed

lemma byte_chars:
  "byte c = 8 \<longleftrightarrow> c = CHR 0x08" "byte c = 9 \<longleftrightarrow> c = CHR 0x09" "byte c = 10 \<longleftrightarrow> c = CHR 0x0A"
  "byte c = 12 \<longleftrightarrow> c = CHR 0x0C" "byte c = 13 \<longleftrightarrow> c = CHR 0x0D"
  unfolding of_char_eq_iff [symmetric, where 'a = nat] by simp_all

text \<open>The two-character escapes.\<close>

definition short_escapes :: "(char \<times> char) list" where
  "short_escapes =
     [(CHR 0x22, CHR 0x22), (CHR 0x5C, CHR 0x5C), (CHR 0x08, CHR ''b''), (CHR 0x09, CHR ''t''),
      (CHR 0x0A, CHR ''n''), (CHR 0x0C, CHR ''f''), (CHR 0x0D, CHR ''r'')]"

lemma short_escapes_ok:
  "list_all (\<lambda>(c, e). escape_byte c = [CHR 0x5C, e] \<and> simple_escape e = Some c \<and> e \<noteq> CHR ''u'')
     short_escapes"
  by (simp add: short_escapes_def escape_byte_def simple_escape_def)

lemma parse_str_byte:
  assumes "byte c < 0x80"
  shows "parse_str (escape_byte c @ t) = prepend [c] (parse_str t)"
proof -
  let ?short = "c \<in> fst ` set short_escapes"
  let ?hex = "byte c < 0x20 \<or> c = CHR ''<'' \<or> c = CHR ''>'' \<or> c = CHR ''&''"
  have three: thesis if "P \<Longrightarrow> thesis" "\<not> P \<Longrightarrow> Q \<Longrightarrow> thesis" "\<not> P \<Longrightarrow> \<not> Q \<Longrightarrow> thesis" for P Q thesis
    using that by blast
  show ?thesis
  proof (rule three [of ?short _ ?hex], goal_cases)
    case 1
    then obtain e where "(c, e) \<in> set short_escapes" by auto
    then have "escape_byte c = [CHR 0x5C, e]" "simple_escape e = Some c" "e \<noteq> CHR ''u''"
      using short_escapes_ok by (auto simp: list_all_iff)
    then show ?thesis by (simp add: parse_str_simple)
  next
    case 2
    then have e: "escape_byte c = [CHR 0x5C, CHR ''u'', CHR ''0'', CHR ''0'', hex_digit (byte c div 16),
        hex_digit (byte c mod 16)]"
      unfolding escape_byte_def byte_chars by (simp add: short_escapes_def)
    have "hex_val CHR ''0'' = Some 0" by (simp add: hex_val_def in_range_def)
    then have "hex4 CHR ''0'' CHR ''0'' (hex_digit (byte c div 16)) (hex_digit (byte c mod 16)) = Some (byte c)"
      using assms by (simp add: hex4_def)
    with assms show ?thesis
      by (simp add: e parse_str_hex surrogate_def encode_rune_def)
  next
    case 3
    then have e: "escape_byte c = [c]" "c \<noteq> CHR 0x22" "c \<noteq> CHR 0x5C"
      unfolding escape_byte_def byte_chars by (simp_all add: short_escapes_def)
    from 3 show ?thesis
      using parse_str_rune [of "[c]" 1 t] assms by (simp add: e rune_size_ascii)
  qed
qed

lemma encode_rune_fixed:
  "encode_rune 0xFFFD = replacement"
  "encode_rune 0x2028 = [CHR 0xE2, CHR 0x80, CHR 0xA8]"
  "encode_rune 0x2029 = [CHR 0xE2, CHR 0x80, CHR 0xA9]"
  by (simp_all add: encode_rune_def surrogate_def replacement_def char_of_eq_iff take_bit_eq_mod)

lemma parse_str_separator:
  "r \<in> set separators \<Longrightarrow> parse_str (escape_rune r @ t) = prepend r (parse_str t)"
proof -
  have hex: "hex4 CHR ''2'' CHR ''0'' CHR ''2'' CHR ''8'' = Some 0x2028"
    "hex4 CHR ''2'' CHR ''0'' CHR ''2'' CHR ''9'' = Some 0x2029"
    by (simp_all add: hex4_def hex_val_def in_range_def)
  have digit: "hex_digit 8 = CHR ''8''" "hex_digit 9 = CHR ''9''"
    by (simp_all add: hex_digit_def char_of_eq_iff take_bit_eq_mod)
  assume "r \<in> set separators"
  then consider "r = [CHR 0xE2, CHR 0x80, CHR 0xA8]" | "r = [CHR 0xE2, CHR 0x80, CHR 0xA9]"
    by (auto simp: separators_def)
  then show ?thesis
  proof cases
    case 1
    then have "escape_rune r = [CHR 0x5C] @ ''u2028''"
      by (simp add: escape_rune_def separators_def digit)
    with 1 show ?thesis
      using parse_str_hex [OF hex(1), of t] by (simp add: surrogate_def encode_rune_fixed)
  next
    case 2
    then have "escape_rune r = [CHR 0x5C] @ ''u2029''"
      by (simp add: escape_rune_def separators_def digit)
    with 2 show ?thesis
      using parse_str_hex [OF hex(2), of t] by (simp add: surrogate_def encode_rune_fixed)
  qed
qed

lemma parse_str_escape_rune:
  assumes n: "rune_size s = n" "0 < n"
  shows "parse_str (escape_rune (take n s) @ t) = prepend (take n s) (parse_str t)"
proof -
  obtain c u where s: "s = c # u" using n by (cases s) auto
  have len: "length (take n s) = n" using rune_size_length [of s] n by simp
  consider "n = 1" | "n \<noteq> 1" "take n s \<in> set separators" | "n \<noteq> 1" "take n s \<notin> set separators"
    by metis
  then show ?thesis
  proof cases
    case 1
    then have "byte c < 0x80" using n rune_size_one [of c u] by (simp add: s)
    with 1 show ?thesis by (simp add: s escape_rune_def parse_str_byte)
  next
    case 2
    then show ?thesis by (simp add: parse_str_separator)
  next
    case 3
    then have "0x80 \<le> byte c" using n rune_size_high [of c u n c] by (cases n) (auto simp: s)
    then have "c \<noteq> CHR 0x22" "c \<noteq> CHR 0x5C" by auto
    with 3 len show ?thesis
      using parse_str_rune [OF n, of t] \<open>0x80 \<le> byte c\<close> by (simp add: s escape_rune_def)
  qed
qed

lemma parse_str_escape: "parse_str (escape s @ CHR 0x22 # t) = Some (to_valid s, t)"
proof (induction s rule: escape.induct)
  case (1 s)
  consider "s = []" | "s \<noteq> []" "rune_size s = 0" | "s \<noteq> []" "0 < rune_size s" by blast
  then show ?case
  proof cases
    case 2
    have "hex4 CHR ''f'' CHR ''f'' CHR ''f'' CHR ''d'' = Some 0xFFFD"
      by (simp add: hex4_def hex_val_def in_range_def)
    then show ?thesis
      using 2 1(1) by (simp add: escape.simps [of s] to_valid.simps [of s] parse_str_hex surrogate_def encode_rune_fixed)
  next
    case 3
    with 1(2) show ?thesis
      by (simp add: escape.simps [of s] to_valid.simps [of s] parse_str_escape_rune)
  qed (simp add: escape.simps parse_str_end)
qed


section \<open>The round trip of numbers\<close>

text \<open>What may follow a value inside a document.\<close>

definition closes :: "string \<Rightarrow> bool" where
  "closes t \<longleftrightarrow> t = [] \<or> hd t \<in> {CHR '','', CHR '']'', CHR ''}''}"

lemma digits_of_zero: "hd (digits_of n) = CHR ''0'' \<Longrightarrow> n = 0"
proof (induction n rule: digits_of.induct)
  case (1 n)
  then show ?case
    by (subst (asm) (2) digits_of.simps)
      (auto split: if_splits simp: char_of_eq_iff take_bit_eq_mod)
qed

lemma digits_stop:
  assumes "closes t"
  shows "takeWhile is_digit (digits_of n @ t) = digits_of n" "drop (length (digits_of n)) (digits_of n @ t) = t"
proof -
  have "takeWhile is_digit t = []"
    using assms by (cases t) (auto simp: closes_def is_digit_def in_range_def)
  then show "takeWhile is_digit (digits_of n @ t) = digits_of n"
    using digits_of_digits [of n] by (simp add: takeWhile_append2 list_all_iff)
qed simp

lemma parse_num_digits:
  assumes "closes t"
  shows "parse_num (digits_of n @ t) = Some (digits_of n, t)"
    and "parse_num (CHR ''-'' # digits_of n @ t) = Some (CHR ''-'' # digits_of n, t)"
proof -
  obtain c s where d: "digits_of n = c # s" by (cases "digits_of n") auto
  then have c: "is_digit c" "c \<noteq> CHR ''-''"
    using digits_of_digits [of n] is_digit_sign [of c] by auto
  have zero: "digits_of n = ''0''" if "c = CHR ''0''"
    using digits_of_zero [of n] that d by (simp add: digits_of.simps char_of_eq_iff)
  have rest: "parse_frac t = Some ([], t)" "parse_exp t = Some ([], t)"
    using assms by (auto simp: closes_def parse_frac_def parse_exp_def split: list.split)
  have tail: "takeWhile is_digit (s @ t) = s"
    using digits_stop(1) [OF assms, of n] c(1) by (simp add: d)
  show "parse_num (digits_of n @ t) = Some (digits_of n, t)"
    and "parse_num (CHR ''-'' # digits_of n @ t) = Some (CHR ''-'' # digits_of n, t)"
    using c rest tail zero by (auto simp: parse_num_def d Let_def)
qed

lemma parse_num_show: "closes t \<Longrightarrow> parse_num (show_int i @ t) = Some (show_int i, t)"
  by (simp add: show_int_def parse_num_digits)


section \<open>The round trip of documents\<close>

text \<open>A document whose numbers are integers, and what is left of it after invalid UTF-8 has been
  replaced.\<close>

fun json_ok :: "json \<Rightarrow> bool" where
  "json_ok (JNum l) \<longleftrightarrow> (\<exists>i. l = show_int i)"
| "json_ok (JArr js) \<longleftrightarrow> (\<forall>j \<in> set js. json_ok j)"
| "json_ok (JObj kvs) \<longleftrightarrow> (\<forall>(k, v) \<in> set kvs. json_ok v)"
| "json_ok _ \<longleftrightarrow> True"

fun coerce_json :: "json \<Rightarrow> json" where
  "coerce_json (JStr s) = JStr (to_valid s)"
| "coerce_json (JArr js) = JArr (map coerce_json js)"
| "coerce_json (JObj kvs) = JObj (map (\<lambda>(k, v). (to_valid k, coerce_json v)) kvs)"
| "coerce_json j = j"

lemma skip_ws_id: "s = [] \<or> \<not> is_ws (hd s) \<Longrightarrow> skip_ws s = s"
  by (cases s) (auto simp: skip_ws_def)

lemma show_int_start: "\<exists>c s. show_int i = c # s \<and> (is_digit c \<or> c = CHR ''-'')"
  using digits_of_digits [of "nat i"] by (cases "digits_of (nat i)") (auto simp: show_int_def)

lemma print_start:
  assumes "json_ok j"
  shows "\<exists>c s. print_json j = c # s \<and> \<not> is_ws c \<and> c \<noteq> CHR '']'' \<and> c \<noteq> CHR ''}''"
proof (cases j)
  case (JNum l)
  with assms obtain i where "l = show_int i" by auto
  with JNum show_int_start [of i] show ?thesis
    by (auto simp: is_ws_def is_digit_def in_range_def)
qed (auto simp: is_ws_def print_string_def)

lemma closes_start:
  "closes (CHR '','' # t)" "closes (CHR '']'' # t)" "closes (CHR ''}'' # t)" "closes []"
  by (simp_all add: closes_def)

lemma skip_ws_close: "closes t \<Longrightarrow> skip_ws t = t"
  by (rule skip_ws_id) (auto simp: closes_def is_ws_def)

definition reads_back :: "json \<Rightarrow> bool" where
  "reads_back j \<longleftrightarrow> (\<forall>n t. length (print_json j) \<le> n \<longrightarrow> closes t \<longrightarrow>
     parse_value n (print_json j @ t) = Some (coerce_json j, t))"

lemma reads_back_num:
  assumes "json_ok (JNum l)"
  shows "reads_back (JNum l)"
proof -
  from assms obtain i where l: "l = show_int i" by auto
  obtain c s where c: "show_int i = c # s" "is_digit c \<or> c = CHR ''-''"
    using show_int_start by blast
  have "parse_value n (print_json (JNum l) @ t) = Some (coerce_json (JNum l), t)"
    if len: "length (print_json (JNum l)) \<le> n" and cl: "closes t" for n t
  proof -
    obtain m where n: "n = Suc m" using len c by (cases n) (auto simp: l)
    have "\<not> is_ws c" "c \<notin> {CHR ''{'', CHR ''['', CHR 0x22, CHR ''n'', CHR ''t'', CHR ''f''}"
      using c(2) by (auto simp: is_ws_def is_digit_def in_range_def)
    moreover have "parse_num (c # s @ t) = Some (c # s, t)"
      using parse_num_show [OF cl, of i] c(1) by simp
    ultimately show ?thesis
      by (simp add: n l c(1) skip_ws_id)
  qed
  then show ?thesis by (simp add: reads_back_def)
qed

lemma parse_elems_back:
  assumes "\<forall>j \<in> set js. json_ok j \<and> reads_back j" and "js \<noteq> []"
    and "length (join_comma (map print_json js)) < n"
  shows "parse_elems n (join_comma (map print_json js) @ CHR '']'' # t) = Some (map coerce_json js, t)"
  using assms
proof (induction js arbitrary: n rule: induct_list012)
  case (2 j)
  then obtain m where n: "n = Suc m" by (cases n) auto
  with 2 show ?case
    by (simp add: reads_back_def closes_start skip_ws_close)
next
  case (3 j k js)
  then obtain m where n: "n = Suc m" by (cases n) auto
  from 3 n have "parse_elems m (join_comma (map print_json (k # js)) @ CHR '']'' # t) =
      Some (map coerce_json (k # js), t)"
    by simp
  with 3(3,5) n show ?case
    by (simp add: reads_back_def closes_start skip_ws_close)
qed simp

definition print_member :: "string \<times> json \<Rightarrow> string" where
  "print_member = (\<lambda>(k, v). print_string k @ '':'' @ print_json v)"

definition coerce_member :: "string \<times> json \<Rightarrow> string \<times> json" where
  "coerce_member = (\<lambda>(k, v). (to_valid k, coerce_json v))"

lemma parse_member:
  assumes "json_ok v" "reads_back v" "length (print_member (k, v)) \<le> n" "closes (d # x)"
  shows "parse_members (Suc n) (print_member (k, v) @ d # x) =
    (if d = CHR '','' then map_option (map_prod ((#) (coerce_member (k, v))) id) (parse_members n x)
     else if d = CHR ''}'' then Some ([coerce_member (k, v)], x) else None)"
proof -
  have str: "parse_str (escape k @ CHR 0x22 # y) = Some (to_valid k, y)" for y
    by (rule parse_str_escape)
  have val: "parse_value n (print_json v @ d # x) = Some (coerce_json v, d # x)"
    using assms by (simp add: reads_back_def print_member_def)
  have ws: "\<not> is_ws (CHR 0x22)" "\<not> is_ws (CHR '':'')" by (simp_all add: is_ws_def)
  show ?thesis
    using str val skip_ws_close [OF assms(4)]
    by (simp add: print_member_def print_string_def skip_ws_id ws coerce_member_def)
qed

lemma parse_members_back:
  assumes "\<forall>(k, v) \<in> set kvs. json_ok v \<and> reads_back v" and "kvs \<noteq> []"
    and "length (join_comma (map print_member kvs)) < n"
  shows "parse_members n (join_comma (map print_member kvs) @ CHR ''}'' # t) =
    Some (map coerce_member kvs, t)"
  using assms
proof (induction kvs arbitrary: n rule: induct_list012)
  case (2 kv)
  then obtain m where n: "n = Suc m" by (cases n) auto
  with 2 show ?case by (cases kv) (simp add: parse_member closes_start del: parse_members.simps)
next
  case (3 kv kv' kvs)
  then obtain m where n: "n = Suc m" by (cases n) auto
  from 3 n have "parse_members m (join_comma (map print_member (kv' # kvs)) @ CHR ''}'' # t) =
      Some (map coerce_member (kv' # kvs), t)"
    by simp
  with 3(3,5) n show ?case
    by (cases kv) (simp add: parse_member closes_start del: parse_members.simps)
qed simp

lemma print_members: "(\<lambda>(k, v). print_string k @ CHR '':'' # print_json v) = print_member"
  by (simp add: print_member_def)

lemma take_word: "take (length w) (w @ t) = w" "drop (length w) (w @ t) = t"
  by simp_all

lemma arr_reads_back:
  assumes ok: "\<forall>j \<in> set js. json_ok j \<and> reads_back j"
  shows "reads_back (JArr js)"
proof -
  have "parse_value n (print_json (JArr js) @ t) = Some (coerce_json (JArr js), t)"
    if len: "length (print_json (JArr js)) \<le> n" for n t
  proof -
    obtain m where n: "n = Suc m" using len by (cases n) auto
    show ?thesis
    proof (cases "js = []")
      case True
      then show ?thesis by (simp add: n is_ws_def skip_ws_id)
    next
      case False
      then obtain j js' where js: "js = j # js'" by (cases js) auto
      obtain c s where c: "print_json j = c # s" "\<not> is_ws c" "c \<noteq> CHR '']''"
        using print_start ok js by fastforce
      let ?u = "join_comma (map print_json js) @ CHR '']'' # t"
      have "\<exists>s'. ?u = c # s'" by (cases js') (simp_all add: js c)
      then have "skip_ws ?u = ?u" "?u \<noteq> []" "hd ?u \<noteq> CHR '']''"
        using c by (auto simp: skip_ws_id)
      moreover have "parse_elems m ?u = Some (map coerce_json js, t)"
        using parse_elems_back [OF ok False] len n by simp
      ultimately show ?thesis
        by (auto simp: n is_ws_def skip_ws_id [of "CHR ''['' # _"] split: list.split)
    qed
  qed
  then show ?thesis by (simp add: reads_back_def)
qed

lemma obj_reads_back:
  assumes ok: "\<forall>(k, v) \<in> set kvs. json_ok v \<and> reads_back v"
  shows "reads_back (JObj kvs)"
proof -
  have "parse_value n (print_json (JObj kvs) @ t) = Some (coerce_json (JObj kvs), t)"
    if len: "length (print_json (JObj kvs)) \<le> n" for n t
  proof -
    obtain m where n: "n = Suc m" using len by (cases n) auto
    show ?thesis
    proof (cases "kvs = []")
      case True
      then show ?thesis by (simp add: n is_ws_def skip_ws_id)
    next
      case False
      then obtain kv kvs' where kvs: "kvs = kv # kvs'" by (cases kvs) auto
      let ?u = "join_comma (map print_member kvs) @ CHR ''}'' # t"
      have "\<exists>s'. ?u = CHR 0x22 # s'"
        by (cases kv; cases kvs') (simp_all add: kvs print_member_def print_string_def)
      then obtain s' where u: "?u = CHR 0x22 # s'" by blast
      have ws: "\<not> is_ws (CHR 0x22)" "\<not> is_ws (CHR ''{'')" by (simp_all add: is_ws_def)
      have "parse_members m ?u = Some (map coerce_member kvs, t)"
        using parse_members_back [OF ok False] len n by (simp add: print_members)
      then show ?thesis
        using u by (simp add: n ws skip_ws_id print_members coerce_member_def)
    qed
  qed
  then show ?thesis by (simp add: reads_back_def)
qed

lemma json_reads_back: "json_ok j \<Longrightarrow> reads_back j"
proof (induction j rule: print_json.induct)
  case 1
  then show ?case
    by (auto simp: reads_back_def is_ws_def skip_ws_id dest!: Suc_le_D)
next
  case (2 b)
  then show ?case
    by (auto simp: reads_back_def is_ws_def skip_ws_id dest!: Suc_le_D)
next
  case (3 l)
  then show ?case by (rule reads_back_num)
next
  case (4 s)
  then show ?case
    by (auto simp: reads_back_def print_string_def is_ws_def skip_ws_id parse_str_escape dest!: Suc_le_D)
next
  case (5 js)
  then show ?case by (intro arr_reads_back) simp
next
  case (6 kvs)
  then show ?case by (intro obj_reads_back) fastforce
qed

lemma parse_print: "json_ok j \<Longrightarrow> parse_json (print_json j) = Some (coerce_json j)"
  using json_reads_back [of j]
  by (auto simp: reads_back_def parse_json_def closes_start skip_ws_def
      dest!: spec [of _ "Suc (2 * length (print_json j))"] spec [of _ "[]"])


section \<open>The fuel is enough\<close>

text \<open>Every call consumes some text.\<close>

lemma skip_ws_length: "length (skip_ws s) \<le> length s"
  by (simp add: skip_ws_def length_dropWhile_le)

lemma parse_str_length: "parse_str s = Some (x, t) \<Longrightarrow> length t < length s"
proof (induction s arbitrary: x rule: length_induct)
  case (1 s)
  have step: "length t < length s" if "parse_str u = Some (y, t)" "length u < length s" for u y
    using 1(1) that by fastforce
  show ?case
  proof (cases s)
    case Nil
    then show ?thesis using 1(2) by (simp add: parse_str.simps)
  next
    case (Cons c u)
    have drop: "length (drop (rune_size s) s) < length s" if "0 < rune_size s"
      using that Cons by simp
    from 1(2) show ?thesis
      by (subst (asm) parse_str.simps)
        (auto simp: Cons dest!: step drop low_half_shorter split: if_splits list.splits option.splits)
  qed
qed

lemma dropWhile_shorter: "takeWhile P s \<noteq> [] \<Longrightarrow> length (dropWhile P s) < length s"
  by (cases s) (auto simp: le_imp_less_Suc length_dropWhile_le split: if_splits)

lemma parse_frac_length: "parse_frac s = Some (x, t) \<Longrightarrow> length t \<le> length s"
  by (auto simp: parse_frac_def Let_def length_dropWhile_le le_SucI split: list.splits if_splits)

lemma parse_exp_length: "parse_exp s = Some (x, t) \<Longrightarrow> length t \<le> length s"
  by (auto simp: parse_exp_def Let_def length_dropWhile_le le_SucI
      split: list.splits if_splits intro: le_trans [OF length_dropWhile_le])

lemma parse_num_length: "parse_num s = Some (x, t) \<Longrightarrow> length t < length s"
proof -
  assume p: "parse_num s = Some (x, t)"
  define sign where "sign = (if s \<noteq> [] \<and> hd s = CHR ''-'' then ''-'' else [])"
  define r where "r = drop (length sign) s"
  define ip where "ip = (if hd r = CHR ''0'' then ''0'' else takeWhile is_digit r)"
  from p obtain f u e where r: "r \<noteq> []" "is_digit (hd r)"
    and "parse_frac (drop (length ip) r) = Some (f, u)" "parse_exp u = Some (e, t)"
    unfolding parse_num_def Let_def sign_def [symmetric] r_def [symmetric] ip_def [symmetric]
    by (auto simp: bind_eq_Some_conv split: if_splits)
  then have "length t \<le> length (drop (length ip) r)"
    using parse_frac_length parse_exp_length by (meson le_trans)
  moreover have "0 < length ip" using r by (cases r) (auto simp: ip_def)
  moreover have "length sign < length s" using r(1) by (simp add: r_def)
  ultimately show ?thesis by (simp add: r_def del: length_greater_0_conv)
qed

lemma parse_length:
  "(parse_value n s = Some (j, t) \<longrightarrow> length t < length s) \<and>
   (parse_elems n s = Some (js, t) \<longrightarrow> length t < length s) \<and>
   (parse_members n s = Some (kvs, t) \<longrightarrow> length t < length s)"
proof (induction n arbitrary: s j js kvs t)
  case (Suc n)
  have ws: "length v < length u" if "skip_ws u = c # v" for c u v
    using skip_ws_length [of u] that by simp
  have V: "parse_value n u = Some (i, v) \<Longrightarrow> length v < length u"
    and E: "parse_elems n u = Some (is, v) \<Longrightarrow> length v < length u"
    and M: "parse_members n u = Some (ms, v) \<Longrightarrow> length v < length u" for u v i "is" ms
    using Suc by blast+
  note shorter = ws V E M parse_str_length parse_num_length
  have "parse_value (Suc n) s = Some (j, t) \<Longrightarrow> length t < length s"
    by (auto split: list.splits if_splits dest!: shorter)
  moreover have "parse_elems (Suc n) s = Some (js, t) \<Longrightarrow> length t < length s"
    by (auto split: list.splits if_splits option.splits dest!: shorter)
  moreover have "parse_members (Suc n) s = Some (kvs, t) \<Longrightarrow> length t < length s"
    by (auto split: list.splits if_splits option.splits dest!: shorter)
  ultimately show ?case by blast
qed simp

text \<open>Fuel beyond twice the length of the text changes nothing.\<close>

lemma parse_fuel:
  "(2 * length s < n \<longrightarrow> 2 * length s < m \<longrightarrow> parse_value n s = parse_value m s) \<and>
   (2 * length s + 1 < n \<longrightarrow> 2 * length s + 1 < m \<longrightarrow>
      parse_elems n s = parse_elems m s \<and> parse_members n s = parse_members m s)"
proof (induction n arbitrary: s m)
  case (Suc n)
  show ?case
  proof (cases m)
    case (Suc k)
    have ws: "length v < length u" if "skip_ws u = c # v" for c u v
      using skip_ws_length [of u] that by simp
    have V: "parse_value n u = parse_value k u" if "2 * length u < n" "2 * length u < k" for u
      using Suc.IH [of u k] that by simp
    have E: "parse_elems n u = parse_elems k u" and M: "parse_members n u = parse_members k u"
      if "2 * length u + 1 < n" "2 * length u + 1 < k" for u
      using Suc.IH [of u k] that by simp_all
    note shorter = ws parse_length [THEN conjunct1, rule_format] parse_str_length
    have "parse_value (Suc n) s = parse_value m s" if "2 * length s < Suc n" "2 * length s < m"
      using that by (auto simp: Suc V E M split: list.split dest!: shorter)
    moreover have "parse_elems (Suc n) s = parse_elems m s"
      if "2 * length s + 1 < Suc n" "2 * length s + 1 < m"
      using that by (auto simp: Suc V E M split: list.split option.split dest!: shorter)
    moreover have "parse_members (Suc n) s = parse_members m s"
      if len: "2 * length s + 1 < Suc n" "2 * length s + 1 < m"
    proof (cases "\<exists>t key u v. skip_ws s = CHR 0x22 # t \<and> parse_str t = Some (key, u) \<and>
        skip_ws u = CHR '':'' # v")
      case False
      then show ?thesis by (auto simp: Suc split: list.split option.split)
    next
      case True
      then obtain t key u v where head: "skip_ws s = CHR 0x22 # t" "parse_str t = Some (key, u)"
        "skip_ws u = CHR '':'' # v" by blast
      then have v: "length v < length s"
        by (auto dest!: ws parse_str_length)
      then have val: "parse_value n v = parse_value k v" using len by (intro V) (auto simp: Suc)
      have mem: "parse_members n x = parse_members k x"
        if "parse_value k v = Some (j, w)" "skip_ws w = d # x" for j w d x
        using that v len by (intro M) (auto simp: Suc dest!: shorter)
      show ?thesis
        using head val by (auto simp: Suc mem split: list.split option.split)
    qed
    ultimately show ?thesis by blast
  qed simp
qed simp



section \<open>Reading a document into Go values\<close>

text \<open>
  \<open>Unmarshal\<close> into a struct sets the fields that the object names, in order, and leaves the others
  at their zero value; a name matches exactly or else up to case (\<open>foldName\<close>, where the signs for
  Kelvin and the long s fold to \<open>k\<close> and \<open>s\<close>), an unknown name is skipped, \<open>null\<close> leaves a value as
  it is, and a value of another kind is an error. A decoder takes the old value of its target.
\<close>

type_synonym 'a decoder = "json \<Rightarrow> 'a \<Rightarrow> error + 'a"

definition type_error :: error where
  "type_error = ForeignError ''json: cannot unmarshal value''"

definition syntax_error :: error where
  "syntax_error = ForeignError ''json: invalid syntax''"

definition decode_string :: "string decoder" where
  "decode_string j s = (case j of JStr t \<Rightarrow> Inr t | JNull \<Rightarrow> Inr s | _ \<Rightarrow> Inl type_error)"

definition decode_bool :: "bool decoder" where
  "decode_bool j b = (case j of JBool c \<Rightarrow> Inr c | JNull \<Rightarrow> Inr b | _ \<Rightarrow> Inl type_error)"

definition decode_int :: "int decoder" where
  "decode_int j i =
     (case j of
        JNum l \<Rightarrow> (case ParseInt l of Some k \<Rightarrow> Inr k | None \<Rightarrow> Inl type_error)
      | JNull \<Rightarrow> Inr i | _ \<Rightarrow> Inl type_error)"

text \<open>A \<open>uint8\<close> target: an integer literal that overflows it is an error.\<close>

definition decode_uint8 :: "8 word decoder" where
  "decode_uint8 j w =
     (case j of
        JNum l \<Rightarrow> (case ParseInt l of
            Some k \<Rightarrow> if 0 \<le> k \<and> k < 256 \<and> hd l \<noteq> CHR ''-'' then Inr (word_of_int k) else Inl type_error
          | None \<Rightarrow> Inl type_error)
      | JNull \<Rightarrow> Inr w | _ \<Rightarrow> Inl type_error)"

text \<open>A \<open>[]byte\<close> target holds base64 text.\<close>

definition decode_bytes :: "string decoder" where
  "decode_bytes j s =
     (case j of
        JStr t \<Rightarrow> (case b64_decode t of Some b \<Rightarrow> Inr b | None \<Rightarrow> Inl (ForeignError ''illegal base64 data''))
      | JNull \<Rightarrow> Inr [] | _ \<Rightarrow> Inl type_error)"

text \<open>A slice is filled with decoded elements, each from its zero value.\<close>

fun mapE :: "('a \<Rightarrow> 'e + 'b) \<Rightarrow> 'a list \<Rightarrow> 'e + 'b list" where
  "mapE f [] = Inr []"
| "mapE f (x # xs) = bindE (f x) (\<lambda>y. bindE (mapE f xs) (\<lambda>ys. Inr (y # ys)))"

definition decode_slice :: "'a \<Rightarrow> 'a decoder \<Rightarrow> 'a list decoder" where
  "decode_slice zero dec j xs =
     (case j of JArr js \<Rightarrow> mapE (\<lambda>j. dec j zero) js | JNull \<Rightarrow> Inr [] | _ \<Rightarrow> Inl type_error)"

text \<open>A pointer is set to nil by \<open>null\<close> and otherwise points to a new or the old value.\<close>

definition decode_pointer :: "'a \<Rightarrow> 'a decoder \<Rightarrow> 'a option decoder" where
  "decode_pointer zero dec j p =
     (if j = JNull then Inr None
      else bindE (dec j (case p of None \<Rightarrow> zero | Some x \<Rightarrow> x)) (\<lambda>x. Inr (Some x)))"

fun fold_name :: "string \<Rightarrow> string" where
  "fold_name [] = []"
| "fold_name (c # s) =
     (if take 3 (c # s) = [CHR 0xE2, CHR 0x84, CHR 0xAA] then CHR ''k'' # fold_name (drop 2 s)
      else if take 2 (c # s) = [CHR 0xC5, CHR 0xBF] then CHR ''s'' # fold_name (drop 1 s)
      else lower_byte c # fold_name s)"

definition find_field :: "(string \<times> 'a decoder) list \<Rightarrow> string \<Rightarrow> 'a decoder option" where
  "find_field fs k =
     (case map_of fs k of
        Some d \<Rightarrow> Some d
      | None \<Rightarrow> map_option snd (find (\<lambda>(n, d). fold_name n = fold_name k) fs))"

definition decode_member :: "(string \<times> 'a decoder) list \<Rightarrow> string \<times> json \<Rightarrow> 'a \<Rightarrow> error + 'a" where
  "decode_member fs kv x = (case find_field fs (fst kv) of None \<Rightarrow> Inr x | Some d \<Rightarrow> d (snd kv) x)"

fun foldE :: "('a \<Rightarrow> 'b \<Rightarrow> 'e + 'b) \<Rightarrow> 'a list \<Rightarrow> 'b \<Rightarrow> 'e + 'b" where
  "foldE f [] b = Inr b"
| "foldE f (x # xs) b = bindE (f x b) (foldE f xs)"

definition decode_struct :: "(string \<times> 'a decoder) list \<Rightarrow> 'a decoder" where
  "decode_struct fs j x =
     (case j of
        JObj kvs \<Rightarrow> foldE (decode_member fs) kvs x
      | JNull \<Rightarrow> Inr x | _ \<Rightarrow> Inl type_error)"

text \<open>A decoder for one field of a record.\<close>

definition at_field :: "('r \<Rightarrow> 'a) \<Rightarrow> ('a \<Rightarrow> 'r \<Rightarrow> 'r) \<Rightarrow> 'a decoder \<Rightarrow> 'r decoder" where
  "at_field get upd dec j r = bindE (dec j (get r)) (\<lambda>a. Inr (upd a r))"

definition Unmarshal :: "'a decoder \<Rightarrow> 'a \<Rightarrow> string \<Rightarrow> error + 'a" where
  "Unmarshal dec zero buf =
     (case parse_json buf of None \<Rightarrow> Inl syntax_error | Some j \<Rightarrow> dec j zero)"

text \<open>The fields of an object that are not left out by \<open>omitempty\<close>.\<close>

definition omit_if :: "bool \<Rightarrow> string \<Rightarrow> json \<Rightarrow> (string \<times> json) list" where
  "omit_if z k j = (if z then [] else [(k, j)])"

lemma foldE_append: "foldE f (xs @ ys) b = bindE (foldE f xs b) (foldE f ys)"
proof (induction xs arbitrary: b)
  case (Cons x xs)
  then show ?case by (cases "f x b") simp_all
qed simp

lemma foldE_omit: "foldE f (omit_if e k j) b = (if e then Inr b else f (k, j) b)"
  by (simp add: omit_if_def bindE_def split: sum.split)

lemma Unmarshal_print: "json_ok j \<Longrightarrow> Unmarshal dec zero (print_json j) = dec (coerce_json j) zero"
  by (simp add: Unmarshal_def parse_print)

lemma mapE_Inr: "(\<And>x. x \<in> set xs \<Longrightarrow> f x = Inr (g x)) \<Longrightarrow> mapE f xs = Inr (map g xs)"
  by (induction xs) auto

lemma mapE_eq_Inr: "mapE f xs = Inr ys \<longleftrightarrow> list_all2 (\<lambda>x y. f x = Inr y) xs ys"
  by (induction xs arbitrary: ys) (auto simp: bindE_eq_Inr list_all2_Cons1)

lemma decode_int_show: "int64 i \<Longrightarrow> decode_int (JNum (show_int i)) k = Inr i"
  by (simp add: decode_int_def ParseInt_show)

section \<open>Parsed texts are valid UTF-8\<close>

text \<open>An encoded rune is one valid rune, whatever the code point.\<close>

lemma encode_rune_size: "rune_size (encode_rune r @ t) = length (encode_rune r)"
proof -
  consider "r < 0x80" | "0x80 \<le> r" "r < 0x800" | "0x800 \<le> r" "surrogate r \<or> 0x10FFFF < r"
    | "0x800 \<le> r" "\<not> surrogate r" "r < 0x10000" | "0x10000 \<le> r" "r \<le> 0x10FFFF"
    by linarith
  then show ?thesis
  proof cases
    case 1
    then show ?thesis by (simp add: encode_rune_def rune_size.simps)
  next
    case 2
    then have "2 \<le> r div 64" "r div 64 < 32" by (simp_all add: less_eq_div_iff_mult_less_eq div_less_iff_less_mult)
    moreover have "r mod 64 < 64" by simp
    ultimately show ?thesis
      using 2 by (simp add: encode_rune_def rune_size.simps second_ok_def in_range_def)
  next
    case 3
    then show ?thesis by (simp add: encode_rune_def replacement_rune) (simp add: replacement_def)
  next
    case 4
    have d: "r div 4096 = r div 64 div 64" by (simp flip: div_mult2_eq)
    have lo: "32 \<le> r div 64" and hi: "r div 64 < 1024" using 4
      by (simp_all add: less_eq_div_iff_mult_less_eq div_less_iff_less_mult)
    have sur: "r div 64 < 864 \<or> 896 \<le> r div 64"
      using 4(2) by (auto simp: surrogate_def less_eq_div_iff_mult_less_eq div_less_iff_less_mult)
    define x where "x = r div 64"
    have q: "x div 64 < 16" using hi by (simp add: x_def div_less_iff_less_mult)
    have m: "x mod 64 < 64" "r mod 64 < 64" by simp_all
    have e0: "x div 64 = 0 \<Longrightarrow> 32 \<le> x mod 64" using lo by (simp add: x_def)
    have ed: "x div 64 = 13 \<Longrightarrow> x mod 64 < 32"
      using sur div_mult_mod_eq [of x 64] m(1) unfolding x_def [symmetric] by linarith
    show ?thesis
      using 4 q m e0 ed
      by (simp add: encode_rune_def rune_size.simps second_ok_def in_range_def d flip: x_def) auto
  next
    case 5
    have d: "r div 4096 = r div 64 div 64" "r div 262144 = r div 64 div 64 div 64"
      by (simp_all flip: div_mult2_eq)
    define y where "y = r div 64 div 64"
    have "16 \<le> y" "y < 272" using 5
      by (simp_all add: y_def less_eq_div_iff_mult_less_eq div_less_iff_less_mult flip: div_mult2_eq)
    then have q: "y div 64 < 5" by (simp add: div_less_iff_less_mult)
    have m: "y mod 64 < 64" "r div 64 mod 64 < 64" "r mod 64 < 64" by simp_all
    have f0: "y div 64 = 0 \<Longrightarrow> 16 \<le> y mod 64" using \<open>16 \<le> y\<close> by simp
    have f4: "y div 64 = 4 \<Longrightarrow> y mod 64 < 16"
      using \<open>y < 272\<close> div_mult_mod_eq [of y 64] by linarith
    have ns: "\<not> surrogate r" "\<not> r < 0x10000" using 5 by (simp_all add: surrogate_def)
    show ?thesis
      using 5 ns q m f0 f4
      by (simp add: encode_rune_def rune_size.simps second_ok_def in_range_def d flip: y_def) auto
  qed
qed

lemma encode_rune_utf8: "utf8 (encode_rune r @ t) \<longleftrightarrow> utf8 t"
proof -
  have "0 < length (encode_rune r)" by (simp add: encode_rune_def replacement_def)
  with utf8_rune [OF encode_rune_size [of r t], of t] show ?thesis by simp
qed

lemma replacement_utf8: "utf8 (replacement @ t) \<longleftrightarrow> utf8 t"
  using utf8_rune [OF replacement_rune [of t], of t] by (simp add: replacement_def)

lemma ascii_utf8: "byte c < 0x80 \<Longrightarrow> utf8 (c # t) \<longleftrightarrow> utf8 t"
  using utf8_rune [OF rune_size_ascii [of c t], of t] by simp

lemma parse_str_utf8: "parse_str s = Some (x, t) \<Longrightarrow> utf8 x"
proof (induction s arbitrary: x rule: length_induct)
  case (1 s)
  have step: "utf8 y" if "parse_str u = Some (y, t)" "length u < length s" for u y
    using 1(1) that by fastforce
  have simple: "byte d < 0x80" if "simple_escape e = Some d" for e d
    using that by (auto simp: simple_escape_def split: if_splits)
  show ?case
  proof (cases s)
    case Nil
    then show ?thesis using 1(2) by (simp add: parse_str.simps)
  next
    case (Cons c u)
    have rune: "utf8 (take (rune_size s) s @ y)" if "0 < rune_size s" "utf8 y" for y
      using that by (simp add: utf8_rune [OF refl])
    from 1(2) show ?thesis
      by (subst (asm) parse_str.simps)
        (auto simp: Cons encode_rune_utf8 replacement_utf8 ascii_utf8 simple
          intro: rune [unfolded Cons] dest!: step low_half_shorter
          split: if_splits list.splits option.splits)
  qed
qed

fun json_utf8 :: "json \<Rightarrow> bool" where
  "json_utf8 (JStr s) \<longleftrightarrow> utf8 s"
| "json_utf8 (JArr js) \<longleftrightarrow> list_all json_utf8 js"
| "json_utf8 (JObj kvs) \<longleftrightarrow> list_all (\<lambda>(k, v). json_utf8 v) kvs"
| "json_utf8 _ \<longleftrightarrow> True"

lemma parse_utf8:
  "(parse_value n s = Some (j, t) \<longrightarrow> json_utf8 j) \<and>
   (parse_elems n s = Some (js, t) \<longrightarrow> list_all json_utf8 js) \<and>
   (parse_members n s = Some (kvs, t) \<longrightarrow> list_all (\<lambda>(k, v). json_utf8 v) kvs)"
proof (induction n arbitrary: s j js kvs t)
  case (Suc n)
  have V: "parse_value n u = Some (i, v) \<Longrightarrow> json_utf8 i"
    and E: "parse_elems n u = Some (is, v) \<Longrightarrow> list_all json_utf8 is"
    and M: "parse_members n u = Some (ms, v) \<Longrightarrow> list_all (\<lambda>(k, v). json_utf8 v) ms" for u v i "is" ms
    using Suc by blast+
  have "parse_value (Suc n) s = Some (j, t) \<Longrightarrow> json_utf8 j"
    by (auto split: list.splits if_splits dest: E M parse_str_utf8)
  moreover have "parse_elems (Suc n) s = Some (js, t) \<Longrightarrow> list_all json_utf8 js"
    by (auto split: list.splits if_splits option.splits dest!: V E)
  moreover have "parse_members (Suc n) s = Some (kvs, t) \<Longrightarrow> list_all (\<lambda>(k, v). json_utf8 v) kvs"
    by (auto split: list.splits if_splits option.splits dest!: V M)
  ultimately show ?case by blast
qed simp

lemma parse_json_utf8: "parse_json s = Some j \<Longrightarrow> json_utf8 j"
  using parse_utf8 [THEN conjunct1, rule_format]
  by (auto simp: parse_json_def simp del: parse_value.simps split: option.splits if_splits)

text \<open>A predicate on a decoded value that every field decoder keeps holds of the struct.\<close>

definition keeps :: "('a \<Rightarrow> bool) \<Rightarrow> 'a decoder \<Rightarrow> bool" where
  "keeps P d \<longleftrightarrow> (\<forall>j x y. json_utf8 j \<longrightarrow> P x \<longrightarrow> d j x = Inr y \<longrightarrow> P y)"

lemma keepsD: "keeps P d \<Longrightarrow> json_utf8 j \<Longrightarrow> P x \<Longrightarrow> d j x = Inr y \<Longrightarrow> P y"
  by (simp add: keeps_def)

lemma keeps_struct:
  assumes "\<forall>(n, d) \<in> set fs. keeps P d"
  shows "keeps P (decode_struct fs)"
proof -
  have find: "keeps P d" if "find_field fs k = Some d" for k d
    using that assms
    by (auto simp: find_field_def find_Some_iff in_set_conv_nth split: option.splits
        dest!: map_of_SomeD nth_mem [where xs = fs])
  have member: "P y" if "json_utf8 (snd kv)" "P x" "decode_member fs kv x = Inr y" for kv x y
    using that keepsD [OF find] by (auto simp: decode_member_def split: option.splits)
  have "P y" if "list_all (\<lambda>(k, v). json_utf8 v) kvs" "P x" "foldE (decode_member fs) kvs x = Inr y" for kvs x y
    using that
  proof (induction kvs arbitrary: x)
    case (Cons kv kvs)
    from Cons(4) obtain z where "decode_member fs kv x = Inr z" "foldE (decode_member fs) kvs z = Inr y"
      by (auto simp: bindE_eq_Inr)
    with Cons member [of kv x z] show ?case by (simp add: case_prod_unfold)
  qed simp
  then show ?thesis
    by (auto simp: keeps_def decode_struct_def split: json.splits)
qed

lemma keeps_field:
  assumes "keeps Q d" and "\<And>r. P r \<Longrightarrow> Q (get r)" and "\<And>r x. P r \<Longrightarrow> Q x \<Longrightarrow> P (upd x r)"
  shows "keeps P (at_field get upd d)"
  unfolding keeps_def at_field_def bindE_eq_Inr
proof clarify
  fix j r x
  assume j: "json_utf8 j" and r: "P r" and d: "d j (get r) = Inr x"
  show "P (upd x r)"
    by (rule assms(3) [OF r keepsD [OF assms(1) j assms(2) [OF r] d]])
qed

lemma keeps_any [simp]: "keeps (\<lambda>x. True) d"
  by (simp add: keeps_def)

lemma keeps_string: "keeps utf8 decode_string"
  by (auto simp: keeps_def decode_string_def split: json.splits)

lemma keeps_int: "keeps int64 decode_int"
  by (auto simp: keeps_def decode_int_def ParseInt_def Let_def split: json.splits option.splits if_splits)

lemma keeps_slice:
  assumes "keeps P d" and "P z"
  shows "keeps (list_all P) (decode_slice z d)"
proof -
  have "list_all P ys" if "list_all json_utf8 js" "mapE (\<lambda>j. d j z) js = Inr ys" for js ys
    using that keepsD [OF assms(1) _ assms(2)]
    by (induction js arbitrary: ys) (auto simp: bindE_eq_Inr)
  then show ?thesis by (auto simp: keeps_def decode_slice_def split: json.splits)
qed

lemma keeps_pointer:
  assumes "keeps P d" and "P z"
  shows "keeps (pred_option P) (decode_pointer z d)"
  using keepsD [OF assms(1)] assms(2)
  by (auto simp: keeps_def decode_pointer_def bindE_eq_Inr split: if_splits option.splits)

lemma Unmarshal_keeps: "keeps P d \<Longrightarrow> P z \<Longrightarrow> Unmarshal d z buf = Inr x \<Longrightarrow> P x"
  by (auto simp: Unmarshal_def split: option.splits dest!: parse_json_utf8 elim: keepsD)

end
