(* ===== verification/BadgerWire.thy ===== *)
theory BadgerWire
  imports Json
begin

text \<open>
  The wire format of the persistent adapter (src/store/badger/codec.go): for each entity a wire
  struct, its JSON document, the encoder from the model and the decoder back, which goes through
  the constructors of the model. An encoder is total, as \<open>json.Marshal\<close> fails on no wire struct.
\<close>

definition Marshal :: "json \<Rightarrow> error + string" where
  "Marshal j = Inr (print_json j)"


section \<open>Wire structs\<close>

record nameWire =
  nw_Text :: string
  nw_Language :: string
  nw_Script :: string
  nw_Type :: string
  nw_Preferred :: bool

record timeRangeWire =
  tw_EarliestKnown :: bool
  tw_Earliest :: int
  tw_LatestKnown :: bool
  tw_Latest :: int
  tw_Calendar :: string
  tw_Circa :: bool

record personWire =
  pw_ID :: string
  pw_Names :: "nameWire list"
  pw_Gender :: string
  pw_Birth :: "timeRangeWire option"
  pw_Death :: "timeRangeWire option"
  pw_Notes :: string
  pw_Unknown :: bool

text \<open>\<open>GapSpecified\<close> is never stored and never read.\<close>

record continuityWire =
  cw_State :: int
  cw_GapKnown :: bool
  cw_GapSize :: int

record relationshipWire =
  rw_ID :: string
  rw_From :: string
  rw_To :: string
  rw_Type :: int
  rw_Certainty :: int
  rw_Continuity :: continuityWire
  rw_TimeRange :: "timeRangeWire option"
  rw_Notes :: string
  rw_Sources :: "string list"

record sourceWire =
  sw_ID :: string
  sw_Type :: string
  sw_Citation :: string
  sw_Author :: string
  sw_Title :: string
  sw_Date :: string
  sw_Locator :: string
  sw_Notes :: string

record proposalTransWire =
  hw_From :: int
  hw_To :: int
  hw_Actor :: string
  hw_Timestamp :: int
  hw_Reason :: string

record proposalWire =
  qw_ID :: string
  qw_State :: int
  qw_Action :: int
  qw_EntityKind :: int
  qw_TargetID :: string
  qw_SecondaryID :: string
  qw_Payload :: string
  qw_Reason :: string
  qw_Sources :: "string list"
  qw_Author :: string
  qw_CreatedAt :: int
  qw_History :: "proposalTransWire list"

definition zero_nameWire :: nameWire where
  "zero_nameWire = \<lparr>nw_Text = '''', nw_Language = '''', nw_Script = '''', nw_Type = '''',
     nw_Preferred = False\<rparr>"

definition zero_timeRangeWire :: timeRangeWire where
  "zero_timeRangeWire = \<lparr>tw_EarliestKnown = False, tw_Earliest = 0, tw_LatestKnown = False,
     tw_Latest = 0, tw_Calendar = '''', tw_Circa = False\<rparr>"

definition zero_personWire :: personWire where
  "zero_personWire = \<lparr>pw_ID = '''', pw_Names = [], pw_Gender = '''', pw_Birth = None,
     pw_Death = None, pw_Notes = '''', pw_Unknown = False\<rparr>"

definition zero_continuityWire :: continuityWire where
  "zero_continuityWire = \<lparr>cw_State = 0, cw_GapKnown = False, cw_GapSize = 0\<rparr>"

definition zero_relationshipWire :: relationshipWire where
  "zero_relationshipWire = \<lparr>rw_ID = '''', rw_From = '''', rw_To = '''', rw_Type = 0,
     rw_Certainty = 0, rw_Continuity = zero_continuityWire, rw_TimeRange = None, rw_Notes = '''',
     rw_Sources = []\<rparr>"

definition zero_sourceWire :: sourceWire where
  "zero_sourceWire = \<lparr>sw_ID = '''', sw_Type = '''', sw_Citation = '''', sw_Author = '''',
     sw_Title = '''', sw_Date = '''', sw_Locator = '''', sw_Notes = ''''\<rparr>"

definition zero_proposalTransWire :: proposalTransWire where
  "zero_proposalTransWire = \<lparr>hw_From = 0, hw_To = 0, hw_Actor = '''', hw_Timestamp = 0,
     hw_Reason = ''''\<rparr>"

definition zero_proposalWire :: proposalWire where
  "zero_proposalWire = \<lparr>qw_ID = '''', qw_State = 0, qw_Action = 0, qw_EntityKind = 0,
     qw_TargetID = '''', qw_SecondaryID = '''', qw_Payload = [], qw_Reason = '''', qw_Sources = [],
     qw_Author = '''', qw_CreatedAt = 0, qw_History = []\<rparr>"


section \<open>Their documents\<close>

definition JInt :: "int \<Rightarrow> json" where
  "JInt i = JNum (show_int i)"

text \<open>The struct tags: names, order and \<open>omitempty\<close>.\<close>

definition nameWire_json :: "nameWire \<Rightarrow> json" where
  "nameWire_json w = JObj (
     [(''text'', JStr (nw_Text w))]
     @ omit_if (nw_Language w = []) ''lang'' (JStr (nw_Language w))
     @ omit_if (nw_Script w = []) ''script'' (JStr (nw_Script w))
     @ omit_if (nw_Type w = []) ''type'' (JStr (nw_Type w))
     @ omit_if (\<not> nw_Preferred w) ''preferred'' (JBool (nw_Preferred w)))"

definition timeRangeWire_json :: "timeRangeWire \<Rightarrow> json" where
  "timeRangeWire_json w = JObj (
     omit_if (\<not> tw_EarliestKnown w) ''e_known'' (JBool (tw_EarliestKnown w))
     @ omit_if (tw_Earliest w = 0) ''e'' (JInt (tw_Earliest w))
     @ omit_if (\<not> tw_LatestKnown w) ''l_known'' (JBool (tw_LatestKnown w))
     @ omit_if (tw_Latest w = 0) ''l'' (JInt (tw_Latest w))
     @ omit_if (tw_Calendar w = []) ''cal'' (JStr (tw_Calendar w))
     @ omit_if (\<not> tw_Circa w) ''circa'' (JBool (tw_Circa w)))"

definition pointer_json :: "('a \<Rightarrow> json) \<Rightarrow> 'a option \<Rightarrow> json" where
  "pointer_json f p = (case p of None \<Rightarrow> JNull | Some x \<Rightarrow> f x)"

definition personWire_json :: "personWire \<Rightarrow> json" where
  "personWire_json w = JObj (
     [(''id'', JStr (pw_ID w))]
     @ omit_if (pw_Names w = []) ''names'' (JArr (map nameWire_json (pw_Names w)))
     @ omit_if (pw_Gender w = []) ''gender'' (JStr (pw_Gender w))
     @ omit_if (pw_Birth w = None) ''birth'' (pointer_json timeRangeWire_json (pw_Birth w))
     @ omit_if (pw_Death w = None) ''death'' (pointer_json timeRangeWire_json (pw_Death w))
     @ omit_if (pw_Notes w = []) ''notes'' (JStr (pw_Notes w))
     @ omit_if (\<not> pw_Unknown w) ''unknown'' (JBool (pw_Unknown w)))"

definition continuityWire_json :: "continuityWire \<Rightarrow> json" where
  "continuityWire_json w = JObj (
     [(''state'', JInt (cw_State w))]
     @ omit_if (\<not> cw_GapKnown w) ''gk'' (JBool (cw_GapKnown w))
     @ omit_if (cw_GapSize w = 0) ''gs'' (JInt (cw_GapSize w)))"

definition relationshipWire_json :: "relationshipWire \<Rightarrow> json" where
  "relationshipWire_json w = JObj (
     [(''id'', JStr (rw_ID w)), (''from'', JStr (rw_From w)), (''to'', JStr (rw_To w)),
      (''type'', JInt (rw_Type w)), (''cert'', JInt (rw_Certainty w)),
      (''cont'', continuityWire_json (rw_Continuity w))]
     @ omit_if (rw_TimeRange w = None) ''time'' (pointer_json timeRangeWire_json (rw_TimeRange w))
     @ omit_if (rw_Notes w = []) ''notes'' (JStr (rw_Notes w))
     @ omit_if (rw_Sources w = []) ''sources'' (JArr (map JStr (rw_Sources w))))"

definition sourceWire_json :: "sourceWire \<Rightarrow> json" where
  "sourceWire_json w = JObj (
     [(''id'', JStr (sw_ID w))]
     @ omit_if (sw_Type w = []) ''type'' (JStr (sw_Type w))
     @ [(''citation'', JStr (sw_Citation w))]
     @ omit_if (sw_Author w = []) ''author'' (JStr (sw_Author w))
     @ omit_if (sw_Title w = []) ''title'' (JStr (sw_Title w))
     @ omit_if (sw_Date w = []) ''date'' (JStr (sw_Date w))
     @ omit_if (sw_Locator w = []) ''locator'' (JStr (sw_Locator w))
     @ omit_if (sw_Notes w = []) ''notes'' (JStr (sw_Notes w)))"

definition proposalTransWire_json :: "proposalTransWire \<Rightarrow> json" where
  "proposalTransWire_json w = JObj (
     [(''from'', JInt (hw_From w)), (''to'', JInt (hw_To w))]
     @ omit_if (hw_Actor w = []) ''actor'' (JStr (hw_Actor w))
     @ omit_if (hw_Timestamp w = 0) ''ts'' (JInt (hw_Timestamp w))
     @ omit_if (hw_Reason w = []) ''reason'' (JStr (hw_Reason w)))"

definition proposalWire_json :: "proposalWire \<Rightarrow> json" where
  "proposalWire_json w = JObj (
     [(''id'', JStr (qw_ID w)), (''state'', JInt (qw_State w)), (''action'', JInt (qw_Action w)),
      (''kind'', JInt (qw_EntityKind w))]
     @ omit_if (qw_TargetID w = []) ''target'' (JStr (qw_TargetID w))
     @ omit_if (qw_SecondaryID w = []) ''secondary'' (JStr (qw_SecondaryID w))
     @ omit_if (qw_Payload w = []) ''payload'' (JStr (b64_encode (qw_Payload w)))
     @ omit_if (qw_Reason w = []) ''reason'' (JStr (qw_Reason w))
     @ omit_if (qw_Sources w = []) ''sources'' (JArr (map JStr (qw_Sources w)))
     @ omit_if (qw_Author w = []) ''author'' (JStr (qw_Author w))
     @ omit_if (qw_CreatedAt w = 0) ''created'' (JInt (qw_CreatedAt w))
     @ omit_if (qw_History w = []) ''history'' (JArr (map proposalTransWire_json (qw_History w))))"

text \<open>Reading a document back, field by field.\<close>

definition nameWire_fields :: "(string \<times> nameWire decoder) list" where
  "nameWire_fields =
     [(''text'', at_field nw_Text (\<lambda>x. nw_Text_update (\<lambda>_. x)) decode_string),
      (''lang'', at_field nw_Language (\<lambda>x. nw_Language_update (\<lambda>_. x)) decode_string),
      (''script'', at_field nw_Script (\<lambda>x. nw_Script_update (\<lambda>_. x)) decode_string),
      (''type'', at_field nw_Type (\<lambda>x. nw_Type_update (\<lambda>_. x)) decode_string),
      (''preferred'', at_field nw_Preferred (\<lambda>x. nw_Preferred_update (\<lambda>_. x)) decode_bool)]"

definition timeRangeWire_fields :: "(string \<times> timeRangeWire decoder) list" where
  "timeRangeWire_fields =
     [(''e_known'', at_field tw_EarliestKnown (\<lambda>x. tw_EarliestKnown_update (\<lambda>_. x)) decode_bool),
      (''e'', at_field tw_Earliest (\<lambda>x. tw_Earliest_update (\<lambda>_. x)) decode_int),
      (''l_known'', at_field tw_LatestKnown (\<lambda>x. tw_LatestKnown_update (\<lambda>_. x)) decode_bool),
      (''l'', at_field tw_Latest (\<lambda>x. tw_Latest_update (\<lambda>_. x)) decode_int),
      (''cal'', at_field tw_Calendar (\<lambda>x. tw_Calendar_update (\<lambda>_. x)) decode_string),
      (''circa'', at_field tw_Circa (\<lambda>x. tw_Circa_update (\<lambda>_. x)) decode_bool)]"

definition decode_nameWire :: "nameWire decoder" where
  "decode_nameWire = decode_struct nameWire_fields"

definition decode_timeRangeWire :: "timeRangeWire decoder" where
  "decode_timeRangeWire = decode_struct timeRangeWire_fields"

definition personWire_fields :: "(string \<times> personWire decoder) list" where
  "personWire_fields =
     [(''id'', at_field pw_ID (\<lambda>x. pw_ID_update (\<lambda>_. x)) decode_string),
      (''names'', at_field pw_Names (\<lambda>x. pw_Names_update (\<lambda>_. x))
         (decode_slice zero_nameWire decode_nameWire)),
      (''gender'', at_field pw_Gender (\<lambda>x. pw_Gender_update (\<lambda>_. x)) decode_string),
      (''birth'', at_field pw_Birth (\<lambda>x. pw_Birth_update (\<lambda>_. x))
         (decode_pointer zero_timeRangeWire decode_timeRangeWire)),
      (''death'', at_field pw_Death (\<lambda>x. pw_Death_update (\<lambda>_. x))
         (decode_pointer zero_timeRangeWire decode_timeRangeWire)),
      (''notes'', at_field pw_Notes (\<lambda>x. pw_Notes_update (\<lambda>_. x)) decode_string),
      (''unknown'', at_field pw_Unknown (\<lambda>x. pw_Unknown_update (\<lambda>_. x)) decode_bool)]"

definition continuityWire_fields :: "(string \<times> continuityWire decoder) list" where
  "continuityWire_fields =
     [(''state'', at_field cw_State (\<lambda>x. cw_State_update (\<lambda>_. x)) decode_int),
      (''gk'', at_field cw_GapKnown (\<lambda>x. cw_GapKnown_update (\<lambda>_. x)) decode_bool),
      (''gs'', at_field cw_GapSize (\<lambda>x. cw_GapSize_update (\<lambda>_. x)) decode_int)]"

definition relationshipWire_fields :: "(string \<times> relationshipWire decoder) list" where
  "relationshipWire_fields =
     [(''id'', at_field rw_ID (\<lambda>x. rw_ID_update (\<lambda>_. x)) decode_string),
      (''from'', at_field rw_From (\<lambda>x. rw_From_update (\<lambda>_. x)) decode_string),
      (''to'', at_field rw_To (\<lambda>x. rw_To_update (\<lambda>_. x)) decode_string),
      (''type'', at_field rw_Type (\<lambda>x. rw_Type_update (\<lambda>_. x)) decode_int),
      (''cert'', at_field rw_Certainty (\<lambda>x. rw_Certainty_update (\<lambda>_. x)) decode_int),
      (''cont'', at_field rw_Continuity (\<lambda>x. rw_Continuity_update (\<lambda>_. x))
         (decode_struct continuityWire_fields)),
      (''time'', at_field rw_TimeRange (\<lambda>x. rw_TimeRange_update (\<lambda>_. x))
         (decode_pointer zero_timeRangeWire decode_timeRangeWire)),
      (''notes'', at_field rw_Notes (\<lambda>x. rw_Notes_update (\<lambda>_. x)) decode_string),
      (''sources'', at_field rw_Sources (\<lambda>x. rw_Sources_update (\<lambda>_. x))
         (decode_slice '''' decode_string))]"

definition sourceWire_fields :: "(string \<times> sourceWire decoder) list" where
  "sourceWire_fields =
     [(''id'', at_field sw_ID (\<lambda>x. sw_ID_update (\<lambda>_. x)) decode_string),
      (''type'', at_field sw_Type (\<lambda>x. sw_Type_update (\<lambda>_. x)) decode_string),
      (''citation'', at_field sw_Citation (\<lambda>x. sw_Citation_update (\<lambda>_. x)) decode_string),
      (''author'', at_field sw_Author (\<lambda>x. sw_Author_update (\<lambda>_. x)) decode_string),
      (''title'', at_field sw_Title (\<lambda>x. sw_Title_update (\<lambda>_. x)) decode_string),
      (''date'', at_field sw_Date (\<lambda>x. sw_Date_update (\<lambda>_. x)) decode_string),
      (''locator'', at_field sw_Locator (\<lambda>x. sw_Locator_update (\<lambda>_. x)) decode_string),
      (''notes'', at_field sw_Notes (\<lambda>x. sw_Notes_update (\<lambda>_. x)) decode_string)]"

definition proposalTransWire_fields :: "(string \<times> proposalTransWire decoder) list" where
  "proposalTransWire_fields =
     [(''from'', at_field hw_From (\<lambda>x. hw_From_update (\<lambda>_. x)) decode_int),
      (''to'', at_field hw_To (\<lambda>x. hw_To_update (\<lambda>_. x)) decode_int),
      (''actor'', at_field hw_Actor (\<lambda>x. hw_Actor_update (\<lambda>_. x)) decode_string),
      (''ts'', at_field hw_Timestamp (\<lambda>x. hw_Timestamp_update (\<lambda>_. x)) decode_int),
      (''reason'', at_field hw_Reason (\<lambda>x. hw_Reason_update (\<lambda>_. x)) decode_string)]"

definition proposalWire_fields :: "(string \<times> proposalWire decoder) list" where
  "proposalWire_fields =
     [(''id'', at_field qw_ID (\<lambda>x. qw_ID_update (\<lambda>_. x)) decode_string),
      (''state'', at_field qw_State (\<lambda>x. qw_State_update (\<lambda>_. x)) decode_int),
      (''action'', at_field qw_Action (\<lambda>x. qw_Action_update (\<lambda>_. x)) decode_int),
      (''kind'', at_field qw_EntityKind (\<lambda>x. qw_EntityKind_update (\<lambda>_. x)) decode_int),
      (''target'', at_field qw_TargetID (\<lambda>x. qw_TargetID_update (\<lambda>_. x)) decode_string),
      (''secondary'', at_field qw_SecondaryID (\<lambda>x. qw_SecondaryID_update (\<lambda>_. x)) decode_string),
      (''payload'', at_field qw_Payload (\<lambda>x. qw_Payload_update (\<lambda>_. x)) decode_bytes),
      (''reason'', at_field qw_Reason (\<lambda>x. qw_Reason_update (\<lambda>_. x)) decode_string),
      (''sources'', at_field qw_Sources (\<lambda>x. qw_Sources_update (\<lambda>_. x))
         (decode_slice '''' decode_string)),
      (''author'', at_field qw_Author (\<lambda>x. qw_Author_update (\<lambda>_. x)) decode_string),
      (''created'', at_field qw_CreatedAt (\<lambda>x. qw_CreatedAt_update (\<lambda>_. x)) decode_int),
      (''history'', at_field qw_History (\<lambda>x. qw_History_update (\<lambda>_. x))
         (decode_slice zero_proposalTransWire (decode_struct proposalTransWire_fields)))]"


section \<open>Plain documents\<close>

text \<open>Documents that survive printing and parsing unchanged.\<close>

definition json_plain :: "json \<Rightarrow> bool" where
  "json_plain j \<longleftrightarrow> json_ok j \<and> coerce_json j = j"

lemma Unmarshal_plain: "json_plain j \<Longrightarrow> Unmarshal dec zero (print_json j) = dec j zero"
  by (simp add: json_plain_def Unmarshal_print)

definition plain_member :: "string \<times> json \<Rightarrow> bool" where
  "plain_member kv \<longleftrightarrow> utf8 (fst kv) \<and> json_plain (snd kv)"

lemma map_same: "map f xs = xs \<longleftrightarrow> (\<forall>x \<in> set xs. f x = x)"
  by (induction xs) auto

lemma json_plain_simps [simp]:
  "json_plain JNull" "json_plain (JBool b)" "json_plain (JInt i)"
  "json_plain (JStr s) \<longleftrightarrow> utf8 s"
  "json_plain (JArr js) \<longleftrightarrow> list_all json_plain js"
  "json_plain (JObj kvs) \<longleftrightarrow> list_all plain_member kvs"
  by (auto simp: json_plain_def JInt_def utf8_def list_all_iff map_same plain_member_def)

lemma plain_omit [simp]: "list_all plain_member (omit_if e k j) \<longleftrightarrow> e \<or> plain_member (k, j)"
  by (simp add: omit_if_def)

lemma plain_pointer [simp]:
  "json_plain (pointer_json f p) \<longleftrightarrow> (\<forall>x. p = Some x \<longrightarrow> json_plain (f x))"
  by (cases p) (simp_all add: pointer_json_def)

text \<open>Reading an omitted member would have left the target as it is.\<close>

lemma foldE_omit_same:
  "(e \<Longrightarrow> f (k, j) b = Inr b) \<Longrightarrow> foldE f (omit_if e k j) b = f (k, j) b"
  by (cases "f (k, j) b") (auto simp: omit_if_def)

lemma decode_simps [simp]:
  "decode_string (JStr s) t = Inr s"
  "decode_bool (JBool b) c = Inr b"
  "int64 i \<Longrightarrow> decode_int (JInt i) k = Inr i"
  "decode_bytes (JStr (b64_encode s)) t = Inr s"
  "decode_bytes (JStr []) t = Inr []"
  "decode_struct fs (JObj kvs) x = foldE (decode_member fs) kvs x"
  "decode_slice z d (JArr js) xs = mapE (\<lambda>j. d j z) js"
  "decode_pointer z d JNull p = Inr None"
  by (simp_all add: decode_string_def decode_bool_def JInt_def decode_int_show decode_bytes_def
      b64_roundtrip b64_decode_def [of "[]"] decode_struct_def decode_slice_def decode_pointer_def)

lemma mapE_map: "(\<And>x. x \<in> set xs \<Longrightarrow> f (g x) = Inr x) \<Longrightarrow> mapE f (map g xs) = Inr xs"
  by (induction xs) auto

lemma decode_pointer_json:
  assumes "\<And>x. p = Some x \<Longrightarrow> d (f x) z = Inr x" and "\<And>x. f x \<noteq> JNull"
  shows "decode_pointer z d (pointer_json f p) None = Inr p"
  using assms by (cases p) (auto simp: pointer_json_def decode_pointer_def)

lemmas decode_member_simps = decode_member_def find_field_def at_field_def foldE_append
  foldE_omit_same

lemma decode_nameWire_json [simp]: "decode_nameWire (nameWire_json w) zero_nameWire = Inr w"
  by (simp add: decode_nameWire_def nameWire_json_def nameWire_fields_def zero_nameWire_def
      decode_member_simps)

section \<open>The round trip of each wire struct\<close>

text \<open>The integers of a wire struct are Go \<open>int\<close>s, its texts valid UTF-8.\<close>

definition nameWire_ok :: "nameWire \<Rightarrow> bool" where
  "nameWire_ok w \<longleftrightarrow> utf8 (nw_Text w) \<and> utf8 (nw_Language w) \<and> utf8 (nw_Script w) \<and> utf8 (nw_Type w)"

definition timeRangeWire_ok :: "timeRangeWire \<Rightarrow> bool" where
  "timeRangeWire_ok w \<longleftrightarrow> int64 (tw_Earliest w) \<and> int64 (tw_Latest w) \<and> utf8 (tw_Calendar w)"

definition personWire_ok :: "personWire \<Rightarrow> bool" where
  "personWire_ok w \<longleftrightarrow> utf8 (pw_ID w) \<and> list_all nameWire_ok (pw_Names w) \<and> utf8 (pw_Gender w) \<and>
     pred_option timeRangeWire_ok (pw_Birth w) \<and> pred_option timeRangeWire_ok (pw_Death w) \<and>
     utf8 (pw_Notes w)"

definition relationshipWire_ok :: "relationshipWire \<Rightarrow> bool" where
  "relationshipWire_ok w \<longleftrightarrow> utf8 (rw_ID w) \<and> utf8 (rw_From w) \<and> utf8 (rw_To w) \<and>
     int64 (rw_Type w) \<and> int64 (rw_Certainty w) \<and> int64 (cw_State (rw_Continuity w)) \<and>
     int64 (cw_GapSize (rw_Continuity w)) \<and> pred_option timeRangeWire_ok (rw_TimeRange w) \<and>
     utf8 (rw_Notes w) \<and> list_all utf8 (rw_Sources w)"

definition sourceWire_ok :: "sourceWire \<Rightarrow> bool" where
  "sourceWire_ok w \<longleftrightarrow> utf8 (sw_ID w) \<and> utf8 (sw_Type w) \<and> utf8 (sw_Citation w) \<and> utf8 (sw_Author w) \<and>
     utf8 (sw_Title w) \<and> utf8 (sw_Date w) \<and> utf8 (sw_Locator w) \<and> utf8 (sw_Notes w)"

definition proposalTransWire_ok :: "proposalTransWire \<Rightarrow> bool" where
  "proposalTransWire_ok w \<longleftrightarrow> int64 (hw_From w) \<and> int64 (hw_To w) \<and> utf8 (hw_Actor w) \<and>
     int64 (hw_Timestamp w) \<and> utf8 (hw_Reason w)"

definition proposalWire_ok :: "proposalWire \<Rightarrow> bool" where
  "proposalWire_ok w \<longleftrightarrow> utf8 (qw_ID w) \<and> int64 (qw_State w) \<and> int64 (qw_Action w) \<and>
     int64 (qw_EntityKind w) \<and> utf8 (qw_TargetID w) \<and> utf8 (qw_SecondaryID w) \<and>
     utf8 (qw_Reason w) \<and> list_all utf8 (qw_Sources w) \<and> utf8 (qw_Author w) \<and>
     int64 (qw_CreatedAt w) \<and> list_all proposalTransWire_ok (qw_History w)"

lemma int64_zero [simp]: "int64 0"
  by (simp add: int64_def)

lemma decode_timeRangeWire_json [simp]:
  "timeRangeWire_ok w \<Longrightarrow> decode_timeRangeWire (timeRangeWire_json w) zero_timeRangeWire = Inr w"
  by (simp add: decode_timeRangeWire_def timeRangeWire_json_def timeRangeWire_fields_def
      zero_timeRangeWire_def decode_member_simps timeRangeWire_ok_def)

lemma timeRangeWire_pointer [simp]:
  "pred_option timeRangeWire_ok p \<Longrightarrow>
   decode_pointer zero_timeRangeWire decode_timeRangeWire (pointer_json timeRangeWire_json p) None = Inr p"
proof (rule decode_pointer_json)
  show "timeRangeWire_json w \<noteq> JNull" for w by (simp add: timeRangeWire_json_def)
qed auto

lemma mapE_strings [simp]: "mapE (\<lambda>j. decode_string j z) (map JStr xs) = Inr xs"
  by (rule mapE_map) simp

lemma mapE_names [simp]:
  "mapE (\<lambda>j. decode_nameWire j zero_nameWire) (map nameWire_json ws) = Inr ws"
  by (rule mapE_map) simp

lemma decode_personWire_json:
  "personWire_ok w \<Longrightarrow> decode_struct personWire_fields (personWire_json w) zero_personWire = Inr w"
  by (simp add: personWire_json_def personWire_fields_def
      zero_personWire_def decode_member_simps personWire_ok_def)

lemma decode_relationshipWire_json:
  "relationshipWire_ok w \<Longrightarrow>
   decode_struct relationshipWire_fields (relationshipWire_json w) zero_relationshipWire = Inr w"
  by (simp add: relationshipWire_json_def relationshipWire_fields_def
      zero_relationshipWire_def decode_member_simps relationshipWire_ok_def
      continuityWire_json_def continuityWire_fields_def zero_continuityWire_def)

lemma decode_sourceWire_json:
  "decode_struct sourceWire_fields (sourceWire_json w) zero_sourceWire = Inr w"
  by (simp add: sourceWire_json_def sourceWire_fields_def zero_sourceWire_def decode_member_simps)

lemma decode_proposalTransWire_json:
  "proposalTransWire_ok w \<Longrightarrow>
   decode_struct proposalTransWire_fields (proposalTransWire_json w) zero_proposalTransWire = Inr w"
  by (simp add: proposalTransWire_json_def proposalTransWire_fields_def
      zero_proposalTransWire_def decode_member_simps proposalTransWire_ok_def)

lemma mapE_history [simp]:
  "list_all proposalTransWire_ok ws \<Longrightarrow>
   mapE (\<lambda>j. decode_struct proposalTransWire_fields j zero_proposalTransWire)
     (map proposalTransWire_json ws) = Inr ws"
  by (rule mapE_map) (auto simp: decode_proposalTransWire_json list_all_iff)

lemma decode_proposalWire_json:
  "proposalWire_ok w \<Longrightarrow>
   decode_struct proposalWire_fields (proposalWire_json w) zero_proposalWire = Inr w"
  by (simp add: proposalWire_json_def proposalWire_fields_def
      zero_proposalWire_def decode_member_simps proposalWire_ok_def)

text \<open>The documents of the wire structs are plain.\<close>

lemmas plain_simps = plain_member_def utf8_ascii is_ascii_def list.pred_map o_def

lemma nameWire_plain: "nameWire_ok w \<Longrightarrow> json_plain (nameWire_json w)"
  by (simp add: nameWire_json_def nameWire_ok_def plain_simps)

lemma timeRangeWire_plain: "timeRangeWire_ok w \<Longrightarrow> json_plain (timeRangeWire_json w)"
  by (simp add: timeRangeWire_json_def timeRangeWire_ok_def plain_simps)

lemma names_plain: "list_all nameWire_ok ws \<Longrightarrow> list_all (\<lambda>w. json_plain (nameWire_json w)) ws"
  by (erule list.pred_mono_strong) (rule nameWire_plain)

lemma personWire_plain: "personWire_ok w \<Longrightarrow> json_plain (personWire_json w)"
  by (auto simp: personWire_json_def personWire_ok_def plain_simps names_plain timeRangeWire_plain)

lemma relationshipWire_plain: "relationshipWire_ok w \<Longrightarrow> json_plain (relationshipWire_json w)"
  by (auto simp: relationshipWire_json_def relationshipWire_ok_def continuityWire_json_def plain_simps
      timeRangeWire_plain)

lemma sourceWire_plain: "sourceWire_ok w \<Longrightarrow> json_plain (sourceWire_json w)"
  by (simp add: sourceWire_json_def sourceWire_ok_def plain_simps)

lemma proposalTransWire_plain: "proposalTransWire_ok w \<Longrightarrow> json_plain (proposalTransWire_json w)"
  by (simp add: proposalTransWire_json_def proposalTransWire_ok_def plain_simps)

lemma history_plain:
  "list_all proposalTransWire_ok ws \<Longrightarrow> list_all (\<lambda>w. json_plain (proposalTransWire_json w)) ws"
  by (erule list.pred_mono_strong) (rule proposalTransWire_plain)

lemma proposalWire_plain: "proposalWire_ok w \<Longrightarrow> json_plain (proposalWire_json w)"
  by (auto simp: proposalWire_json_def proposalWire_ok_def plain_simps history_plain
      utf8_ascii [OF b64_encode_ascii])

end
