(* ===== verification/Values.thy ===== *)
theory Values
  imports Errors
begin

text \<open>
  The value types of the package \<open>model\<close>: identifiers (id.go), genders (gender.go), names
  (name.go), certainties and the weakest-link algebra (certainty.go), continuity and gap sizes
  (continuity.go), calendars and year ranges (timerange.go). An enumerated \<open>uint8\<close> type is
  \<open>8 word\<close>, because values outside the named constants exist in Go and are what \<open>IsValid\<close>
  is for.
\<close>

section \<open>Identifiers\<close>

type_synonym ID = string

definition ParseID :: "string \<Rightarrow> error + ID" where
  "ParseID s = (let t = trim_space s in
     if t = '''' then Inl (Errorf ''model: ID must not be empty'') else Inr t)"

definition ID_String :: "ID \<Rightarrow> string" where
  "ID_String i = i"

definition ID_IsZero :: "ID \<Rightarrow> bool" where
  "ID_IsZero i \<longleftrightarrow> i = ''''"

lemma ParseID_Inr: "ParseID s = Inr t \<longleftrightarrow> t = trim_space s \<and> t \<noteq> ''''"
  by (auto simp: ParseID_def Let_def)

lemma ID_IsZero_iff [simp]: "ID_IsZero i \<longleftrightarrow> i = ''''"
  by (simp add: ID_IsZero_def)

lemma ParseID_fixed: "ParseID t = Inr t \<longleftrightarrow> trim_space t = t \<and> t \<noteq> ''''"
  by (auto simp: ParseID_Inr)


section \<open>Genders\<close>

type_synonym Gender = string

definition GenderMale :: Gender where "GenderMale = ''male''"
definition GenderFemale :: Gender where "GenderFemale = ''female''"
definition GenderUnknown :: Gender where "GenderUnknown = ''unknown''"
definition GenderUnset :: Gender where "GenderUnset = ''''"

definition Gender_IsCore :: "Gender \<Rightarrow> bool" where
  "Gender_IsCore g \<longleftrightarrow> g = GenderMale \<or> g = GenderFemale \<or> g = GenderUnknown"

definition Gender_IsUnset :: "Gender \<Rightarrow> bool" where
  "Gender_IsUnset g \<longleftrightarrow> g = GenderUnset"

text \<open>
  \<open>strings.ToLower\<close> maps ASCII input byte by byte; on other input it maps runes by the Unicode
  tables, which are the parameter \<open>uni_lower\<close>. The text that \<open>%q\<close> prints for the rejected
  input is the parameter \<open>quote\<close> (\<open>strconv.Quote\<close>).
\<close>

definition to_lower :: "(string \<Rightarrow> string) \<Rightarrow> string \<Rightarrow> string" where
  "to_lower uni_lower s = (if is_ascii s then ascii_lower s else uni_lower s)"

definition ParseGender ::
    "(string \<Rightarrow> string) \<Rightarrow> (string \<Rightarrow> string) \<Rightarrow> string \<Rightarrow> bool \<Rightarrow> error + Gender" where
  "ParseGender uni_lower quote s allowExtension =
     (let t = to_lower uni_lower (trim_space s) in
      if t = '''' then Inr GenderUnset
      else if Gender_IsCore t then Inr t
      else if allowExtension then Inr t
      else Inl (Errorf (''model: gender '' @ quote s @ '' is not in the core vocabulary'')))"

lemma ParseGender_strict:
  "ParseGender ul q s False = Inr g \<Longrightarrow> g = GenderUnset \<or> Gender_IsCore g"
  by (auto simp: ParseGender_def Let_def split: if_splits)


section \<open>Names\<close>

type_synonym NameType = string

definition NameTypeGiven :: NameType where "NameTypeGiven = ''given''"
definition NameTypeFamily :: NameType where "NameTypeFamily = ''family''"
definition NameTypeFull :: NameType where "NameTypeFull = ''full''"
definition NameTypeKunyah :: NameType where "NameTypeKunyah = ''kunyah''"
definition NameTypeTitle :: NameType where "NameTypeTitle = ''title''"
definition NameTypeEpithet :: NameType where "NameTypeEpithet = ''epithet''"
definition NameTypeOther :: NameType where "NameTypeOther = ''other''"

record Name =
  Name_Text :: string
  Name_Language :: string
  Name_Script :: string
  Name_Type :: NameType
  Name_Preferred :: bool

definition zero_Name :: Name where
  "zero_Name = \<lparr>Name_Text = '''', Name_Language = '''', Name_Script = '''', Name_Type = '''',
     Name_Preferred = False\<rparr>"

definition NewName :: "string \<Rightarrow> string \<Rightarrow> string \<Rightarrow> NameType \<Rightarrow> bool \<Rightarrow> error + Name" where
  "NewName text language script t preferred =
     (let tt = trim_space text in
      if tt = '''' then Inl (Errorf ''model: name text must not be empty'')
      else
        let t' = (if t = '''' then NameTypeFull else t)
        in Inr \<lparr>Name_Text = tt, Name_Language = trim_space language,
                Name_Script = trim_space script, Name_Type = t', Name_Preferred = preferred\<rparr>)"

definition Name_String :: "Name \<Rightarrow> string" where
  "Name_String n =
     Name_Text n @
     (if Name_Language n \<noteq> '''' then
        '' ['' @ Name_Language n @
        (if Name_Script n \<noteq> '''' then ''/'' @ Name_Script n else '''') @ '']''
      else '''')"

text \<open>A name that \<open>NewName\<close> leaves as it is.\<close>

definition Name_normal :: "Name \<Rightarrow> bool" where
  "Name_normal n \<longleftrightarrow> Name_Text n \<noteq> '''' \<and> trim_space (Name_Text n) = Name_Text n \<and>
     trim_space (Name_Language n) = Name_Language n \<and> trim_space (Name_Script n) = Name_Script n \<and>
     Name_Type n \<noteq> ''''"

lemma NewName_normal: "NewName x l s t p = Inr n \<Longrightarrow> Name_normal n"
  by (auto simp: NewName_def Name_normal_def Let_def NameTypeFull_def split: if_splits)

lemma NewName_fixed:
  "Name_normal n \<Longrightarrow>
   NewName (Name_Text n) (Name_Language n) (Name_Script n) (Name_Type n) (Name_Preferred n) = Inr n"
  by (simp add: NewName_def Name_normal_def)


section \<open>Certainty\<close>

type_synonym Certainty = "8 word"

definition CertaintyUncertain :: Certainty where [go_consts]: "CertaintyUncertain = 1"
definition CertaintyProbable :: Certainty where [go_consts]: "CertaintyProbable = 2"
definition CertaintyCertain :: Certainty where [go_consts]: "CertaintyCertain = 3"

definition Certainty_Rank :: "Certainty \<Rightarrow> int" where
  "Certainty_Rank c = uint c"

definition Certainty_IsValid :: "Certainty \<Rightarrow> bool" where
  "Certainty_IsValid c \<longleftrightarrow>
     c = CertaintyUncertain \<or> c = CertaintyProbable \<or> c = CertaintyCertain"

definition Certainty_String :: "Certainty \<Rightarrow> string" where
  "Certainty_String c =
     (if c = CertaintyCertain then ''Certain''
      else if c = CertaintyProbable then ''Probable''
      else if c = CertaintyUncertain then ''Uncertain''
      else ''Certainty('' @ show_int (uint c) @ '')'')"

definition Certainty_Min :: "Certainty \<Rightarrow> Certainty \<Rightarrow> Certainty" where
  "Certainty_Min c other = (if Certainty_Rank other < Certainty_Rank c then other else c)"

text \<open>The loop over \<open>cs[1:]\<close>; the empty slice panics, which is \<open>None\<close>.\<close>

fun combine_loop :: "Certainty \<Rightarrow> Certainty list \<Rightarrow> Certainty" where
  "combine_loop out [] = out"
| "combine_loop out (c # cs) = combine_loop (Certainty_Min out c) cs"

definition CombineCertainties :: "Certainty list \<Rightarrow> Certainty option" where
  "CombineCertainties cs = (case cs of [] \<Rightarrow> None | c # rest \<Rightarrow> Some (combine_loop c rest))"

lemma Certainty_Min_eq: "Certainty_Min a b = min a b"
  by (simp add: Certainty_Min_def Certainty_Rank_def min_def word_less_def word_le_def)

lemma Rank_less_iff: "Certainty_Rank a < Certainty_Rank b \<longleftrightarrow> a < b"
  by (simp add: Certainty_Rank_def word_less_def)

lemma Rank_eq_iff [simp]: "Certainty_Rank a = Certainty_Rank b \<longleftrightarrow> a = b"
  by (simp add: Certainty_Rank_def word_uint_eq_iff)

lemma combine_loop_eq: "combine_loop c cs = Min (insert c (set cs))"
proof (induction cs arbitrary: c)
  case (Cons d cs)
  have "Min (insert c (insert d (set cs))) = Min (insert (min c d) (set cs))"
    by (cases "cs = []") (simp_all add: Min_insert min.assoc)
  with Cons show ?case by (simp add: Certainty_Min_eq)
qed simp

lemma CombineCertainties_Min:
  "cs \<noteq> [] \<Longrightarrow> CombineCertainties cs = Some (Min (set cs))"
  by (cases cs) (simp_all add: CombineCertainties_def combine_loop_eq)

text \<open>
  \<open>CombineCertainties\<close> is the weakest-link combinator: on a non-empty slice it returns the
  least of the values by rank, so the order, the grouping and repetitions do not matter, and
  combining a slice that is split in two is \<open>Min\<close> of the two combined halves; on the empty slice
  it panics.
\<close>

theorem CombineCertainties_weakest_link:
  "CombineCertainties [] = None \<and>
   CombineCertainties (c # cs) = Some (Min (set (c # cs))) \<and>
   CombineCertainties ((c # cs) @ (d # ds)) =
     Some (Certainty_Min (the (CombineCertainties (c # cs))) (the (CombineCertainties (d # ds))))"
proof -
  have "Min (set (c # cs) \<union> set (d # ds)) = min (Min (set (c # cs))) (Min (set (d # ds)))"
    by (rule Min_Un) simp_all
  moreover have "CombineCertainties [] = None"
    by (simp add: CombineCertainties_def)
  ultimately show ?thesis
    by (simp only: CombineCertainties_Min Certainty_Min_eq set_append option.sel simp_thms
        append_is_Nil_conv list.distinct option.inject)
qed


section \<open>Continuity\<close>

type_synonym ContinuityState = "8 word"

definition ContinuityContinuous :: ContinuityState where [go_consts]: "ContinuityContinuous = 1"
definition ContinuityGapped :: ContinuityState where [go_consts]: "ContinuityGapped = 2"

definition ContinuityState_IsValid :: "ContinuityState \<Rightarrow> bool" where
  "ContinuityState_IsValid s \<longleftrightarrow> s = ContinuityContinuous \<or> s = ContinuityGapped"

definition ContinuityState_String :: "ContinuityState \<Rightarrow> string" where
  "ContinuityState_String s =
     (if s = ContinuityContinuous then ''Continuous''
      else if s = ContinuityGapped then ''Gapped''
      else ''ContinuityState('' @ show_int (uint s) @ '')'')"

record GapGenerations =
  KnownSize :: bool
  Gap_Size :: int

definition UnknownGap :: GapGenerations where
  "UnknownGap = \<lparr>KnownSize = False, Gap_Size = 0\<rparr>"

definition KnownGap :: "int \<Rightarrow> error + GapGenerations" where
  "KnownGap sz =
     (if sz < 1 then Inl (Errorf (''model: known gap size must be >= 1, got '' @ show_int sz))
      else Inr \<lparr>KnownSize = True, Gap_Size = sz\<rparr>)"

definition GapGenerations_String :: "GapGenerations \<Rightarrow> string" where
  "GapGenerations_String g = (if \<not> KnownSize g then ''Unknown'' else show_int (Gap_Size g))"

record Continuity =
  Cont_State :: ContinuityState
  Cont_Gap :: GapGenerations

definition NewContinuous :: Continuity where
  "NewContinuous = \<lparr>Cont_State = ContinuityContinuous, Cont_Gap = UnknownGap\<rparr>"

definition NewGapped :: "GapGenerations \<Rightarrow> Continuity" where
  "NewGapped gap = \<lparr>Cont_State = ContinuityGapped, Cont_Gap = gap\<rparr>"

definition Continuity_IsValid :: "Continuity \<Rightarrow> bool" where
  "Continuity_IsValid c =
     (if \<not> ContinuityState_IsValid (Cont_State c) then False
      else if Cont_State c = ContinuityGapped \<and> KnownSize (Cont_Gap c) \<and> Gap_Size (Cont_Gap c) < 1
      then False else True)"

definition Continuity_IsGapped :: "Continuity \<Rightarrow> bool" where
  "Continuity_IsGapped c \<longleftrightarrow> Cont_State c = ContinuityGapped"

definition Continuity_String :: "Continuity \<Rightarrow> string" where
  "Continuity_String c =
     (if Cont_State c = ContinuityGapped
      then ''Gapped('' @ GapGenerations_String (Cont_Gap c) @ '')''
      else ContinuityState_String (Cont_State c))"

lemma KnownGap_valid: "KnownGap n = Inr g \<Longrightarrow> Continuity_IsValid (NewGapped g)"
  by (auto simp: KnownGap_def NewGapped_def Continuity_IsValid_def ContinuityState_IsValid_def
      split: if_splits)


section \<open>Time ranges\<close>

type_synonym Calendar = string

definition CalendarGregorianProleptic :: Calendar where
  "CalendarGregorianProleptic = ''gregorian-proleptic''"
definition CalendarJulian :: Calendar where "CalendarJulian = ''julian''"
definition CalendarHijri :: Calendar where "CalendarHijri = ''hijri''"

definition Calendar_IsKnown :: "Calendar \<Rightarrow> bool" where
  "Calendar_IsKnown c =
     (if c = CalendarGregorianProleptic \<or> c = CalendarJulian \<or> c = CalendarHijri then True
      else c \<noteq> '''')"

record YearBound =
  KnownYear :: bool
  Year :: int

definition UnknownYear :: YearBound where
  "UnknownYear = \<lparr>KnownYear = False, Year = 0\<rparr>"

definition KnownYearBound :: "int \<Rightarrow> YearBound" where
  "KnownYearBound y = \<lparr>KnownYear = True, Year = y\<rparr>"

definition YearBound_String :: "YearBound \<Rightarrow> string" where
  "YearBound_String b = (if \<not> KnownYear b then ''Unknown'' else show_int (Year b))"

record TimeRange =
  Earliest :: YearBound
  Latest :: YearBound
  TR_Calendar :: Calendar
  Circa :: bool

definition zero_TimeRange :: TimeRange where
  "zero_TimeRange =
     \<lparr>Earliest = UnknownYear, Latest = UnknownYear, TR_Calendar = '''', Circa = False\<rparr>"

text \<open>The text of \<open>%q\<close> in the calendar error is left as the calendar itself: the branch is dead
  (\<open>NewTimeRange_calendar_branch\<close> below).\<close>

definition NewTimeRange :: "YearBound \<Rightarrow> YearBound \<Rightarrow> Calendar \<Rightarrow> bool \<Rightarrow> error + TimeRange" where
  "NewTimeRange earliest latest cal circa =
     (let cal' = (if cal = '''' then CalendarGregorianProleptic else cal) in
      if \<not> Calendar_IsKnown cal' then Inl (Errorf (''model: invalid calendar '' @ cal'))
      else if KnownYear earliest \<and> KnownYear latest \<and> Year earliest > Year latest
      then Inl (Errorf (''model: time range earliest ('' @ show_int (Year earliest)
             @ '') is after latest ('' @ show_int (Year latest) @ '')''))
      else Inr \<lparr>Earliest = earliest, Latest = latest, TR_Calendar = cal', Circa = circa\<rparr>)"

definition TimeRange_IsZero :: "TimeRange \<Rightarrow> bool" where
  "TimeRange_IsZero r \<longleftrightarrow>
     \<not> KnownYear (Earliest r) \<and> \<not> KnownYear (Latest r) \<and> TR_Calendar r = '''' \<and> \<not> Circa r"

definition TimeRange_String :: "TimeRange \<Rightarrow> string" where
  "TimeRange_String r =
     (if Circa r then ''c. '' else '''') @
     YearBound_String (Earliest r) @
     (if Earliest r \<noteq> Latest r
      then [CHR 0xE2, CHR 0x80, CHR 0x93] @ YearBound_String (Latest r) else '''') @
     (if TR_Calendar r \<noteq> '''' \<and> TR_Calendar r \<noteq> CalendarGregorianProleptic
      then '' ('' @ TR_Calendar r @ '')'' else '''')"

text \<open>The order of the bounds that a time range must keep when both are known.\<close>

definition bounds_ordered :: "YearBound \<Rightarrow> YearBound \<Rightarrow> bool" where
  "bounds_ordered e l \<longleftrightarrow> (KnownYear e \<longrightarrow> KnownYear l \<longrightarrow> Year e \<le> Year l)"

lemma NewTimeRange_calendar_branch:
  "NewTimeRange e l cal circa \<noteq> Inl (Errorf (''model: invalid calendar '' @ c))"
  by (auto simp: NewTimeRange_def Let_def Errorf_def Calendar_IsKnown_def
      CalendarGregorianProleptic_def)

lemma NewTimeRange_Inr:
  "NewTimeRange e l cal circa = Inr r \<longleftrightarrow>
     bounds_ordered e l \<and>
     r = \<lparr>Earliest = e, Latest = l,
          TR_Calendar = (if cal = '''' then CalendarGregorianProleptic else cal), Circa = circa\<rparr>"
  by (auto simp: NewTimeRange_def Let_def Calendar_IsKnown_def bounds_ordered_def
      CalendarGregorianProleptic_def)

lemma NewTimeRange_not_zero: "NewTimeRange e l cal circa = Inr r \<Longrightarrow> \<not> TimeRange_IsZero r"
  by (auto simp: NewTimeRange_Inr TimeRange_IsZero_def CalendarGregorianProleptic_def)

end
