(* ===== verification/Entities.thy ===== *)
theory Entities
  imports Values
begin

text \<open>
  The entities of the graph (package \<open>model\<close>): persons (person.go), relationships
  (relationship.go) and sources (source.go), their validating constructors, and for each the
  well-formedness that its constructors establish (\<open>Person_wf\<close>, \<open>Relationship_wf\<close>,
  \<open>Source_wf\<close>).
\<close>

section \<open>Persons\<close>

record Person =
  P_id :: ID
  P_names :: "Name list"
  P_gender :: Gender
  P_birth :: TimeRange
  P_death :: TimeRange
  P_notes :: string
  P_unknown :: bool

record PersonOptions =
  PO_Names :: "Name list"
  PO_Gender :: Gender
  PO_Birth :: TimeRange
  PO_Death :: TimeRange
  PO_Notes :: string

text \<open>The loop over \<open>opts.Names\<close>: the error for the first name whose text is blank.\<close>

fun blank_name_error :: "ID \<Rightarrow> nat \<Rightarrow> Name list \<Rightarrow> error option" where
  "blank_name_error i k [] = None"
| "blank_name_error i k (n # ns) =
     (if trim_space (Name_Text n) = ''''
      then Some (Errorf (''model: Person '' @ i @ '' name #'' @ show_int (int k)
                         @ '' has empty text''))
      else blank_name_error i (Suc k) ns)"

text \<open>The check of one optional time range, wrapped with the field's name.\<close>

definition range_error :: "ID \<Rightarrow> string \<Rightarrow> TimeRange \<Rightarrow> error option" where
  "range_error i field r =
     (if TimeRange_IsZero r then None
      else case NewTimeRange (Earliest r) (Latest r) (TR_Calendar r) (Circa r) of
        Inl e \<Rightarrow> Some (Errorf_wrap (''model: Person '' @ i @ '' '' @ field @ '': '') e)
      | Inr _ \<Rightarrow> None)"

definition NewPerson :: "ID \<Rightarrow> PersonOptions \<Rightarrow> error + Person" where
  "NewPerson i opts =
     (if ID_IsZero i then Inl (Errorf ''model: Person ID is required'')
      else if PO_Names opts = []
      then Inl (Errorf (''model: Person '' @ i @ '' requires at least one name''))
      else case blank_name_error i 0 (PO_Names opts) of Some e \<Rightarrow> Inl e | None \<Rightarrow>
        (if PO_Gender opts \<noteq> GenderUnset \<and> \<not> Gender_IsCore (PO_Gender opts) \<and>
            trim_space (PO_Gender opts) = ''''
         then Inl (Errorf (''model: Person '' @ i @ '' has malformed gender''))
         else case range_error i ''birth'' (PO_Birth opts) of Some e \<Rightarrow> Inl e | None \<Rightarrow>
           (case range_error i ''death'' (PO_Death opts) of Some e \<Rightarrow> Inl e | None \<Rightarrow>
              Inr \<lparr>P_id = i, P_names = PO_Names opts, P_gender = PO_Gender opts,
                   P_birth = PO_Birth opts, P_death = PO_Death opts, P_notes = PO_Notes opts,
                   P_unknown = False\<rparr>)))"

definition NewUnknownAncestor :: "ID \<Rightarrow> error + Person" where
  "NewUnknownAncestor i =
     (if ID_IsZero i then Inl (Errorf ''model: unknown-ancestor ID is required'')
      else Inr \<lparr>P_id = i, P_names = [], P_gender = GenderUnset, P_birth = zero_TimeRange,
                P_death = zero_TimeRange, P_notes = '''', P_unknown = True\<rparr>)"

text \<open>The loop of \<open>PreferredName\<close>, then its two fallbacks.\<close>

definition PreferredName :: "Person \<Rightarrow> Name" where
  "PreferredName p =
     (case find Name_Preferred (P_names p) of
        Some n \<Rightarrow> n
      | None \<Rightarrow> (case P_names p of n # _ \<Rightarrow> n | [] \<Rightarrow> zero_Name))"

definition Person_String :: "Person \<Rightarrow> string" where
  "Person_String p =
     (if P_unknown p then ''Person<'' @ P_id p @ '',unknown-ancestor>''
      else ''Person<'' @ P_id p @ '','' @ Name_Text (PreferredName p) @ ''>'')"

text \<open>What the two constructors guarantee.\<close>

definition range_ok :: "TimeRange \<Rightarrow> bool" where
  "range_ok r \<longleftrightarrow> TimeRange_IsZero r \<or> bounds_ordered (Earliest r) (Latest r)"

definition gender_ok :: "Gender \<Rightarrow> bool" where
  "gender_ok g \<longleftrightarrow> g = GenderUnset \<or> trim_space g \<noteq> ''''"

definition Person_wf :: "Person \<Rightarrow> bool" where
  "Person_wf p \<longleftrightarrow>
     P_id p \<noteq> '''' \<and>
     (if P_unknown p
      then P_names p = [] \<and> P_gender p = GenderUnset \<and> P_birth p = zero_TimeRange \<and>
           P_death p = zero_TimeRange \<and> P_notes p = ''''
      else P_names p \<noteq> [] \<and> (\<forall>n \<in> set (P_names p). trim_space (Name_Text n) \<noteq> '''') \<and>
           gender_ok (P_gender p) \<and> range_ok (P_birth p) \<and> range_ok (P_death p))"

lemma blank_name_error_None:
  "blank_name_error i k ns = None \<longleftrightarrow> (\<forall>n \<in> set ns. trim_space (Name_Text n) \<noteq> '''')"
  by (induction ns arbitrary: k) auto

lemma range_error_None: "range_error i f r = None \<longleftrightarrow> range_ok r"
proof (cases "NewTimeRange (Earliest r) (Latest r) (TR_Calendar r) (Circa r)")
  case (Inl e)
  then have "\<not> bounds_ordered (Earliest r) (Latest r)"
    by (metis NewTimeRange_Inr sum.distinct(1))
  with Inl show ?thesis by (simp add: range_error_def range_ok_def)
next
  case (Inr r')
  then have "bounds_ordered (Earliest r) (Latest r)" by (simp add: NewTimeRange_Inr)
  with Inr show ?thesis by (simp add: range_error_def range_ok_def)
qed

lemma core_gender_visible: "Gender_IsCore g \<Longrightarrow> trim_space g = g \<and> g \<noteq> ''''"
  by (auto simp: Gender_IsCore_def GenderMale_def GenderFemale_def GenderUnknown_def
      trim_space_visible visible_def)

lemma gender_check:
  "g \<noteq> GenderUnset \<and> \<not> Gender_IsCore g \<and> trim_space g = '''' \<longleftrightarrow> \<not> gender_ok g"
  using core_gender_visible [of g] by (auto simp: gender_ok_def)

lemma NewPerson_Inr:
  "NewPerson i opts = Inr p \<longleftrightarrow>
     i \<noteq> '''' \<and> PO_Names opts \<noteq> [] \<and>
     list_all (\<lambda>n. trim_space (Name_Text n) \<noteq> '''') (PO_Names opts) \<and>
     gender_ok (PO_Gender opts) \<and> range_ok (PO_Birth opts) \<and> range_ok (PO_Death opts) \<and>
     p = \<lparr>P_id = i, P_names = PO_Names opts, P_gender = PO_Gender opts, P_birth = PO_Birth opts,
          P_death = PO_Death opts, P_notes = PO_Notes opts, P_unknown = False\<rparr>"
proof -
  have names: "list_all (\<lambda>n. trim_space (Name_Text n) \<noteq> '''') (PO_Names opts) \<longleftrightarrow>
        blank_name_error i 0 (PO_Names opts) = None"
    by (simp add: list_all_iff blank_name_error_None)
  note ranges = range_error_None [of i "''birth''" "PO_Birth opts", symmetric]
    range_error_None [of i "''death''" "PO_Death opts", symmetric]
  show ?thesis
    unfolding NewPerson_def gender_check names ranges
    by (auto split: option.split)
qed

text \<open>
  \<open>NewPerson\<close> returns a person exactly when the id is set, there is a name, no name is blank,
  the gender is unset or not blank, and both time ranges are absent or ordered; the person then
  carries the options unchanged and is not a placeholder. Every other input is an error.
\<close>

theorem NewPerson_iff:
  "NewPerson i opts = Inr p \<longleftrightarrow>
     i \<noteq> '''' \<and> PO_Names opts \<noteq> [] \<and>
     list_all (\<lambda>n. trim_space (Name_Text n) \<noteq> '''') (PO_Names opts) \<and>
     gender_ok (PO_Gender opts) \<and> range_ok (PO_Birth opts) \<and> range_ok (PO_Death opts) \<and>
     p = \<lparr>P_id = i, P_names = PO_Names opts, P_gender = PO_Gender opts, P_birth = PO_Birth opts,
          P_death = PO_Death opts, P_notes = PO_Notes opts, P_unknown = False\<rparr>"
  by (rule NewPerson_Inr)

lemma NewPerson_wf [wf_intros]: "NewPerson i opts = Inr p \<Longrightarrow> Person_wf p"
  unfolding NewPerson_Inr by (simp add: Person_wf_def list_all_iff)

lemma NewUnknownAncestor_Inr:
  "NewUnknownAncestor i = Inr p \<longleftrightarrow> i \<noteq> '''' \<and>
     p = \<lparr>P_id = i, P_names = [], P_gender = GenderUnset, P_birth = zero_TimeRange,
          P_death = zero_TimeRange, P_notes = '''', P_unknown = True\<rparr>"
  by (auto simp: NewUnknownAncestor_def)

lemma NewUnknownAncestor_wf [wf_intros]: "NewUnknownAncestor i = Inr p \<Longrightarrow> Person_wf p"
  by (auto simp: NewUnknownAncestor_Inr Person_wf_def)


section \<open>Relationships\<close>

type_synonym RelationshipType = "8 word"

definition RelTypeParentChild :: RelationshipType where [go_consts]: "RelTypeParentChild = 1"
definition RelTypeMarriage :: RelationshipType where [go_consts]: "RelTypeMarriage = 2"

definition RelationshipType_IsValid :: "RelationshipType \<Rightarrow> bool" where
  "RelationshipType_IsValid t \<longleftrightarrow> t = RelTypeParentChild \<or> t = RelTypeMarriage"

definition RelationshipType_String :: "RelationshipType \<Rightarrow> string" where
  "RelationshipType_String t =
     (if t = RelTypeParentChild then ''ParentChild''
      else if t = RelTypeMarriage then ''Marriage''
      else ''RelationshipType('' @ show_int (uint t) @ '')'')"

definition IsDirected :: "RelationshipType \<Rightarrow> bool" where
  "IsDirected t \<longleftrightarrow> t = RelTypeParentChild"

record Relationship =
  R_id :: ID
  R_from :: ID
  R_to :: ID
  R_type :: RelationshipType
  R_certainty :: Certainty
  R_continuity :: Continuity
  R_timeRange :: TimeRange
  R_notes :: string
  R_sources :: "ID list"

record RelationshipOptions =
  RO_TimeRange :: TimeRange
  RO_Notes :: string
  RO_Sources :: "ID list"

definition NewRelationship ::
    "ID \<Rightarrow> ID \<Rightarrow> ID \<Rightarrow> RelationshipType \<Rightarrow> Certainty \<Rightarrow> Continuity \<Rightarrow> RelationshipOptions
     \<Rightarrow> error + Relationship" where
  "NewRelationship i from to relType cert cont opts =
     (if ID_IsZero i then Inl (Errorf ''model: Relationship ID is required'')
      else if ID_IsZero from \<or> ID_IsZero to
      then Inl (Errorf (''model: Relationship '' @ i @ '' requires both endpoints''))
      else if from = to
      then Inl (Errorf (''model: Relationship '' @ i @ '' endpoints must differ''))
      else if \<not> RelationshipType_IsValid relType
      then Inl (Errorf (''model: Relationship '' @ i @ '' has invalid type ''
                        @ RelationshipType_String relType))
      else if \<not> Certainty_IsValid cert
      then Inl (Errorf (''model: Relationship '' @ i @ '' has invalid certainty ''
                        @ Certainty_String cert))
      else if \<not> Continuity_IsValid cont
      then Inl (Errorf (''model: Relationship '' @ i @ '' has invalid continuity ''
                        @ Continuity_String cont))
      else if Continuity_IsGapped cont \<and> relType \<noteq> RelTypeParentChild
      then Inl (Errorf (''model: Relationship '' @ i @
                  '': Gapped continuity is only valid on ParentChild edges''))
      else Inr \<lparr>R_id = i, R_from = from, R_to = to, R_type = relType, R_certainty = cert,
                R_continuity = cont, R_timeRange = RO_TimeRange opts, R_notes = RO_Notes opts,
                R_sources = RO_Sources opts\<rparr>)"

definition unknownGapSentinel :: int where
  "unknownGapSentinel = 1000000"

definition GapWeight :: "Relationship \<Rightarrow> int" where
  "GapWeight r =
     (if R_type r = RelTypeMarriage then 0
      else if \<not> Continuity_IsGapped (R_continuity r) then 1
      else if KnownSize (Cont_Gap (R_continuity r))
      then wrap64 (Gap_Size (Cont_Gap (R_continuity r)) + 1)
      else unknownGapSentinel)"

definition Relationship_String :: "Relationship \<Rightarrow> string" where
  "Relationship_String r =
     ''Rel<'' @ R_id r @ '', '' @ RelationshipType_String (R_type r) @ '': '' @ R_from r @ '' -> ''
     @ R_to r @ '', '' @ Certainty_String (R_certainty r) @ '', ''
     @ Continuity_String (R_continuity r) @ ''>''"

definition is_pc :: "Relationship \<Rightarrow> bool" where
  "is_pc r \<longleftrightarrow> R_type r = RelTypeParentChild"

text \<open>The rules of an edge, over the arguments of the constructor.\<close>

definition edge_ok ::
    "ID \<Rightarrow> ID \<Rightarrow> ID \<Rightarrow> RelationshipType \<Rightarrow> Certainty \<Rightarrow> Continuity \<Rightarrow> bool" where
  "edge_ok i from to t cert cont \<longleftrightarrow>
     i \<noteq> '''' \<and> from \<noteq> '''' \<and> to \<noteq> '''' \<and> from \<noteq> to \<and> RelationshipType_IsValid t \<and>
     Certainty_IsValid cert \<and> Continuity_IsValid cont \<and>
     (Continuity_IsGapped cont \<longrightarrow> t = RelTypeParentChild)"

definition Relationship_wf :: "Relationship \<Rightarrow> bool" where
  "Relationship_wf r \<longleftrightarrow>
     edge_ok (R_id r) (R_from r) (R_to r) (R_type r) (R_certainty r) (R_continuity r)"

lemma NewRelationship_Inr:
  "NewRelationship i from to t cert cont opts = Inr r \<longleftrightarrow>
     edge_ok i from to t cert cont \<and>
     r = \<lparr>R_id = i, R_from = from, R_to = to, R_type = t, R_certainty = cert,
          R_continuity = cont, R_timeRange = RO_TimeRange opts, R_notes = RO_Notes opts,
          R_sources = RO_Sources opts\<rparr>"
  by (simp add: NewRelationship_def edge_ok_def eq_commute)

text \<open>
  \<open>NewRelationship\<close> returns an edge exactly when the id and both endpoints are set, the
  endpoints differ, the type, the certainty and the continuity are valid, and a gap is on a
  parent-child edge only; the edge then carries the arguments and the options unchanged (the
  optional time range is not checked at all).
\<close>

theorem NewRelationship_iff:
  "NewRelationship i from to t cert cont opts = Inr r \<longleftrightarrow>
     edge_ok i from to t cert cont \<and>
     r = \<lparr>R_id = i, R_from = from, R_to = to, R_type = t, R_certainty = cert,
          R_continuity = cont, R_timeRange = RO_TimeRange opts, R_notes = RO_Notes opts,
          R_sources = RO_Sources opts\<rparr>"
  by (rule NewRelationship_Inr)

lemma NewRelationship_wf [wf_intros]:
  "NewRelationship i f t ty c k opts = Inr r \<Longrightarrow> Relationship_wf r"
  unfolding NewRelationship_Inr by (simp add: Relationship_wf_def)

lemma Relationship_wfD [wf_dests]:
  assumes "Relationship_wf r"
  shows "R_id r \<noteq> ''''" "R_from r \<noteq> ''''" "R_to r \<noteq> ''''" "R_from r \<noteq> R_to r"
    "RelationshipType_IsValid (R_type r)" "Certainty_IsValid (R_certainty r)"
    "Continuity_IsValid (R_continuity r)"
  using assms by (simp_all add: Relationship_wf_def edge_ok_def)


text \<open>A concrete parent-child edge with a known gap of two generations.\<close>

definition gap2_edge :: Relationship where
  "gap2_edge = \<lparr>R_id = ''r'', R_from = ''p'', R_to = ''c'', R_type = RelTypeParentChild,
     R_certainty = CertaintyProbable,
     R_continuity = NewGapped \<lparr>KnownSize = True, Gap_Size = 2\<rparr>,
     R_timeRange = zero_TimeRange, R_notes = '''', R_sources = []\<rparr>"

lemma gap2_edge_wf: "Relationship_wf gap2_edge"
  by (simp add: gap2_edge_def Relationship_wf_def edge_ok_def RelationshipType_IsValid_def
      Certainty_IsValid_def Continuity_IsValid_def ContinuityState_IsValid_def NewGapped_def)



section \<open>Sources\<close>

type_synonym SourceType = string

definition SourceTypePrimary :: SourceType where "SourceTypePrimary = ''primary''"
definition SourceTypeSecondary :: SourceType where "SourceTypeSecondary = ''secondary''"
definition SourceTypeOral :: SourceType where "SourceTypeOral = ''oral''"
definition SourceTypeDerived :: SourceType where "SourceTypeDerived = ''derived''"
definition SourceTypeOther :: SourceType where "SourceTypeOther = ''other''"

definition SourceType_IsCore :: "SourceType \<Rightarrow> bool" where
  "SourceType_IsCore t \<longleftrightarrow> t = SourceTypePrimary \<or> t = SourceTypeSecondary \<or> t = SourceTypeOral \<or>
     t = SourceTypeDerived \<or> t = SourceTypeOther"

record Source =
  S_id :: ID
  S_type :: SourceType
  S_citation :: string
  S_author :: string
  S_title :: string
  S_date :: string
  S_locator :: string
  S_notes :: string

record SourceOptions =
  SO_Author :: string
  SO_Title :: string
  SO_Date :: string
  SO_Locator :: string
  SO_Notes :: string

definition NewSource :: "ID \<Rightarrow> SourceType \<Rightarrow> string \<Rightarrow> SourceOptions \<Rightarrow> error + Source" where
  "NewSource i t citation opts =
     (if ID_IsZero i then Inl (Errorf ''model: Source ID is required'')
      else if trim_space citation = ''''
      then Inl (Errorf (''model: Source '' @ i @ '' citation must not be empty''))
      else
        let t' = (if t = '''' then SourceTypeOther else t) in
        if \<not> SourceType_IsCore t' \<and> trim_space t' = ''''
        then Inl (Errorf (''model: Source '' @ i @ '' has malformed type''))
        else Inr \<lparr>S_id = i, S_type = t', S_citation = citation, S_author = SO_Author opts,
                  S_title = SO_Title opts, S_date = SO_Date opts, S_locator = SO_Locator opts,
                  S_notes = SO_Notes opts\<rparr>)"

definition Source_String :: "Source \<Rightarrow> string" where
  "Source_String s = ''Source<'' @ S_id s @ '','' @ S_type s @ ''>''"

definition Source_wf :: "Source \<Rightarrow> bool" where
  "Source_wf s \<longleftrightarrow> S_id s \<noteq> '''' \<and> trim_space (S_citation s) \<noteq> '''' \<and> trim_space (S_type s) \<noteq> ''''"

lemma core_source_visible: "SourceType_IsCore t \<Longrightarrow> trim_space t = t \<and> t \<noteq> ''''"
  by (auto simp: SourceType_IsCore_def SourceTypePrimary_def SourceTypeSecondary_def
      SourceTypeOral_def SourceTypeDerived_def SourceTypeOther_def trim_space_visible visible_def)

lemma NewSource_wf [wf_intros]: "NewSource i t c opts = Inr s \<Longrightarrow> Source_wf s"
  using core_source_visible [of "S_type s"]
  by (auto simp: NewSource_def Source_wf_def Let_def split: if_splits)

text \<open>The constructor leaves a well-formed source as it is.\<close>

lemma NewSource_fixed:
  "Source_wf s \<Longrightarrow>
   NewSource (S_id s) (S_type s) (S_citation s)
     \<lparr>SO_Author = S_author s, SO_Title = S_title s, SO_Date = S_date s, SO_Locator = S_locator s,
      SO_Notes = S_notes s\<rparr> = Inr s"
  by (cases s) (auto simp: NewSource_def Source_wf_def Let_def)

end
