(* ===== verification/Proposals.thy ===== *)
theory Proposals
  imports Entities
begin

text \<open>
  Proposals (src/model/proposal.go): the states, actions and entity kinds, the proposal record
  with its audit history, the validating constructor \<open>NewProposal\<close>, and the unchecked state
  change \<open>withState\<close> on which package \<open>governance\<close> and the storage adapters build.
\<close>

section \<open>States, actions, kinds\<close>

type_synonym ProposalState = "8 word"

definition ProposalDraft :: ProposalState where [go_consts]: "ProposalDraft = 1"
definition ProposalSubmitted :: ProposalState where [go_consts]: "ProposalSubmitted = 2"
definition ProposalUnderReview :: ProposalState where [go_consts]: "ProposalUnderReview = 3"
definition ProposalAccepted :: ProposalState where [go_consts]: "ProposalAccepted = 4"
definition ProposalRejected :: ProposalState where [go_consts]: "ProposalRejected = 5"
definition ProposalWithdrawn :: ProposalState where [go_consts]: "ProposalWithdrawn = 6"

definition ProposalState_IsValid :: "ProposalState \<Rightarrow> bool" where
  "ProposalState_IsValid s \<longleftrightarrow> ProposalDraft \<le> s \<and> s \<le> ProposalWithdrawn"

definition IsTerminal :: "ProposalState \<Rightarrow> bool" where
  "IsTerminal s \<longleftrightarrow> s = ProposalAccepted \<or> s = ProposalRejected \<or> s = ProposalWithdrawn"

definition ProposalState_String :: "ProposalState \<Rightarrow> string" where
  "ProposalState_String s =
     (if s = ProposalDraft then ''Draft''
      else if s = ProposalSubmitted then ''Submitted''
      else if s = ProposalUnderReview then ''UnderReview''
      else if s = ProposalAccepted then ''Accepted''
      else if s = ProposalRejected then ''Rejected''
      else if s = ProposalWithdrawn then ''Withdrawn''
      else ''ProposalState('' @ show_int (uint s) @ '')'')"

type_synonym ProposalAction = "8 word"

definition ProposalActionCreate :: ProposalAction where [go_consts]: "ProposalActionCreate = 1"
definition ProposalActionUpdate :: ProposalAction where [go_consts]: "ProposalActionUpdate = 2"
definition ProposalActionRetract :: ProposalAction where [go_consts]: "ProposalActionRetract = 3"
definition ProposalActionMerge :: ProposalAction where [go_consts]: "ProposalActionMerge = 4"
definition ProposalActionSameAsLink :: ProposalAction where
  [go_consts]: "ProposalActionSameAsLink = 5"

definition ProposalAction_IsValid :: "ProposalAction \<Rightarrow> bool" where
  "ProposalAction_IsValid a \<longleftrightarrow> ProposalActionCreate \<le> a \<and> a \<le> ProposalActionSameAsLink"

definition ProposalAction_String :: "ProposalAction \<Rightarrow> string" where
  "ProposalAction_String a =
     (if a = ProposalActionCreate then ''Create''
      else if a = ProposalActionUpdate then ''Update''
      else if a = ProposalActionRetract then ''Retract''
      else if a = ProposalActionMerge then ''Merge''
      else if a = ProposalActionSameAsLink then ''SameAsLink''
      else ''ProposalAction('' @ show_int (uint a) @ '')'')"

type_synonym EntityKind = "8 word"

definition EntityKindPerson :: EntityKind where [go_consts]: "EntityKindPerson = 1"
definition EntityKindRelationship :: EntityKind where [go_consts]: "EntityKindRelationship = 2"
definition EntityKindSource :: EntityKind where [go_consts]: "EntityKindSource = 3"

definition EntityKind_IsValid :: "EntityKind \<Rightarrow> bool" where
  "EntityKind_IsValid k \<longleftrightarrow> EntityKindPerson \<le> k \<and> k \<le> EntityKindSource"

definition EntityKind_String :: "EntityKind \<Rightarrow> string" where
  "EntityKind_String k =
     (if k = EntityKindPerson then ''Person''
      else if k = EntityKindRelationship then ''Relationship''
      else if k = EntityKindSource then ''Source''
      else ''EntityKind('' @ show_int (uint k) @ '')'')"


section \<open>Proposals\<close>

record ProposalTransition =
  T_From :: ProposalState
  T_To :: ProposalState
  T_Actor :: string
  T_Timestamp :: int
  T_Reason :: string

record Proposal =
  Q_id :: ID
  Q_state :: ProposalState
  Q_action :: ProposalAction
  Q_entityKind :: EntityKind
  Q_targetID :: ID
  Q_secondaryID :: ID
  Q_payload :: string
  Q_reason :: string
  Q_sources :: "ID list"
  Q_author :: string
  Q_createdAt :: int
  Q_history :: "ProposalTransition list"

record ProposalOptions =
  QO_TargetID :: ID
  QO_SecondaryID :: ID
  QO_Payload :: string
  QO_Reason :: string
  QO_Sources :: "ID list"
  QO_Author :: string
  QO_CreatedAt :: int

text \<open>The \<open>switch action\<close> of \<open>NewProposal\<close>: the first rule that is broken, if any.\<close>

definition target_error ::
    "ID \<Rightarrow> ProposalAction \<Rightarrow> EntityKind \<Rightarrow> ID \<Rightarrow> ID \<Rightarrow> error option" where
  "target_error i action kind target secondary =
     (if action = ProposalActionUpdate \<or> action = ProposalActionRetract then
        (if ID_IsZero target
         then Some (Errorf (''model: Proposal '' @ i @ '' with action ''
                @ ProposalAction_String action @ '' requires TargetID''))
         else None)
      else if action = ProposalActionMerge \<or> action = ProposalActionSameAsLink then
        (if kind \<noteq> EntityKindPerson
         then Some (Errorf (''model: Proposal '' @ i @ '' action ''
                @ ProposalAction_String action @ '' requires EntityKindPerson''))
         else if ID_IsZero target \<or> ID_IsZero secondary
         then Some (Errorf (''model: Proposal '' @ i @ '' action ''
                @ ProposalAction_String action @ '' requires TargetID and SecondaryID''))
         else if target = secondary
         then Some (Errorf (''model: Proposal '' @ i @ '' action ''
                @ ProposalAction_String action @ '': TargetID and SecondaryID must differ''))
         else None)
      else None)"

definition NewProposal ::
    "ID \<Rightarrow> ProposalAction \<Rightarrow> EntityKind \<Rightarrow> ProposalOptions \<Rightarrow> error + Proposal" where
  "NewProposal i action kind opts =
     (if ID_IsZero i then Inl (Errorf ''model: Proposal ID is required'')
      else if \<not> ProposalAction_IsValid action
      then Inl (Errorf (''model: Proposal '' @ i @ '' has invalid action ''
                        @ ProposalAction_String action))
      else if \<not> EntityKind_IsValid kind
      then Inl (Errorf (''model: Proposal '' @ i @ '' has invalid entity kind ''
                        @ EntityKind_String kind))
      else case target_error i action kind (QO_TargetID opts) (QO_SecondaryID opts) of
        Some e \<Rightarrow> Inl e
      | None \<Rightarrow> Inr \<lparr>Q_id = i, Q_state = ProposalDraft, Q_action = action, Q_entityKind = kind,
          Q_targetID = QO_TargetID opts, Q_secondaryID = QO_SecondaryID opts,
          Q_payload = QO_Payload opts, Q_reason = QO_Reason opts, Q_sources = QO_Sources opts,
          Q_author = QO_Author opts, Q_createdAt = QO_CreatedAt opts, Q_history = []\<rparr>)"

definition withState :: "Proposal \<Rightarrow> ProposalState \<Rightarrow> ProposalTransition \<Rightarrow> Proposal" where
  "withState p s tr = p\<lparr>Q_state := s, Q_history := Q_history p @ [tr]\<rparr>"

definition WithStateUnchecked ::
    "Proposal \<Rightarrow> ProposalState \<Rightarrow> ProposalTransition \<Rightarrow> Proposal" where
  "WithStateUnchecked p s tr = withState p s tr"

definition Proposal_String :: "Proposal \<Rightarrow> string" where
  "Proposal_String p =
     ''Proposal<'' @ Q_id p @ '','' @ ProposalState_String (Q_state p) @ '',''
     @ ProposalAction_String (Q_action p) @ '','' @ EntityKind_String (Q_entityKind p) @ ''>''"


section \<open>Well-formed proposals\<close>

text \<open>The rules on the targets, and on the whole intent of a proposal.\<close>

definition target_ok :: "ProposalAction \<Rightarrow> EntityKind \<Rightarrow> ID \<Rightarrow> ID \<Rightarrow> bool" where
  "target_ok a k t s \<longleftrightarrow>
     (a \<in> {ProposalActionUpdate, ProposalActionRetract} \<longrightarrow> t \<noteq> '''') \<and>
     (a \<in> {ProposalActionMerge, ProposalActionSameAsLink} \<longrightarrow>
        k = EntityKindPerson \<and> t \<noteq> '''' \<and> s \<noteq> '''' \<and> t \<noteq> s)"

definition intent_ok :: "Proposal \<Rightarrow> bool" where
  "intent_ok p \<longleftrightarrow> Q_id p \<noteq> '''' \<and> ProposalAction_IsValid (Q_action p) \<and>
     EntityKind_IsValid (Q_entityKind p) \<and>
     target_ok (Q_action p) (Q_entityKind p) (Q_targetID p) (Q_secondaryID p)"

lemma target_error_None: "target_error i a k t s = None \<longleftrightarrow> target_ok a k t s"
  by (auto simp: target_error_def target_ok_def go_consts)

lemma NewProposal_Inr:
  "NewProposal i a k opts = Inr p \<longleftrightarrow>
     i \<noteq> '''' \<and> ProposalAction_IsValid a \<and> EntityKind_IsValid k \<and>
     target_ok a k (QO_TargetID opts) (QO_SecondaryID opts) \<and>
     p = \<lparr>Q_id = i, Q_state = ProposalDraft, Q_action = a, Q_entityKind = k,
          Q_targetID = QO_TargetID opts, Q_secondaryID = QO_SecondaryID opts,
          Q_payload = QO_Payload opts, Q_reason = QO_Reason opts, Q_sources = QO_Sources opts,
          Q_author = QO_Author opts, Q_createdAt = QO_CreatedAt opts, Q_history = []\<rparr>"
  unfolding NewProposal_def target_error_None [symmetric, of _ _ _ _ i]
  by (auto split: option.split)

lemma NewProposal_intent [wf_intros]: "NewProposal i a k opts = Inr p \<Longrightarrow> intent_ok p"
  by (simp add: NewProposal_Inr intent_ok_def)

lemma NewProposal_draft:
  "NewProposal i a k opts = Inr p \<Longrightarrow> Q_state p = ProposalDraft \<and> Q_history p = [] \<and> Q_id p = i"
  by (simp add: NewProposal_Inr)

lemma withState_simps [simp]:
  "Q_id (WithStateUnchecked p s tr) = Q_id p"
  "Q_state (WithStateUnchecked p s tr) = s"
  "Q_action (WithStateUnchecked p s tr) = Q_action p"
  "Q_entityKind (WithStateUnchecked p s tr) = Q_entityKind p"
  "Q_targetID (WithStateUnchecked p s tr) = Q_targetID p"
  "Q_secondaryID (WithStateUnchecked p s tr) = Q_secondaryID p"
  "Q_payload (WithStateUnchecked p s tr) = Q_payload p"
  "Q_history (WithStateUnchecked p s tr) = Q_history p @ [tr]"
  by (simp_all add: WithStateUnchecked_def withState_def)

lemma intent_ok_withState [simp]: "intent_ok (WithStateUnchecked p s tr) = intent_ok p"
  by (simp add: intent_ok_def)

lemma ProposalState_valid_iff:
  "ProposalState_IsValid s \<longleftrightarrow>
     s \<in> {ProposalDraft, ProposalSubmitted, ProposalUnderReview, ProposalAccepted,
          ProposalRejected, ProposalWithdrawn}"
proof -
  have "ProposalState_IsValid s \<longleftrightarrow> unat s \<in> {1, 2, 3, 4, 5, 6}"
    by (auto simp: ProposalState_IsValid_def go_consts word_le_nat_alt)
  moreover have "unat s = k \<longleftrightarrow> s = of_nat k" if "k < 256" for k
    using that by (auto simp: word_unat_eq_iff unat_of_nat)
  ultimately show ?thesis by (simp add: go_consts)
qed

end
