(* ===== verification/Lifecycle.thy ===== *)
theory Lifecycle
  imports Proposals
begin

text \<open>
  The proposal state machine (src/governance/statemachine.go): the table of allowed
  transitions, \<open>CanTransition\<close>, and \<open>Transition\<close>, which checks a transition and records it in the
  audit history. \<open>proposal_step\<close> is the step relation that \<open>Transition\<close> induces and \<open>lifecycle\<close>
  the proposals it reaches from a new draft; the audit history of such a proposal is a path
  through the table that ends in its state.
\<close>

section \<open>The table and the checked transition\<close>

definition allowedTransitions ::
    "(ProposalState, (ProposalState, bool) gomap) gomap" where
  "allowedTransitions =
     [(ProposalDraft, [(ProposalSubmitted, True), (ProposalWithdrawn, True)]),
      (ProposalSubmitted, [(ProposalUnderReview, True), (ProposalWithdrawn, True)]),
      (ProposalUnderReview,
         [(ProposalAccepted, True), (ProposalRejected, True), (ProposalWithdrawn, True)])]"

text \<open>A missing key reads as the zero value: the nil map, and false.\<close>

definition CanTransition :: "ProposalState \<Rightarrow> ProposalState \<Rightarrow> bool" where
  "CanTransition from to =
     (if \<not> ProposalState_IsValid from \<or> \<not> ProposalState_IsValid to then False
      else if IsTerminal from then False
      else case gm_get allowedTransitions from of
        None \<Rightarrow> False
      | Some row \<Rightarrow> (case gm_get row to of None \<Rightarrow> False | Some b \<Rightarrow> b))"

definition Transition ::
    "Proposal \<Rightarrow> ProposalState \<Rightarrow> string \<Rightarrow> int \<Rightarrow> string \<Rightarrow> error + Proposal" where
  "Transition p to actor timestamp reason =
     (let from = Q_state p in
      if \<not> CanTransition from to then
        (if IsTerminal from
         then Inl (New CodeImmutableTerminalProposal
                (''proposal '' @ Q_id p @ '' is in terminal state '' @ ProposalState_String from))
         else Inl (New CodeInvalidTransition
                (''proposal '' @ Q_id p @ '': transition '' @ ProposalState_String from @ '' -> ''
                 @ ProposalState_String to @ '' is not allowed'')))
      else if to = ProposalRejected \<and> reason = ''''
      then Inl (New CodeInvalidArgument
             (''proposal '' @ Q_id p @ '': rejection requires a non-empty reason''))
      else Inr (WithStateUnchecked p to
             \<lparr>T_From = from, T_To = to, T_Actor = actor, T_Timestamp = timestamp,
              T_Reason = reason\<rparr>))"


section \<open>The table as a relation\<close>

lemma CanTransition_cases:
  "CanTransition from to \<longleftrightarrow>
     (from = ProposalDraft \<and> to \<in> {ProposalSubmitted, ProposalWithdrawn}) \<or>
     (from = ProposalSubmitted \<and> to \<in> {ProposalUnderReview, ProposalWithdrawn}) \<or>
     (from = ProposalUnderReview \<and>
        to \<in> {ProposalAccepted, ProposalRejected, ProposalWithdrawn})"
  unfolding CanTransition_def ProposalState_valid_iff
  by (auto simp: allowedTransitions_def gm_get_def IsTerminal_def go_consts split: if_splits)

lemma Transition_Inr:
  "Transition p to actor ts reason = Inr q \<longleftrightarrow>
     CanTransition (Q_state p) to \<and> (to = ProposalRejected \<longrightarrow> reason \<noteq> '''') \<and>
     q = WithStateUnchecked p to
           \<lparr>T_From = Q_state p, T_To = to, T_Actor = actor, T_Timestamp = ts, T_Reason = reason\<rparr>"
  by (auto simp: Transition_def Let_def)

lemma Transition_total:
  "\<exists>r. Transition p to actor ts reason = r \<and>
     (case r of Inl e \<Rightarrow> HasCode e CodeImmutableTerminalProposal \<or>
        HasCode e CodeInvalidTransition \<or> HasCode e CodeInvalidArgument
      | Inr q \<Rightarrow> Q_id q = Q_id p \<and> Q_state q = to)"
  by (auto simp: Transition_def Let_def)


section \<open>Lifecycles\<close>

inductive proposal_step :: "Proposal \<Rightarrow> Proposal \<Rightarrow> bool" where
  step: "Transition p to actor ts reason = Inr q \<Longrightarrow> proposal_step p q"

inductive lifecycle :: "Proposal \<Rightarrow> bool" where
  draft: "NewProposal i a k opts = Inr p \<Longrightarrow> lifecycle p"
| move: "lifecycle p \<Longrightarrow> proposal_step p q \<Longrightarrow> lifecycle q"

inductive_cases proposal_stepE: "proposal_step p q"

text \<open>An audit history as a path through the table: it starts in Draft and ends in \<open>s\<close>.\<close>

fun audit_path :: "ProposalState \<Rightarrow> ProposalTransition list \<Rightarrow> ProposalState \<Rightarrow> bool" where
  "audit_path s [] t \<longleftrightarrow> s = t"
| "audit_path s (tr # trs) t \<longleftrightarrow>
     T_From tr = s \<and> CanTransition s (T_To tr) \<and>
     (T_To tr = ProposalRejected \<longrightarrow> T_Reason tr \<noteq> '''') \<and> audit_path (T_To tr) trs t"

lemma audit_path_snoc:
  "audit_path s (trs @ [tr]) t \<longleftrightarrow>
     (\<exists>u. audit_path s trs u \<and> T_From tr = u \<and> CanTransition u (T_To tr) \<and>
        (T_To tr = ProposalRejected \<longrightarrow> T_Reason tr \<noteq> '''') \<and> T_To tr = t)"
  by (induction trs arbitrary: s) auto

definition audited :: "Proposal \<Rightarrow> bool" where
  "audited p \<longleftrightarrow> intent_ok p \<and> audit_path ProposalDraft (Q_history p) (Q_state p)"

lemma audited_step:
  assumes "audited p" and "Transition p to actor ts reason = Inr q"
  shows "audited q"
  using assms by (auto simp: audited_def Transition_Inr audit_path_snoc)

lemma lifecycle_audited: "lifecycle p \<Longrightarrow> audited p"
proof (induction rule: lifecycle.induct)
  case (draft i a k opts p)
  then show ?case
    by (simp add: audited_def NewProposal_intent NewProposal_draft)
next
  case (move p q)
  then show ?case by (auto elim!: proposal_stepE intro: audited_step)
qed

text \<open>Every audit path is one of eight: at most three moves, and none from a terminal state.\<close>

lemma CanTransition_not_terminal: "CanTransition s t \<Longrightarrow> \<not> IsTerminal s"
  by (simp add: CanTransition_def split: if_splits)

lemma audit_path_terminal: "audit_path s trs t \<Longrightarrow> IsTerminal s \<Longrightarrow> trs = [] \<and> t = s"
  by (cases trs) (auto dest: CanTransition_not_terminal)

lemma terminals [simp]:
  "IsTerminal ProposalAccepted" "IsTerminal ProposalRejected" "IsTerminal ProposalWithdrawn"
  "\<not> IsTerminal ProposalDraft" "\<not> IsTerminal ProposalSubmitted" "\<not> IsTerminal ProposalUnderReview"
  by (simp_all add: IsTerminal_def go_consts)

lemma states_distinct [simp]:
  "distinct [ProposalDraft, ProposalSubmitted, ProposalUnderReview, ProposalAccepted,
     ProposalRejected, ProposalWithdrawn]"
  by (simp add: go_consts)

lemma audit_path_review:
  assumes "audit_path ProposalUnderReview trs t"
  shows "(trs = [] \<and> t = ProposalUnderReview) \<or> (\<exists>tr. trs = [tr] \<and> T_To tr = t \<and>
    t \<in> {ProposalAccepted, ProposalRejected, ProposalWithdrawn} \<and>
    (t = ProposalRejected \<longrightarrow> T_Reason tr \<noteq> ''''))"
proof (cases trs)
  case (Cons tr trs')
  with assms have to: "T_To tr \<in> {ProposalAccepted, ProposalRejected, ProposalWithdrawn}"
    and path: "audit_path (T_To tr) trs' t" and "T_To tr = ProposalRejected \<longrightarrow> T_Reason tr \<noteq> ''''"
    using states_distinct by (auto simp: CanTransition_cases)
  from to have "IsTerminal (T_To tr)" by auto
  from audit_path_terminal [OF path this] to assms show ?thesis
    using Cons by auto
qed (use assms in simp)

lemma audit_path_submitted:
  assumes "audit_path ProposalSubmitted trs t"
  shows "(trs = [] \<and> t = ProposalSubmitted) \<or>
    (\<exists>tr. trs = [tr] \<and> T_To tr = t \<and> t = ProposalWithdrawn) \<or>
    (\<exists>tr trs'. trs = tr # trs' \<and> T_To tr = ProposalUnderReview \<and>
       audit_path ProposalUnderReview trs' t)"
proof (cases trs)
  case (Cons tr trs')
  with assms have "T_To tr \<in> {ProposalUnderReview, ProposalWithdrawn}"
    and path: "audit_path (T_To tr) trs' t"
    using states_distinct by (auto simp: CanTransition_cases)
  then show ?thesis
    using Cons audit_path_terminal [of ProposalWithdrawn trs' t] by auto
qed (use assms in simp)

lemma audit_path_draft:
  assumes "audit_path ProposalDraft trs t"
  shows "(trs = [] \<and> t = ProposalDraft) \<or>
    (\<exists>tr. trs = [tr] \<and> T_To tr = t \<and> t = ProposalWithdrawn) \<or>
    (\<exists>tr trs'. trs = tr # trs' \<and> T_To tr = ProposalSubmitted \<and>
       audit_path ProposalSubmitted trs' t)"
proof (cases trs)
  case (Cons tr trs')
  with assms have "T_To tr \<in> {ProposalSubmitted, ProposalWithdrawn}"
    and path: "audit_path (T_To tr) trs' t"
    using states_distinct by (auto simp: CanTransition_cases)
  then show ?thesis
    using Cons audit_path_terminal [of ProposalWithdrawn trs' t] by auto
qed (use assms in simp)

lemmas audit_shapes = audit_path_draft audit_path_submitted audit_path_review

lemma audit_path_accepted:
  "audit_path ProposalDraft trs ProposalAccepted \<Longrightarrow>
   map T_To trs = [ProposalSubmitted, ProposalUnderReview, ProposalAccepted]"
  using states_distinct by (fastforce dest!: audit_shapes)

lemma audit_path_rejected:
  "audit_path ProposalDraft trs ProposalRejected \<Longrightarrow>
   map T_To trs = [ProposalSubmitted, ProposalUnderReview, ProposalRejected] \<and>
   T_Reason (last trs) \<noteq> ''''"
  using states_distinct by (fastforce dest!: audit_shapes)

lemma audit_path_length: "audit_path ProposalDraft trs t \<Longrightarrow> length trs \<le> 3"
  by (fastforce dest!: audit_shapes)


section \<open>Properties\<close>

text \<open>
  A transition succeeds exactly when the table allows it and a rejection gives a reason; it
  then changes only the state and appends one history entry that names both states, the actor,
  the time and the reason.
\<close>

theorem Transition_iff:
  "Transition p to actor ts reason = Inr q \<longleftrightarrow>
     CanTransition (Q_state p) to \<and> \<not> (to = ProposalRejected \<and> reason = '''') \<and>
     q = p\<lparr>Q_state := to, Q_history := Q_history p @
           [\<lparr>T_From = Q_state p, T_To = to, T_Actor = actor, T_Timestamp = ts,
             T_Reason = reason\<rparr>]\<rparr>"
  by (auto simp: Transition_Inr WithStateUnchecked_def withState_def)

text \<open>
  A proposal in a terminal state is immutable: every transition of it fails with
  IMMUTABLE_TERMINAL_PROPOSAL.
\<close>

theorem terminal_immutable:
  assumes "IsTerminal (Q_state p)"
  shows "\<exists>e. Transition p to actor ts reason = Inl e \<and> HasCode e CodeImmutableTerminalProposal"
  using assms by (auto simp: Transition_def Let_def dest: CanTransition_not_terminal)

text \<open>A sample draft and the moves that accept it.\<close>

definition sample_draft :: Proposal where
  "sample_draft = \<lparr>Q_id = ''q1'', Q_state = ProposalDraft, Q_action = ProposalActionRetract,
     Q_entityKind = EntityKindPerson, Q_targetID = ''a'', Q_secondaryID = '''', Q_payload = '''',
     Q_reason = '''', Q_sources = [], Q_author = ''u'', Q_createdAt = 5, Q_history = []\<rparr>"

definition sample_move :: "Proposal \<Rightarrow> ProposalState \<Rightarrow> Proposal" where
  "sample_move p s = WithStateUnchecked p s
     \<lparr>T_From = Q_state p, T_To = s, T_Actor = ''u'', T_Timestamp = 7, T_Reason = ''ok''\<rparr>"

lemma sample_draft_new:
  "NewProposal ''q1'' ProposalActionRetract EntityKindPerson
     \<lparr>QO_TargetID = ''a'', QO_SecondaryID = '''', QO_Payload = '''', QO_Reason = '''',
      QO_Sources = [], QO_Author = ''u'', QO_CreatedAt = 5\<rparr> = Inr sample_draft"
  by (simp add: NewProposal_Inr sample_draft_def target_ok_def ProposalAction_IsValid_def
      EntityKind_IsValid_def go_consts)

lemma sample_draft_lifecycle: "lifecycle sample_draft"
  by (rule lifecycle.draft [OF sample_draft_new])

lemma sample_move_lifecycle:
  "lifecycle p \<Longrightarrow> CanTransition (Q_state p) s \<Longrightarrow> lifecycle (sample_move p s)"
  by (rule lifecycle.move [OF _ proposal_step.step [of p s "''u''" 7 "''ok''"]])
    (simp_all add: Transition_Inr sample_move_def)

definition sample_review :: Proposal where
  "sample_review = sample_move (sample_move sample_draft ProposalSubmitted) ProposalUnderReview"

lemma sample_review_lifecycle: "lifecycle sample_review" "Q_state sample_review = ProposalUnderReview"
  unfolding sample_review_def
  by (intro sample_move_lifecycle sample_draft_lifecycle)
    (simp_all add: sample_move_def CanTransition_cases sample_draft_def)

theorem terminal_immutable_witness:
  "\<exists>e. Transition (sample_move sample_review ProposalAccepted) ProposalDraft ''u'' 9 ''r'' = Inl e \<and>
       HasCode e CodeImmutableTerminalProposal"
  by (rule terminal_immutable) (simp add: sample_move_def)

text \<open>
  C7: along every lifecycle (a new draft moved by successful transitions) the audit history is a
  path through the table from Draft to the current state, it has at most three entries, an
  accepted proposal was submitted, reviewed and accepted in that order, and a rejected one was
  submitted, reviewed and rejected with a non-empty reason.
\<close>

theorem lifecycle_history:
  assumes "lifecycle p"
  shows "audit_path ProposalDraft (Q_history p) (Q_state p) \<and> length (Q_history p) \<le> 3 \<and>
    (Q_state p = ProposalAccepted \<longrightarrow>
       map T_To (Q_history p) = [ProposalSubmitted, ProposalUnderReview, ProposalAccepted]) \<and>
    (Q_state p = ProposalRejected \<longrightarrow>
       map T_To (Q_history p) = [ProposalSubmitted, ProposalUnderReview, ProposalRejected] \<and>
       T_Reason (last (Q_history p)) \<noteq> '''')"
proof -
  from assms have "audit_path ProposalDraft (Q_history p) (Q_state p)"
    using lifecycle_audited by (auto simp: audited_def)
  then show ?thesis
    using audit_path_length audit_path_accepted audit_path_rejected by metis
qed

theorem lifecycle_history_witness:
  "map T_To (Q_history (sample_move sample_review ProposalAccepted)) =
     [ProposalSubmitted, ProposalUnderReview, ProposalAccepted]"
proof -
  have "lifecycle (sample_move sample_review ProposalAccepted)"
    by (rule sample_move_lifecycle) (simp_all add: sample_review_lifecycle CanTransition_cases)
  from lifecycle_history [OF this] show ?thesis by (simp add: sample_move_def)
qed

end
