(* ===== verification/BadgerCodec.thy ===== *)
theory BadgerCodec
  imports BadgerWire Lifecycle
begin

text \<open>
  The codecs of the persistent adapter (src/store/badger/codec.go): from an entity of the model to
  the text of its JSON document, and back through the constructors of the model. An entity that
  its codec keeps is \<open>stable\<close>; every entity that a decoder returns is well formed and stable.
\<close>

section \<open>Encoders and decoders\<close>

text \<open>\<open>fmt.Errorf(s + "%w", err)\<close> around a failing call.\<close>

definition wrapE :: "string \<Rightarrow> error + 'a \<Rightarrow> error + 'a" where
  "wrapE s r = (case r of Inl e \<Rightarrow> Inl (Errorf_wrap s e) | Inr x \<Rightarrow> Inr x)"

definition encodeTimeRange :: "TimeRange \<Rightarrow> timeRangeWire" where
  "encodeTimeRange tr =
     \<lparr>tw_EarliestKnown = KnownYear (Earliest tr), tw_Earliest = Year (Earliest tr),
      tw_LatestKnown = KnownYear (Latest tr), tw_Latest = Year (Latest tr),
      tw_Calendar = TR_Calendar tr, tw_Circa = Circa tr\<rparr>"

text \<open>The error of \<open>NewTimeRange\<close> is dropped: the zero range is returned with it.\<close>

definition decodeTimeRange :: "timeRangeWire \<Rightarrow> TimeRange" where
  "decodeTimeRange w =
     (let earliest = (if tw_EarliestKnown w then KnownYearBound (tw_Earliest w) else UnknownYear);
          latest = (if tw_LatestKnown w then KnownYearBound (tw_Latest w) else UnknownYear)
      in case NewTimeRange earliest latest (tw_Calendar w) (tw_Circa w) of
           Inl _ \<Rightarrow> zero_TimeRange
         | Inr tr \<Rightarrow> tr)"

definition range_pointer :: "TimeRange \<Rightarrow> timeRangeWire option" where
  "range_pointer tr = (if TimeRange_IsZero tr then None else Some (encodeTimeRange tr))"

definition pointer_range :: "timeRangeWire option \<Rightarrow> TimeRange" where
  "pointer_range w = (case w of None \<Rightarrow> zero_TimeRange | Some w \<Rightarrow> decodeTimeRange w)"

definition name_wire :: "Name \<Rightarrow> nameWire" where
  "name_wire n = \<lparr>nw_Text = Name_Text n, nw_Language = Name_Language n, nw_Script = Name_Script n,
     nw_Type = Name_Type n, nw_Preferred = Name_Preferred n\<rparr>"

definition person_wire :: "Person \<Rightarrow> personWire" where
  "person_wire p =
     \<lparr>pw_ID = ID_String (P_id p), pw_Names = map name_wire (P_names p), pw_Gender = P_gender p,
      pw_Birth = range_pointer (P_birth p), pw_Death = range_pointer (P_death p),
      pw_Notes = P_notes p, pw_Unknown = P_unknown p\<rparr>"

definition encodePerson :: "Person \<Rightarrow> error + string" where
  "encodePerson p = Marshal (personWire_json (person_wire p))"

text \<open>The loop over \<open>w.Names\<close>.\<close>

definition decode_names :: "ID \<Rightarrow> nameWire list \<Rightarrow> error + Name list" where
  "decode_names i ws =
     mapE (\<lambda>nw. wrapE (''decode person '' @ i @ '': '')
       (NewName (nw_Text nw) (nw_Language nw) (nw_Script nw) (nw_Type nw) (nw_Preferred nw))) ws"

definition person_of_wire :: "personWire \<Rightarrow> error + Person" where
  "person_of_wire w =
     bindE (wrapE ''decode person: '' (ParseID (pw_ID w)))
       (\<lambda>i. if pw_Unknown w then NewUnknownAncestor i
            else bindE (decode_names i (pw_Names w))
              (\<lambda>names. NewPerson i \<lparr>PO_Names = names, PO_Gender = pw_Gender w,
                 PO_Birth = pointer_range (pw_Birth w), PO_Death = pointer_range (pw_Death w),
                 PO_Notes = pw_Notes w\<rparr>))"

definition decodePerson :: "string \<Rightarrow> error + Person" where
  "decodePerson buf =
     bindE (wrapE ''decode person: ''
         (Unmarshal (decode_struct personWire_fields) zero_personWire buf))
       person_of_wire"

definition relationship_wire :: "Relationship \<Rightarrow> relationshipWire" where
  "relationship_wire r =
     (let c = R_continuity r;
          cont = (if Continuity_IsGapped c
                  then \<lparr>cw_State = uint (Cont_State c), cw_GapKnown = KnownSize (Cont_Gap c),
                        cw_GapSize = Gap_Size (Cont_Gap c)\<rparr>
                  else \<lparr>cw_State = uint (Cont_State c), cw_GapKnown = False, cw_GapSize = 0\<rparr>)
      in \<lparr>rw_ID = ID_String (R_id r), rw_From = ID_String (R_from r), rw_To = ID_String (R_to r),
          rw_Type = uint (R_type r), rw_Certainty = uint (R_certainty r), rw_Continuity = cont,
          rw_TimeRange = range_pointer (R_timeRange r), rw_Notes = R_notes r,
          rw_Sources = map ID_String (R_sources r)\<rparr>)"

definition encodeRelationship :: "Relationship \<Rightarrow> error + string" where
  "encodeRelationship r = Marshal (relationshipWire_json (relationship_wire r))"

definition safeUint8 :: "int \<Rightarrow> error + 8 word" where
  "safeUint8 v =
     (if v < 0 \<or> v > 255 then Inl (Errorf (''value '' @ show_int v @ '' out of uint8 range''))
      else Inr (word_of_int v))"

definition decode_continuity :: "ID \<Rightarrow> continuityWire \<Rightarrow> error + Continuity" where
  "decode_continuity i w =
     bindE (wrapE (''decode relationship '' @ i @ '' continuity: '') (safeUint8 (cw_State w)))
       (\<lambda>st. if st = ContinuityContinuous then Inr NewContinuous
             else if st = ContinuityGapped then
               (if cw_GapKnown w
                then bindE (wrapE (''decode relationship '' @ i @ '': '') (KnownGap (cw_GapSize w)))
                       (\<lambda>g. Inr (NewGapped g))
                else Inr (NewGapped UnknownGap))
             else Inl (Errorf (''decode relationship '' @ i @ '': invalid continuity state ''
                    @ show_int (cw_State w))))"

definition relationship_of_wire :: "relationshipWire \<Rightarrow> error + Relationship" where
  "relationship_of_wire w =
     bindE (ParseID (rw_ID w)) (\<lambda>i.
     bindE (ParseID (rw_From w)) (\<lambda>from.
     bindE (ParseID (rw_To w)) (\<lambda>to.
     bindE (decode_continuity i (rw_Continuity w)) (\<lambda>cont.
     bindE (mapE ParseID (rw_Sources w)) (\<lambda>sources.
     bindE (wrapE (''decode relationship '' @ i @ '' type: '') (safeUint8 (rw_Type w))) (\<lambda>rt.
     bindE (wrapE (''decode relationship '' @ i @ '' certainty: '') (safeUint8 (rw_Certainty w))) (\<lambda>c.
       NewRelationship i from to rt c cont
         \<lparr>RO_TimeRange = pointer_range (rw_TimeRange w), RO_Notes = rw_Notes w,
          RO_Sources = sources\<rparr>)))))))"

definition decodeRelationship :: "string \<Rightarrow> error + Relationship" where
  "decodeRelationship buf =
     bindE (wrapE ''decode relationship: ''
         (Unmarshal (decode_struct relationshipWire_fields) zero_relationshipWire buf))
       relationship_of_wire"

definition source_wire :: "Source \<Rightarrow> sourceWire" where
  "source_wire s =
     \<lparr>sw_ID = ID_String (S_id s), sw_Type = S_type s, sw_Citation = S_citation s,
      sw_Author = S_author s, sw_Title = S_title s, sw_Date = S_date s, sw_Locator = S_locator s,
      sw_Notes = S_notes s\<rparr>"

definition encodeSource :: "Source \<Rightarrow> error + string" where
  "encodeSource s = Marshal (sourceWire_json (source_wire s))"

definition source_of_wire :: "sourceWire \<Rightarrow> error + Source" where
  "source_of_wire w =
     bindE (ParseID (sw_ID w)) (\<lambda>i.
       NewSource i (sw_Type w) (sw_Citation w)
         \<lparr>SO_Author = sw_Author w, SO_Title = sw_Title w, SO_Date = sw_Date w,
          SO_Locator = sw_Locator w, SO_Notes = sw_Notes w\<rparr>)"

definition decodeSource :: "string \<Rightarrow> error + Source" where
  "decodeSource buf =
     bindE (wrapE ''decode source: ''
         (Unmarshal (decode_struct sourceWire_fields) zero_sourceWire buf))
       source_of_wire"

definition transition_wire :: "ProposalTransition \<Rightarrow> proposalTransWire" where
  "transition_wire h =
     \<lparr>hw_From = uint (T_From h), hw_To = uint (T_To h), hw_Actor = T_Actor h,
      hw_Timestamp = T_Timestamp h, hw_Reason = T_Reason h\<rparr>"

definition proposal_wire :: "Proposal \<Rightarrow> proposalWire" where
  "proposal_wire p =
     \<lparr>qw_ID = ID_String (Q_id p), qw_State = uint (Q_state p), qw_Action = uint (Q_action p),
      qw_EntityKind = uint (Q_entityKind p), qw_TargetID = ID_String (Q_targetID p),
      qw_SecondaryID = ID_String (Q_secondaryID p), qw_Payload = Q_payload p,
      qw_Reason = Q_reason p, qw_Sources = map ID_String (Q_sources p), qw_Author = Q_author p,
      qw_CreatedAt = Q_createdAt p, qw_History = map transition_wire (Q_history p)\<rparr>"

definition encodeProposal :: "Proposal \<Rightarrow> error + string" where
  "encodeProposal p = Marshal (proposalWire_json (proposal_wire p))"

definition optional_id :: "string \<Rightarrow> error + ID" where
  "optional_id s = (if s = '''' then Inr '''' else ParseID s)"

text \<open>One step of the replay of the history.\<close>

definition replay_step :: "ID \<Rightarrow> proposalTransWire \<Rightarrow> Proposal \<Rightarrow> error + Proposal" where
  "replay_step i h p =
     bindE (wrapE (''decode proposal '' @ i @ '' history.from: '') (safeUint8 (hw_From h))) (\<lambda>from.
     bindE (wrapE (''decode proposal '' @ i @ '' history.to: '') (safeUint8 (hw_To h))) (\<lambda>to.
       Inr (WithStateUnchecked p to
         \<lparr>T_From = from, T_To = to, T_Actor = hw_Actor h, T_Timestamp = hw_Timestamp h,
          T_Reason = hw_Reason h\<rparr>)))"

text \<open>The persisted state wins over the outcome of the replay.\<close>

definition force_state :: "ID \<Rightarrow> int \<Rightarrow> Proposal \<Rightarrow> error + Proposal" where
  "force_state i st p =
     (if uint (Q_state p) \<noteq> st then
        bindE (wrapE (''decode proposal '' @ i @ '' state: '') (safeUint8 st)) (\<lambda>s.
          Inr (WithStateUnchecked p s
            \<lparr>T_From = Q_state p, T_To = s, T_Actor = '''', T_Timestamp = 0, T_Reason = ''''\<rparr>))
      else Inr p)"

definition proposal_of_wire :: "proposalWire \<Rightarrow> error + Proposal" where
  "proposal_of_wire w =
     bindE (ParseID (qw_ID w)) (\<lambda>i.
     bindE (optional_id (qw_TargetID w)) (\<lambda>tid.
     bindE (optional_id (qw_SecondaryID w)) (\<lambda>sid.
     bindE (mapE ParseID (qw_Sources w)) (\<lambda>sources.
     bindE (wrapE (''decode proposal '' @ i @ '' action: '') (safeUint8 (qw_Action w))) (\<lambda>a.
     bindE (wrapE (''decode proposal '' @ i @ '' entity kind: '') (safeUint8 (qw_EntityKind w))) (\<lambda>k.
     bindE (NewProposal i a k
         \<lparr>QO_TargetID = tid, QO_SecondaryID = sid, QO_Payload = qw_Payload w,
          QO_Reason = qw_Reason w, QO_Sources = sources, QO_Author = qw_Author w,
          QO_CreatedAt = qw_CreatedAt w\<rparr>) (\<lambda>p.
     bindE (foldE (replay_step i) (qw_History w) p) (\<lambda>p.
       force_state i (qw_State w) p))))))))"

definition decodeProposal :: "string \<Rightarrow> error + Proposal" where
  "decodeProposal buf =
     bindE (wrapE ''decode proposal: ''
         (Unmarshal (decode_struct proposalWire_fields) zero_proposalWire buf))
       proposal_of_wire"


section \<open>What a codec keeps\<close>

text \<open>An id without surrounding space, in valid UTF-8.\<close>

definition id_stable :: "ID \<Rightarrow> bool" where
  "id_stable i \<longleftrightarrow> i \<noteq> '''' \<and> trim_space i = i \<and> utf8 i"

definition year_stable :: "YearBound \<Rightarrow> bool" where
  "year_stable b \<longleftrightarrow> (if KnownYear b then int64 (Year b) else Year b = 0)"

definition range_stable :: "TimeRange \<Rightarrow> bool" where
  "range_stable r \<longleftrightarrow> r = zero_TimeRange \<or>
     (bounds_ordered (Earliest r) (Latest r) \<and> year_stable (Earliest r) \<and> year_stable (Latest r) \<and>
      TR_Calendar r \<noteq> '''' \<and> utf8 (TR_Calendar r))"

definition name_stable :: "Name \<Rightarrow> bool" where
  "name_stable n \<longleftrightarrow> Name_normal n \<and> nameWire_ok (name_wire n)"

definition Person_stable :: "Person \<Rightarrow> bool" where
  "Person_stable p \<longleftrightarrow> id_stable (P_id p) \<and> list_all name_stable (P_names p) \<and> utf8 (P_gender p) \<and>
     range_stable (P_birth p) \<and> range_stable (P_death p) \<and> utf8 (P_notes p)"

definition gap_stable :: "Continuity \<Rightarrow> bool" where
  "gap_stable c \<longleftrightarrow>
     (if Cont_State c = ContinuityGapped \<and> KnownSize (Cont_Gap c) then int64 (Gap_Size (Cont_Gap c))
      else Cont_Gap c = UnknownGap)"

definition Relationship_stable :: "Relationship \<Rightarrow> bool" where
  "Relationship_stable r \<longleftrightarrow> id_stable (R_id r) \<and> id_stable (R_from r) \<and> id_stable (R_to r) \<and>
     gap_stable (R_continuity r) \<and> range_stable (R_timeRange r) \<and> utf8 (R_notes r) \<and>
     list_all id_stable (R_sources r)"

definition Source_stable :: "Source \<Rightarrow> bool" where
  "Source_stable s \<longleftrightarrow> id_stable (S_id s) \<and> sourceWire_ok (source_wire s)"

definition Proposal_stable :: "Proposal \<Rightarrow> bool" where
  "Proposal_stable p \<longleftrightarrow> id_stable (Q_id p) \<and>
     (Q_targetID p = '''' \<or> id_stable (Q_targetID p)) \<and>
     (Q_secondaryID p = '''' \<or> id_stable (Q_secondaryID p)) \<and>
     utf8 (Q_reason p) \<and> list_all id_stable (Q_sources p) \<and> utf8 (Q_author p) \<and>
     int64 (Q_createdAt p) \<and> list_all (proposalTransWire_ok \<circ> transition_wire) (Q_history p)"

text \<open>The state that the history ends in.\<close>

definition replayed :: "Proposal \<Rightarrow> bool" where
  "replayed p \<longleftrightarrow> Q_state p = (if Q_history p = [] then ProposalDraft else T_To (last (Q_history p)))"

section \<open>The round trips\<close>

lemma wrapE_simps [simp]: "wrapE s (Inr x) = Inr x" "wrapE s (Inl e) = Inl (Errorf_wrap s e)"
  by (simp_all add: wrapE_def)

lemma wrapE_eq_Inr [simp]: "wrapE s r = Inr x \<longleftrightarrow> r = Inr x"
  by (cases r) auto

lemma ParseID_stable [simp]: "id_stable i \<Longrightarrow> ParseID i = Inr i"
  by (simp add: id_stable_def ParseID_def)

lemma parse_ids [simp]: "list_all id_stable is \<Longrightarrow> mapE ParseID is = Inr is"
  by (induction "is") auto

lemma safeUint8_uint [simp]: "safeUint8 (uint w) = Inr w"
  using uint_lt2p [of w] by (simp add: safeUint8_def not_less)

lemma int64_uint8 [simp]: "int64 (uint (w :: 8 word))"
proof -
  have "0 \<le> uint w" "uint w < 256" using uint_lt2p [of w] by simp_all
  moreover have "- (2 ^ 63) \<le> (0 :: int)" "(256 :: int) < 2 ^ 63" by simp_all
  ultimately show ?thesis unfolding int64_def by linarith
qed

lemma safeUint8_fixed [simp]: "safeUint8 1 = Inr 1" "safeUint8 2 = Inr 2"
  by (simp_all add: safeUint8_def)

lemma ids_utf8: "list_all id_stable is \<Longrightarrow> list_all utf8 is"
  by (erule list.pred_mono_strong) (simp add: id_stable_def)

lemma range_pointer_back:
  assumes "range_stable r"
  shows "pointer_range (range_pointer r) = r"
proof (cases "r = zero_TimeRange")
  case True
  then show ?thesis
    by (simp add: pointer_range_def range_pointer_def TimeRange_IsZero_def zero_TimeRange_def
        UnknownYear_def)
next
  case False
  with assms have r: "bounds_ordered (Earliest r) (Latest r)" "year_stable (Earliest r)"
    "year_stable (Latest r)" "TR_Calendar r \<noteq> ''''"
    by (auto simp: range_stable_def)
  have year: "(if KnownYear b then KnownYearBound (Year b) else UnknownYear) = b" if "year_stable b" for b
    using that by (cases b) (auto simp: year_stable_def KnownYearBound_def UnknownYear_def)
  have "NewTimeRange (Earliest r) (Latest r) (TR_Calendar r) (Circa r) = Inr r"
    using r by (simp add: NewTimeRange_Inr)
  moreover have "decodeTimeRange (encodeTimeRange r) =
      (case NewTimeRange (if KnownYear (Earliest r) then KnownYearBound (Year (Earliest r)) else UnknownYear)
         (if KnownYear (Latest r) then KnownYearBound (Year (Latest r)) else UnknownYear)
         (TR_Calendar r) (Circa r) of Inl _ \<Rightarrow> zero_TimeRange | Inr tr \<Rightarrow> tr)"
    unfolding decodeTimeRange_def encodeTimeRange_def Let_def timeRangeWire.select_convs ..
  ultimately have "decodeTimeRange (encodeTimeRange r) = r"
    unfolding year [OF r(2)] year [OF r(3)] by simp
  with r show ?thesis
    by (simp add: pointer_range_def range_pointer_def TimeRange_IsZero_def)
qed

lemma range_pointer_ok:
  assumes "range_stable r"
  shows "pred_option timeRangeWire_ok (range_pointer r)"
proof (cases "r = zero_TimeRange")
  case True
  then show ?thesis
    by (simp add: range_pointer_def TimeRange_IsZero_def zero_TimeRange_def UnknownYear_def)
next
  case False
  have "int64 (Year b)" if "year_stable b" for b
    using that by (auto simp: year_stable_def split: if_splits)
  with assms False show ?thesis
    by (auto simp: range_pointer_def range_stable_def timeRangeWire_ok_def encodeTimeRange_def)
qed

lemma names_wire_ok: "list_all name_stable ns \<Longrightarrow> list_all nameWire_ok (map name_wire ns)"
  by (auto simp: list_all_iff name_stable_def)

lemma person_wire_ok: "Person_stable p \<Longrightarrow> personWire_ok (person_wire p)"
  by (simp add: Person_stable_def personWire_ok_def person_wire_def ID_String_def id_stable_def
      range_pointer_ok names_wire_ok)

lemma decode_names_wire: "list_all name_stable ns \<Longrightarrow> decode_names i (map name_wire ns) = Inr ns"
  unfolding decode_names_def
  by (rule mapE_map) (auto simp: list_all_iff name_stable_def name_wire_def NewName_fixed)

lemma person_back:
  assumes "Person_wf p" and "Person_stable p"
  shows "person_of_wire (person_wire p) = Inr p"
proof (cases "P_unknown p")
  case True
  with assms show ?thesis
    by (cases p) (simp add: person_of_wire_def person_wire_def ID_String_def Person_stable_def
        NewUnknownAncestor_Inr Person_wf_def)
next
  case False
  with assms show ?thesis
    by (cases p) (simp add: person_of_wire_def person_wire_def ID_String_def Person_stable_def
        Person_wf_def decode_names_wire range_pointer_back NewPerson_Inr list_all_iff)
qed

lemma decodePerson_encode:
  assumes "Person_wf p" and "Person_stable p"
  shows "bindE (encodePerson p) decodePerson = Inr p"
  using assms
  by (simp add: encodePerson_def Marshal_def decodePerson_def Unmarshal_plain personWire_plain
      person_wire_ok decode_personWire_json person_back)

lemma relationship_wire_ok:
  assumes "Relationship_stable r"
  shows "relationshipWire_ok (relationship_wire r)"
  using assms
  by (auto simp: Relationship_stable_def relationshipWire_ok_def relationship_wire_def Let_def
      ID_String_def [abs_def] id_stable_def range_pointer_ok gap_stable_def Continuity_IsGapped_def
      UnknownGap_def ids_utf8 split: if_splits)

lemma continuity_back:
  assumes "Continuity_IsValid c" and "gap_stable c"
  shows "decode_continuity i (rw_Continuity (relationship_wire (r\<lparr>R_continuity := c\<rparr>))) = Inr c"
  using assms
  by (cases c; cases "Cont_Gap c")
    (auto simp: decode_continuity_def relationship_wire_def Let_def Continuity_IsValid_def
      ContinuityState_IsValid_def Continuity_IsGapped_def NewContinuous_def NewGapped_def
      gap_stable_def KnownGap_def go_consts split: if_splits)

lemma relationship_back:
  assumes "Relationship_wf r" and "Relationship_stable r"
  shows "relationship_of_wire (relationship_wire r) = Inr r"
proof -
  have "decode_continuity (R_id r) (rw_Continuity (relationship_wire r)) = Inr (R_continuity r)"
    using continuity_back [of "R_continuity r" "R_id r" r] assms
    by (simp add: Relationship_stable_def wf_dests)
  with assms show ?thesis
    by (cases r) (simp add: relationship_of_wire_def relationship_wire_def Let_def
        ID_String_def [abs_def] Relationship_stable_def Relationship_wf_def NewRelationship_Inr
        range_pointer_back)
qed

lemma decodeRelationship_encode:
  assumes "Relationship_wf r" and "Relationship_stable r"
  shows "bindE (encodeRelationship r) decodeRelationship = Inr r"
  using assms
  by (simp add: encodeRelationship_def Marshal_def decodeRelationship_def Unmarshal_plain
      relationshipWire_plain relationship_wire_ok decode_relationshipWire_json relationship_back)

lemma decodeSource_encode:
  assumes "Source_wf s" and "Source_stable s"
  shows "bindE (encodeSource s) decodeSource = Inr s"
proof -
  have "source_of_wire (source_wire s) = Inr s"
    using assms
    by (simp add: source_of_wire_def source_wire_def ID_String_def NewSource_fixed Source_stable_def)
  with assms show ?thesis
    by (simp add: encodeSource_def Marshal_def decodeSource_def Unmarshal_plain
        sourceWire_plain decode_sourceWire_json Source_stable_def)
qed

lemma proposal_wire_ok: "Proposal_stable p \<Longrightarrow> proposalWire_ok (proposal_wire p)"
  by (auto simp: Proposal_stable_def proposalWire_ok_def proposal_wire_def ID_String_def [abs_def]
      id_stable_def ids_utf8 list.pred_map o_def)

lemma replay_step_wire:
  "replay_step i (transition_wire h) p = Inr (WithStateUnchecked p (T_To h) h)"
  by (cases h) (simp add: replay_step_def transition_wire_def)

lemma replay_history:
  "foldE (replay_step i) (map transition_wire hs) p =
   Inr (p\<lparr>Q_state := (if hs = [] then Q_state p else T_To (last hs)), Q_history := Q_history p @ hs\<rparr>)"
  by (induction hs arbitrary: p)
    (auto simp: replay_step_wire WithStateUnchecked_def withState_def)

lemma optional_id_stable: "t = '''' \<or> id_stable t \<Longrightarrow> optional_id t = Inr t"
  by (auto simp: optional_id_def)

lemma proposal_back:
  assumes "intent_ok p" and "replayed p" and "Proposal_stable p"
  shows "proposal_of_wire (proposal_wire p) = Inr p"
  using assms
  by (cases p) (auto simp: proposal_of_wire_def proposal_wire_def ID_String_def [abs_def]
      Proposal_stable_def optional_id_stable NewProposal_Inr [THEN iffD2] intent_ok_def
      replay_history force_state_def replayed_def)

lemma decodeProposal_encode:
  assumes "intent_ok p" and "replayed p" and "Proposal_stable p"
  shows "bindE (encodeProposal p) decodeProposal = Inr p"
  using assms
  by (simp add: encodeProposal_def Marshal_def decodeProposal_def Unmarshal_plain
      proposalWire_plain proposal_wire_ok decode_proposalWire_json proposal_back)

lemma audit_path_end: "audit_path s hs t \<Longrightarrow> t = (if hs = [] then s else T_To (last hs))"
  by (induction s hs t rule: audit_path.induct) auto

lemma audited_replayed: "audited p \<Longrightarrow> replayed p"
  by (auto simp: audited_def replayed_def dest: audit_path_end)

end
