(* ===== verification/StoreApi.thy ===== *)
theory StoreApi
  imports Lifecycle
begin

text \<open>
  The storage port (src/store/store.go). A Go interface value is a record of its methods: a
  \<open>ReadTx\<close> is one fixed snapshot, a \<open>WriteTx\<close> is a set of methods over the state \<open>'s\<close> of an open
  transaction, which embeds a \<open>ReadTx\<close> of that state. An iterator is the sequence of values it
  offers to \<open>yield\<close> and the error it returns when it was not stopped before; \<open>iterate\<close> runs a
  callback over it.

  The contracts that package \<open>store\<close> documents for its adapters are the locales \<open>graph_reader\<close> and
  \<open>graph_tx\<close>, over an abstract graph; package governance and package query are verified against
  them, and each adapter is an interpretation.
\<close>

section \<open>The interfaces\<close>

type_synonym Version = "64 word"

type_synonym 'a iter = "'a list \<times> error option"

record ReadTx =
  rt_Version :: Version
  rt_GetPerson :: "ID \<Rightarrow> error + Person"
  rt_GetRelationship :: "ID \<Rightarrow> error + Relationship"
  rt_GetSource :: "ID \<Rightarrow> error + Source"
  rt_GetProposal :: "ID \<Rightarrow> error + Proposal"
  rt_IterateChildren :: "ID \<Rightarrow> Relationship iter"
  rt_IterateParents :: "ID \<Rightarrow> Relationship iter"
  rt_IterateMarriages :: "ID \<Rightarrow> Relationship iter"
  rt_IteratePersons :: "Person iter"
  rt_IterateRelationships :: "Relationship iter"
  rt_IterateSources :: "Source iter"
  rt_IterateProposals :: "Proposal iter"

record 's WriteTx =
  wt_Read :: "'s \<Rightarrow> ReadTx"
  wt_PutPerson :: "Person \<Rightarrow> 's \<Rightarrow> error + 's"
  wt_DeletePerson :: "ID \<Rightarrow> 's \<Rightarrow> error + 's"
  wt_PutRelationship :: "Relationship \<Rightarrow> 's \<Rightarrow> error + 's"
  wt_DeleteRelationship :: "ID \<Rightarrow> 's \<Rightarrow> error + 's"
  wt_PutSource :: "Source \<Rightarrow> 's \<Rightarrow> error + 's"
  wt_DeleteSource :: "ID \<Rightarrow> 's \<Rightarrow> error + 's"
  wt_PutProposal :: "Proposal \<Rightarrow> 's \<Rightarrow> error + 's"

text \<open>
  A \<open>Store\<close> with state \<open>'st\<close> and transactions of state \<open>'s\<close>: \<open>Update\<close> runs the callback on a
  transaction and commits or rolls back. The value \<open>'o\<close> is what the callback leaves in the
  variables it captured; \<open>None\<close> is a callback that does not return.
\<close>

record ('st, 's, 'o) Store =
  sto_CurrentVersion :: "'st \<Rightarrow> error + Version"
  sto_View :: "'st \<Rightarrow> error + ReadTx"
  sto_ViewAt :: "Version \<Rightarrow> 'st \<Rightarrow> error + ReadTx"
  sto_Update :: "('s \<Rightarrow> (error, 's \<times> 'o) partial_res) \<Rightarrow> 'st \<Rightarrow>
                   ((error + Version \<times> 'o) \<times> 'st) option"
  sto_Close :: "'st \<Rightarrow> 'st"

text \<open>
  The protocol of an iterator: the callback sees the values in turn and says whether to go on;
  when it stops, the iterator returns nil.
\<close>

fun iterate :: "('a \<Rightarrow> 'c \<Rightarrow> 'c \<times> bool) \<Rightarrow> 'a list \<Rightarrow> error option \<Rightarrow> 'c \<Rightarrow> 'c \<times> error option" where
  "iterate f [] err c = (c, err)"
| "iterate f (x # xs) err c =
     (case f x c of (c', go) \<Rightarrow> if go then iterate f xs err c' else (c', None))"

definition run_iter :: "'a iter \<Rightarrow> ('a \<Rightarrow> 'c \<Rightarrow> 'c \<times> bool) \<Rightarrow> 'c \<Rightarrow> 'c \<times> error option" where
  "run_iter it f c = iterate f (fst it) (snd it) c"

lemma iterate_all: "iterate (\<lambda>x c. (g x c, True)) xs err c = (fold g xs c, err)"
  by (induction xs arbitrary: c) auto

lemma run_iter_all: "run_iter it (\<lambda>x c. (g x c, True)) c = (fold g (fst it) c, snd it)"
  by (simp add: run_iter_def iterate_all)

text \<open>A callback that only raises a flag and stops: the flag says whether there was a value.\<close>

lemma run_iter_flag: "fst (run_iter it (\<lambda>_ _. (True, False)) b) = (b \<or> fst it \<noteq> [])"
  by (cases "fst it") (auto simp: run_iter_def)


section \<open>The abstract graph\<close>

record Graph =
  g_persons :: "ID \<Rightarrow> Person option"
  g_rels :: "ID \<Rightarrow> Relationship option"
  g_sources :: "ID \<Rightarrow> Source option"
  g_props :: "ID \<Rightarrow> Proposal option"

definition empty_graph :: Graph where
  "empty_graph = \<lparr>g_persons = Map.empty, g_rels = Map.empty, g_sources = Map.empty,
     g_props = Map.empty\<rparr>"

definition children_of :: "Graph \<Rightarrow> ID \<Rightarrow> Relationship set" where
  "children_of G n = {r \<in> ran (g_rels G). is_pc r \<and> R_from r = n}"

definition parents_of :: "Graph \<Rightarrow> ID \<Rightarrow> Relationship set" where
  "parents_of G n = {r \<in> ran (g_rels G). is_pc r \<and> R_to r = n}"

definition marriages_of :: "Graph \<Rightarrow> ID \<Rightarrow> Relationship set" where
  "marriages_of G n =
     {r \<in> ran (g_rels G). R_type r = RelTypeMarriage \<and> (R_from r = n \<or> R_to r = n)}"

text \<open>The parent-child relation of a graph; GGCFS 6.2 wants it acyclic.\<close>

definition pc_rel :: "Graph \<Rightarrow> (ID \<times> ID) set" where
  "pc_rel G = {(R_from r, R_to r) | r. r \<in> ran (g_rels G) \<and> is_pc r}"

lemma pc_relI: "g_rels G i = Some r \<Longrightarrow> is_pc r \<Longrightarrow> (R_from r, R_to r) \<in> pc_rel G"
  by (auto simp: pc_rel_def ran_def)

text \<open>
  A well-formed graph: every entity is stored under its own id and satisfies the rules of its
  constructor, both endpoints of every edge exist, and every proposal is audited.
\<close>

definition graph_wf :: "Graph \<Rightarrow> bool" where
  "graph_wf G \<longleftrightarrow>
     (\<forall>i p. g_persons G i = Some p \<longrightarrow> P_id p = i \<and> Person_wf p) \<and>
     (\<forall>i r. g_rels G i = Some r \<longrightarrow> R_id r = i \<and> Relationship_wf r \<and>
        R_from r \<in> dom (g_persons G) \<and> R_to r \<in> dom (g_persons G)) \<and>
     (\<forall>i s. g_sources G i = Some s \<longrightarrow> S_id s = i \<and> Source_wf s) \<and>
     (\<forall>i q. g_props G i = Some q \<longrightarrow> Q_id q = i \<and> audited q)"

lemma graph_wf_empty [wf_intros]: "graph_wf empty_graph"
  by (simp add: graph_wf_def empty_graph_def)

lemma graph_wf_person:
  "graph_wf G \<Longrightarrow> g_persons G i = Some p \<Longrightarrow> P_id p = i \<and> Person_wf p"
  by (simp add: graph_wf_def)

lemma graph_wf_rel:
  "graph_wf G \<Longrightarrow> g_rels G i = Some r \<Longrightarrow>
   R_id r = i \<and> Relationship_wf r \<and> R_from r \<in> dom (g_persons G) \<and> R_to r \<in> dom (g_persons G)"
  by (simp add: graph_wf_def)

lemma graph_wf_ran_rel:
  "graph_wf G \<Longrightarrow> r \<in> ran (g_rels G) \<Longrightarrow>
   g_rels G (R_id r) = Some r \<and> Relationship_wf r \<and> R_from r \<in> dom (g_persons G) \<and>
   R_to r \<in> dom (g_persons G)"
  by (auto simp: ran_def dest: graph_wf_rel)

lemma graph_wf_prop:
  "graph_wf G \<Longrightarrow> g_props G i = Some q \<Longrightarrow> Q_id q = i \<and> audited q"
  by (simp add: graph_wf_def)

text \<open>No entity of a well-formed graph has the empty id.\<close>

lemma graph_wf_id: "graph_wf G \<Longrightarrow> g_persons G i \<noteq> None \<Longrightarrow> i \<noteq> ''''"
  using graph_wf_person [of G i] by (auto simp: Person_wf_def)

lemma graph_wf_no_empty_id:
  assumes "graph_wf G"
  shows "g_persons G '''' = None" "g_rels G '''' = None" "g_sources G '''' = None"
proof -
  show "g_persons G '''' = None"
    using graph_wf_id [OF assms] by blast
  show "g_rels G '''' = None"
    using graph_wf_rel [OF assms, of "''''"]
    by (cases "g_rels G ''''") (auto simp: Relationship_wf_def edge_ok_def)
  have "g_sources G i = Some x \<Longrightarrow> S_id x = i \<and> Source_wf x" for i x
    using assms by (simp add: graph_wf_def)
  then show "g_sources G '''' = None"
    by (cases "g_sources G ''''") (auto simp: Source_wf_def)
qed

text \<open>The update of each map that keeps a graph well formed.\<close>

lemma graph_wf_put_person [wf_intros]:
  assumes "graph_wf G" and "Person_wf p"
  shows "graph_wf (G\<lparr>g_persons := (g_persons G)(P_id p \<mapsto> p)\<rparr>)"
  using assms by (fastforce simp: graph_wf_def)

lemma graph_wf_put_rel [wf_intros]:
  assumes "graph_wf G" and "Relationship_wf r"
    and "R_from r \<in> dom (g_persons G)" and "R_to r \<in> dom (g_persons G)"
  shows "graph_wf (G\<lparr>g_rels := (g_rels G)(R_id r \<mapsto> r)\<rparr>)"
  using assms by (simp add: graph_wf_def)

lemma graph_wf_put_source [wf_intros]:
  "graph_wf G \<Longrightarrow> Source_wf s \<Longrightarrow> graph_wf (G\<lparr>g_sources := (g_sources G)(S_id s \<mapsto> s)\<rparr>)"
  by (simp add: graph_wf_def)

lemma graph_wf_put_prop [wf_intros]:
  "graph_wf G \<Longrightarrow> audited q \<Longrightarrow> graph_wf (G\<lparr>g_props := (g_props G)(Q_id q \<mapsto> q)\<rparr>)"
  by (simp add: graph_wf_def)

lemma graph_wf_del_rel [wf_intros]:
  "graph_wf G \<Longrightarrow> graph_wf (G\<lparr>g_rels := (g_rels G)(i := None)\<rparr>)"
  by (simp add: graph_wf_def)

lemma graph_wf_del_source [wf_intros]:
  "graph_wf G \<Longrightarrow> graph_wf (G\<lparr>g_sources := (g_sources G)(i := None)\<rparr>)"
  by (simp add: graph_wf_def)

lemma graph_wf_del_person [wf_intros]:
  assumes "graph_wf G" and "\<And>r. r \<in> ran (g_rels G) \<Longrightarrow> R_from r \<noteq> i \<and> R_to r \<noteq> i"
  shows "graph_wf (G\<lparr>g_persons := (g_persons G)(i := None)\<rparr>)"
proof -
  have "R_from r \<noteq> i \<and> R_to r \<noteq> i" if "g_rels G j = Some r" for j r
    using assms(2) that by (auto simp: ran_def)
  with assms(1) show ?thesis by (simp add: graph_wf_def)
qed

text \<open>No edge touches a person exactly when its three incidence sets are empty.\<close>

lemma incident_iff:
  assumes "graph_wf G"
  shows "children_of G n = {} \<and> parents_of G n = {} \<and> marriages_of G n = {} \<longleftrightarrow>
    (\<forall>r \<in> ran (g_rels G). R_from r \<noteq> n \<and> R_to r \<noteq> n)"
proof -
  have "is_pc r \<or> R_type r = RelTypeMarriage" if "r \<in> ran (g_rels G)" for r
    using graph_wf_ran_rel [OF assms that]
    by (auto simp: is_pc_def RelationshipType_IsValid_def dest: wf_dests)
  then show ?thesis by (auto simp: children_of_def parents_of_def marriages_of_def)
qed


section \<open>The contract of a reader\<close>

text \<open>
  What a \<open>ReadTx\<close> promises over the graph that its adapter shows: the getters look an id up or fail with the code of
  the entity, and each iterator offers exactly the values of its class, once each, without
  error. The order is the adapter's.
\<close>

definition lookup_spec :: "Code \<Rightarrow> ('k \<Rightarrow> 'v option) \<Rightarrow> ('k \<Rightarrow> error + 'v) \<Rightarrow> bool" where
  "lookup_spec c m get \<longleftrightarrow>
     (\<forall>i. case m i of Some v \<Rightarrow> get i = Inr v | None \<Rightarrow> (\<exists>e. get i = Inl e \<and> HasCode e c))"

definition enumerates :: "'a iter \<Rightarrow> 'a set \<Rightarrow> bool" where
  "enumerates it A \<longleftrightarrow> snd it = None \<and> set (fst it) = A \<and> distinct (fst it)"

lemma lookup_specD:
  assumes "lookup_spec c m get"
  shows "m i = Some v \<Longrightarrow> get i = Inr v"
    and "m i = None \<Longrightarrow> \<exists>e. get i = Inl e \<and> HasCode e c"
  using assms by (auto simp: lookup_spec_def dest: spec [of _ i])

lemma lookup_spec_Inr: "lookup_spec c m get \<Longrightarrow> get i = Inr v \<longleftrightarrow> m i = Some v"
  by (cases "m i") (fastforce dest: lookup_specD)+

lemma lookup_spec_Inl: "lookup_spec c m get \<Longrightarrow> get i = Inl e \<Longrightarrow> m i = None \<and> HasCode e c"
  by (cases "m i") (fastforce dest: lookup_specD)+

locale graph_reader =
  fixes rd :: "'r \<Rightarrow> ReadTx" and gr :: "'r \<Rightarrow> Graph" and ok :: "'r \<Rightarrow> bool"
  assumes GetPerson: "ok r \<Longrightarrow>
      lookup_spec CodePersonNotFound (g_persons (gr r)) (rt_GetPerson (rd r))"
    and GetRelationship: "ok r \<Longrightarrow>
      lookup_spec CodeRelationshipNotFound (g_rels (gr r)) (rt_GetRelationship (rd r))"
    and GetSource: "ok r \<Longrightarrow>
      lookup_spec CodeSourceNotFound (g_sources (gr r)) (rt_GetSource (rd r))"
    and GetProposal: "ok r \<Longrightarrow>
      lookup_spec CodeProposalNotFound (g_props (gr r)) (rt_GetProposal (rd r))"
    and IterateChildren: "ok r \<Longrightarrow>
      enumerates (rt_IterateChildren (rd r) n) (children_of (gr r) n)"
    and IterateParents: "ok r \<Longrightarrow> enumerates (rt_IterateParents (rd r) n) (parents_of (gr r) n)"
    and IterateMarriages: "ok r \<Longrightarrow>
      enumerates (rt_IterateMarriages (rd r) n) (marriages_of (gr r) n)"
    and IteratePersons: "ok r \<Longrightarrow> enumerates (rt_IteratePersons (rd r)) (ran (g_persons (gr r)))"
    and IterateRelationships: "ok r \<Longrightarrow>
      enumerates (rt_IterateRelationships (rd r)) (ran (g_rels (gr r)))"
    and IterateSources: "ok r \<Longrightarrow> enumerates (rt_IterateSources (rd r)) (ran (g_sources (gr r)))"
    and IterateProposals: "ok r \<Longrightarrow> enumerates (rt_IterateProposals (rd r)) (ran (g_props (gr r)))"
begin

lemma GetPerson_Inr: "ok r \<Longrightarrow> rt_GetPerson (rd r) i = Inr p \<longleftrightarrow> g_persons (gr r) i = Some p"
  by (rule lookup_spec_Inr [OF GetPerson])

lemma finite_rels: "ok r \<Longrightarrow> finite (ran (g_rels (gr r)))"
  using IterateRelationships by (metis List.finite_set enumerates_def)

text \<open>The edges an iterator offers are the pairs of the parent-child relation.\<close>

lemma children_pc_rel:
  assumes "ok r"
  shows "R_to ` set (fst (rt_IterateChildren (rd r) n)) = pc_rel (gr r) `` {n}"
  using IterateChildren [OF assms, of n] by (auto simp: enumerates_def children_of_def pc_rel_def)

lemma children_no_error: "ok r \<Longrightarrow> snd (rt_IterateChildren (rd r) n) = None"
  using IterateChildren by (simp add: enumerates_def)

lemma incident_any:
  assumes "ok r" and "graph_wf (gr r)"
  shows "(fst (rt_IterateChildren (rd r) n) \<noteq> [] \<or> fst (rt_IterateParents (rd r) n) \<noteq> [] \<or>
      fst (rt_IterateMarriages (rd r) n) \<noteq> []) \<longleftrightarrow>
    (\<exists>e \<in> ran (g_rels (gr r)). R_from e = n \<or> R_to e = n)"
  using incident_iff [OF assms(2), of n] IterateChildren [OF assms(1), of n]
    IterateParents [OF assms(1), of n] IterateMarriages [OF assms(1), of n]
  by (auto simp: enumerates_def simp flip: set_empty)

lemma finite_pc_rel:
  assumes "ok r"
  shows "finite (pc_rel (gr r))"
proof -
  have "pc_rel (gr r) \<subseteq> (\<lambda>e. (R_from e, R_to e)) ` ran (g_rels (gr r))"
    by (auto simp: pc_rel_def)
  with finite_rels [OF assms] show ?thesis by (blast intro: finite_subset)
qed

end


section \<open>The contract of a write transaction\<close>

text \<open>
  \<open>view s\<close> is the graph that the transaction shows, \<open>base s\<close> the committed graph it started from.
  Every mutation acts on the view, or fails and leaves the transaction to be rolled back. The
  getters follow the view; the iterators are only promised while the maps they range over have
  no pending change, and the double check of \<open>PutProposal\<close> only while the proposal has none
  (which is how governance uses them, and all the memory adapter gives). \<open>okp\<close>, \<open>okr\<close>, \<open>oks\<close> and
  \<open>okq\<close> are the entities that the adapter can store: all of them for the memory adapter, those that
  its codecs keep for the persistent one.
\<close>

locale graph_tx =
  graph_reader "wt_Read W" view "\<lambda>s. inv s \<and> view s = base s"
  for W :: "'s WriteTx" and view :: "'s \<Rightarrow> Graph" and base :: "'s \<Rightarrow> Graph"
    and inv :: "'s \<Rightarrow> bool" +
  fixes okp :: "Person \<Rightarrow> bool" and okr :: "Relationship \<Rightarrow> bool" and oks :: "Source \<Rightarrow> bool"
    and okq :: "Proposal \<Rightarrow> bool"
  assumes get_person: "inv s \<Longrightarrow>
      lookup_spec CodePersonNotFound (g_persons (view s)) (rt_GetPerson (wt_Read W s))"
    and get_rel: "inv s \<Longrightarrow>
      lookup_spec CodeRelationshipNotFound (g_rels (view s)) (rt_GetRelationship (wt_Read W s))"
    and get_source: "inv s \<Longrightarrow>
      lookup_spec CodeSourceNotFound (g_sources (view s)) (rt_GetSource (wt_Read W s))"
    and get_prop: "inv s \<Longrightarrow>
      lookup_spec CodeProposalNotFound (g_props (view s)) (rt_GetProposal (wt_Read W s))"
    and put_person: "inv s \<Longrightarrow> Person_wf p \<Longrightarrow> okp p \<Longrightarrow> \<exists>s'. wt_PutPerson W p s = Inr s' \<and>
      inv s' \<and> base s' = base s \<and>
      view s' = (view s)\<lparr>g_persons := (g_persons (view s))(P_id p \<mapsto> p)\<rparr>"
    and del_person: "inv s \<Longrightarrow> g_persons (view s) i \<noteq> None \<Longrightarrow> \<exists>s'. wt_DeletePerson W i s = Inr s' \<and>
      inv s' \<and> base s' = base s \<and>
      view s' = (view s)\<lparr>g_persons := (g_persons (view s))(i := None)\<rparr>"
    and del_person_absent: "inv s \<Longrightarrow> g_persons (view s) i = None \<Longrightarrow>
      \<exists>e. wt_DeletePerson W i s = Inl e \<and> HasCode e CodePersonNotFound"
    and put_rel: "inv s \<Longrightarrow> Relationship_wf r \<Longrightarrow> g_persons (view s) (R_from r) \<noteq> None \<Longrightarrow>
      g_persons (view s) (R_to r) \<noteq> None \<Longrightarrow> okr r \<Longrightarrow> \<exists>s'. wt_PutRelationship W r s = Inr s' \<and>
      inv s' \<and> base s' = base s \<and> view s' = (view s)\<lparr>g_rels := (g_rels (view s))(R_id r \<mapsto> r)\<rparr>"
    and put_rel_dangling: "inv s \<Longrightarrow> R_id r \<noteq> '''' \<Longrightarrow>
      g_persons (view s) (R_from r) = None \<or> g_persons (view s) (R_to r) = None \<Longrightarrow>
      \<exists>e. wt_PutRelationship W r s = Inl e \<and> HasCode e CodePersonNotFound"
    and del_rel: "inv s \<Longrightarrow> g_rels (view s) i \<noteq> None \<Longrightarrow>
      \<exists>s'. wt_DeleteRelationship W i s = Inr s' \<and> inv s' \<and> base s' = base s \<and>
      view s' = (view s)\<lparr>g_rels := (g_rels (view s))(i := None)\<rparr>"
    and del_rel_absent: "inv s \<Longrightarrow> g_rels (view s) i = None \<Longrightarrow>
      \<exists>e. wt_DeleteRelationship W i s = Inl e \<and> HasCode e CodeRelationshipNotFound"
    and put_source: "inv s \<Longrightarrow> Source_wf x \<Longrightarrow> oks x \<Longrightarrow> \<exists>s'. wt_PutSource W x s = Inr s' \<and>
      inv s' \<and> base s' = base s \<and> view s' = (view s)\<lparr>g_sources := (g_sources (view s))(S_id x \<mapsto> x)\<rparr>"
    and del_source: "inv s \<Longrightarrow> g_sources (view s) i \<noteq> None \<Longrightarrow> \<exists>s'. wt_DeleteSource W i s = Inr s' \<and>
      inv s' \<and> base s' = base s \<and> view s' = (view s)\<lparr>g_sources := (g_sources (view s))(i := None)\<rparr>"
    and del_source_absent: "inv s \<Longrightarrow> g_sources (view s) i = None \<Longrightarrow>
      \<exists>e. wt_DeleteSource W i s = Inl e \<and> HasCode e CodeSourceNotFound"
    and put_prop: "inv s \<Longrightarrow> audited q \<Longrightarrow> g_props (view s) (Q_id q) = g_props (base s) (Q_id q) \<Longrightarrow>
      (\<forall>old. g_props (view s) (Q_id q) = Some old \<longrightarrow> IsTerminal (Q_state old) \<longrightarrow>
         Q_state old = Q_state q) \<Longrightarrow> okq q \<Longrightarrow>
      \<exists>s'. wt_PutProposal W q s = Inr s' \<and> inv s' \<and> base s' = base s \<and>
      view s' = (view s)\<lparr>g_props := (g_props (view s))(Q_id q \<mapsto> q)\<rparr>"
    and put_prop_terminal: "inv s \<Longrightarrow> Q_id q \<noteq> '''' \<Longrightarrow>
      g_props (view s) (Q_id q) = g_props (base s) (Q_id q) \<Longrightarrow>
      g_props (view s) (Q_id q) = Some old \<Longrightarrow> IsTerminal (Q_state old) \<Longrightarrow>
      Q_state old \<noteq> Q_state q \<Longrightarrow>
      \<exists>e. wt_PutProposal W q s = Inl e \<and> HasCode e CodeImmutableTerminalProposal"

end
