(* ===== verification/Storetest.thy ===== *)
theory Storetest
  imports BadgerCodec StoreApi "HOL-Library.Multiset"
begin

text \<open>
  The portable conformance suite of the port (src/store/storetest/storetest.go): its helpers, its
  sixteen tests and \<open>Run\<close>, over any \<open>Store\<close> and \<open>WriteTx\<close>.

  A test ends in \<open>Some True\<close> (it passes), in \<open>Some False\<close> (a \<open>require\<close> fails, which ends the test,
  or it goes on with the nil interface that a failed call returned) or in \<open>None\<close> (an \<open>Update\<close> does
  not return). \<open>model.NewID\<close> is uuid.NewString of a third-party package: a test takes the ids it
  draws as a function of the number of the draw. A test that draws ids inside a callback is given
  the entity outside it, as the callback has no other effect before. A deferred \<open>Close\<close> of a
  snapshot runs after the outcome is settled.
\<close>

section \<open>The test framework\<close>

type_synonym outcome = "bool option"

type_synonym ('st, 's) conformance_test = "('st, 's, unit) Store \<Rightarrow> 's WriteTx \<Rightarrow> 'st \<Rightarrow> (nat \<Rightarrow> ID) \<Rightarrow> outcome"

definition require :: "bool \<Rightarrow> outcome \<Rightarrow> outcome" where
  "require b k = (if b then k else Some False)"

text \<open>\<open>require.NoError\<close> and going on with the result.\<close>

definition require_NoError :: "error + 'a \<Rightarrow> ('a \<Rightarrow> outcome) \<Rightarrow> outcome" where
  "require_NoError r k = (case r of Inl _ \<Rightarrow> Some False | Inr x \<Rightarrow> k x)"

text \<open>\<open>require.True(t, lerrors.HasCode(err, code))\<close>, which no nil error has.\<close>

definition require_code :: "error + 'a \<Rightarrow> Code \<Rightarrow> outcome \<Rightarrow> outcome" where
  "require_code r c k = (case r of Inl e \<Rightarrow> require (HasCode e c) k | Inr _ \<Rightarrow> Some False)"

text \<open>\<open>errors.Is(err, target)\<close> for a target of another package: it is one of the errors of the chain.\<close>

fun chain_Is :: "error \<Rightarrow> error \<Rightarrow> bool" where
  "chain_Is (LError c m cause) target =
     (LError c m cause = target \<or> (case cause of None \<Rightarrow> False | Some e \<Rightarrow> chain_Is e target))"
| "chain_Is (FmtError s w) target =
     (FmtError s w = target \<or> (case w of None \<Rightarrow> False | Some e \<Rightarrow> chain_Is e target))"
| "chain_Is (ForeignError s) target = (ForeignError s = target)"

definition require_ErrorIs :: "error + 'a \<Rightarrow> error \<Rightarrow> outcome \<Rightarrow> outcome" where
  "require_ErrorIs r target k = (case r of Inl e \<Rightarrow> require (chain_Is e target) k | Inr _ \<Rightarrow> Some False)"

text \<open>\<open>Update\<close> with a callback that returns an error or nil, and the test that goes on after it.\<close>

definition update ::
    "('st, 's, unit) Store \<Rightarrow> ('s \<Rightarrow> error + 's) \<Rightarrow> 'st \<Rightarrow>
     (error + Version \<Rightarrow> 'st \<Rightarrow> outcome) \<Rightarrow> outcome" where
  "update S f s k =
     (case sto_Update S (\<lambda>w. Some (bindE (f w) (\<lambda>w. Inr (w, ())))) s of
        None \<Rightarrow> None
      | Some (res, s') \<Rightarrow> k (bindE res (\<lambda>x. Inr (fst x))) s')"

text \<open>
  \<open>_ = call(tx)\<close>: the error of a call is dropped. The transaction that a failed call leaves is taken
  to be the one before it.
\<close>

definition ignoring :: "('s \<Rightarrow> error + 's) \<Rightarrow> 's \<Rightarrow> 's" where
  "ignoring call w = (case call w of Inl _ \<Rightarrow> w | Inr w' \<Rightarrow> w')"

text \<open>A loop that returns the first error of its calls.\<close>

fun put_all :: "('a \<Rightarrow> 's \<Rightarrow> error + 's) \<Rightarrow> 'a list \<Rightarrow> 's \<Rightarrow> error + 's" where
  "put_all put [] w = Inr w"
| "put_all put (x # xs) w = bindE (put x w) (\<lambda>w. put_all put xs w)"


section \<open>The helpers\<close>

definition mustPerson :: "ID \<Rightarrow> string \<Rightarrow> error + Person" where
  "mustPerson i name =
     bindE (NewName name ''en'' ''Latn'' NameTypeFull True) (\<lambda>n.
       NewPerson i \<lparr>PO_Names = [n], PO_Gender = '''', PO_Birth = zero_TimeRange,
         PO_Death = zero_TimeRange, PO_Notes = ''''\<rparr>)"

definition no_RelationshipOptions :: RelationshipOptions where
  "no_RelationshipOptions = \<lparr>RO_TimeRange = zero_TimeRange, RO_Notes = '''', RO_Sources = []\<rparr>"

definition mustParentChild :: "ID \<Rightarrow> ID \<Rightarrow> ID \<Rightarrow> Certainty \<Rightarrow> error + Relationship" where
  "mustParentChild i parent child c =
     NewRelationship i parent child RelTypeParentChild c NewContinuous no_RelationshipOptions"

definition mustMarriage :: "ID \<Rightarrow> ID \<Rightarrow> ID \<Rightarrow> error + Relationship" where
  "mustMarriage i a b =
     NewRelationship i a b RelTypeMarriage CertaintyCertain NewContinuous no_RelationshipOptions"

definition mustSource :: "ID \<Rightarrow> error + Source" where
  "mustSource i =
     NewSource i SourceTypePrimary ''Test citation''
       \<lparr>SO_Author = ''Anon'', SO_Title = '''', SO_Date = '''', SO_Locator = '''', SO_Notes = ''''\<rparr>"

definition mustProposal :: "ID \<Rightarrow> error + Proposal" where
  "mustProposal i =
     NewProposal i ProposalActionCreate EntityKindPerson
       \<lparr>QO_TargetID = '''', QO_SecondaryID = '''', QO_Payload = '''', QO_Reason = ''init'',
        QO_Sources = [], QO_Author = ''tester'', QO_CreatedAt = 0\<rparr>"


section \<open>The tests\<close>

definition testInitialVersion :: "('st, 's) conformance_test" where
  "testInitialVersion S W s ids =
     require_NoError (sto_CurrentVersion S s) (\<lambda>v. require (0 = v) (Some True))"

definition testPersonRoundTrip :: "('st, 's) conformance_test" where
  "testPersonRoundTrip S W s ids =
     require_NoError (mustPerson (ids 0) ''Alice'') (\<lambda>alice.
     update S (wt_PutPerson W alice) s (\<lambda>res s.
     require_NoError res (\<lambda>v. require (1 = v) (
     require_NoError (sto_View S s) (\<lambda>rtx.
     require_NoError (rt_GetPerson rtx (P_id alice)) (\<lambda>got.
     require (P_id alice = P_id got) (
     require (''Alice'' = Name_Text (PreferredName got)) (
     Some True))))))))"

definition testRelationshipRoundTrip :: "('st, 's) conformance_test" where
  "testRelationshipRoundTrip S W s ids =
     require_NoError (mustPerson (ids 0) ''Parent'') (\<lambda>parent.
     require_NoError (mustPerson (ids 1) ''Child'') (\<lambda>child.
     require_NoError (mustParentChild (ids 2) (P_id parent) (P_id child) CertaintyCertain) (\<lambda>r.
     update S (\<lambda>tx. bindE (wt_PutPerson W parent tx) (\<lambda>tx. bindE (wt_PutPerson W child tx) (\<lambda>tx.
       wt_PutRelationship W r tx))) s (\<lambda>res s.
     require_NoError res (\<lambda>_.
     require_NoError (sto_View S s) (\<lambda>rtx.
     require_NoError (rt_GetRelationship rtx (R_id r)) (\<lambda>got.
     require (R_id r = R_id got) (
     require (RelTypeParentChild = R_type got) (
     require (P_id parent = R_from got) (
     require (P_id child = R_to got) (
     Some True)))))))))))"

definition testSourceRoundTrip :: "('st, 's) conformance_test" where
  "testSourceRoundTrip S W s ids =
     require_NoError (mustSource (ids 0)) (\<lambda>src.
     update S (wt_PutSource W src) s (\<lambda>res s.
     require_NoError res (\<lambda>_.
     require_NoError (sto_View S s) (\<lambda>rtx.
     require_NoError (rt_GetSource rtx (S_id src)) (\<lambda>got.
     require (S_id src = S_id got) (
     require (SourceTypePrimary = S_type got) (
     Some True)))))))"

definition testProposalRoundTrip :: "('st, 's) conformance_test" where
  "testProposalRoundTrip S W s ids =
     require_NoError (mustProposal (ids 0)) (\<lambda>p.
     update S (wt_PutProposal W p) s (\<lambda>res s.
     require_NoError res (\<lambda>_.
     require_NoError (sto_View S s) (\<lambda>rtx.
     require_NoError (rt_GetProposal rtx (Q_id p)) (\<lambda>got.
     require (ProposalDraft = Q_state got) (
     Some True))))))"

text \<open>The loop \<open>for i := 1; i <= 5; i++\<close>, over the rest of its values, with the drawn ids from 0.\<close>

fun versioning_loop ::
    "('st, 's, unit) Store \<Rightarrow> 's WriteTx \<Rightarrow> (nat \<Rightarrow> ID) \<Rightarrow> nat list \<Rightarrow> 'st \<Rightarrow> ('st \<Rightarrow> outcome) \<Rightarrow> outcome"
  where
  "versioning_loop S W ids [] s k = k s"
| "versioning_loop S W ids (i # is) s k =
     require_NoError (mustPerson (ids (i - 1)) ''P'') (\<lambda>p.
     update S (wt_PutPerson W p) s (\<lambda>res s.
     require_NoError res (\<lambda>v.
     require (word_of_nat i = v) (
     versioning_loop S W ids is s k))))"

definition testVersioning :: "('st, 's) conformance_test" where
  "testVersioning S W s ids =
     versioning_loop S W ids [1, 2, 3, 4, 5] s (\<lambda>s.
     require_NoError (sto_CurrentVersion S s) (\<lambda>cur.
     require (5 = cur) (
     Some True)))"

definition testSnapshotIsolation :: "('st, 's) conformance_test" where
  "testSnapshotIsolation S W s ids =
     require_NoError (sto_View S s) (\<lambda>v0.
     require (0 = rt_Version v0) (
     require_NoError (mustPerson (ids 0) ''Alice'') (\<lambda>alice.
     update S (wt_PutPerson W alice) s (\<lambda>res s.
     require_NoError res (\<lambda>_.
     require_code (rt_GetPerson v0 (P_id alice)) CodePersonNotFound (
     require_NoError (sto_View S s) (\<lambda>v1.
     require_NoError (rt_GetPerson v1 (P_id alice)) (\<lambda>_.
     Some True))))))))"

definition testRelMissingEndpoint :: "('st, 's) conformance_test" where
  "testRelMissingEndpoint S W s ids =
     (let missing = ids 0 in
     require_NoError (mustPerson (ids 1) ''Known'') (\<lambda>known.
     require_NoError (mustParentChild (ids 2) missing (P_id known) CertaintyCertain) (\<lambda>r.
     update S (\<lambda>tx. bindE (wt_PutPerson W known tx) (\<lambda>tx. wt_PutRelationship W r tx)) s (\<lambda>res s.
     require_code res CodePersonNotFound (
     Some True)))))"

definition testDeletes :: "('st, 's) conformance_test" where
  "testDeletes S W s ids =
     require_NoError (mustPerson (ids 0) ''A'') (\<lambda>a.
     require_NoError (mustPerson (ids 1) ''B'') (\<lambda>b.
     require_NoError (mustParentChild (ids 2) (P_id a) (P_id b) CertaintyProbable) (\<lambda>r.
     update S (\<lambda>tx. wt_PutRelationship W r
       (fold ignoring [wt_PutPerson W a, wt_PutPerson W b] tx)) s (\<lambda>res s.
     require_NoError res (\<lambda>_.
     update S (wt_DeleteRelationship W (R_id r)) s (\<lambda>res s.
     require_NoError res (\<lambda>_.
     require_NoError (sto_View S s) (\<lambda>rtx.
     require_code (rt_GetRelationship rtx (R_id r)) CodeRelationshipNotFound (
     update S (wt_DeleteRelationship W (R_id r)) s (\<lambda>res s.
     require_code res CodeRelationshipNotFound (
     Some True)))))))))))"

definition testNotFoundCodes :: "('st, 's) conformance_test" where
  "testNotFoundCodes S W s ids =
     require_NoError (sto_View S s) (\<lambda>rtx.
     let missing = ids 0 in
     require_code (rt_GetPerson rtx missing) CodePersonNotFound (
     require_code (rt_GetRelationship rtx missing) CodeRelationshipNotFound (
     require_code (rt_GetSource rtx missing) CodeSourceNotFound (
     require_code (rt_GetProposal rtx missing) CodeProposalNotFound (
     Some True)))))"

definition testIteratorEarlyTerm :: "('st, 's) conformance_test" where
  "testIteratorEarlyTerm S W s ids =
     require_NoError (mapE (\<lambda>i. mustPerson (ids i) ''p'') [0, 1, 2, 3, 4]) (\<lambda>ps.
     update S (put_all (wt_PutPerson W) ps) s (\<lambda>res s.
     require_NoError res (\<lambda>_.
     require_NoError (sto_View S s) (\<lambda>rtx.
     case run_iter (rt_IteratePersons rtx) (\<lambda>_ n. (n + 1, n + 1 < 3)) (0 :: int) of
       (n, err) \<Rightarrow>
         require (err = None) (
         require (3 = n) (
         Some True))))))"

text \<open>Callbacks that append to a slice.\<close>

definition collect :: "('a \<Rightarrow> ID) \<Rightarrow> 'a \<Rightarrow> ID list \<Rightarrow> ID list \<times> bool" where
  "collect f x ids = (ids @ [f x], True)"

text \<open>\<open>require.NoError\<close> of an iteration, then \<open>require.ElementsMatch\<close> on what it collected.\<close>

definition require_matching :: "ID list \<Rightarrow> ID list \<times> error option \<Rightarrow> outcome \<Rightarrow> outcome" where
  "require_matching expected r k = require (snd r = None) (require (mset expected = mset (fst r)) k)"

definition testParentChildIteration :: "('st, 's) conformance_test" where
  "testParentChildIteration S W s ids =
     require_NoError (mustPerson (ids 0) ''Parent'') (\<lambda>parent.
     require_NoError (mustPerson (ids 1) ''C1'') (\<lambda>child1.
     require_NoError (mustPerson (ids 2) ''C2'') (\<lambda>child2.
     require_NoError (mustPerson (ids 3) ''Other'') (\<lambda>other.
     require_NoError (mustParentChild (ids 4) (P_id parent) (P_id child1) CertaintyCertain) (\<lambda>r1.
     require_NoError (mustParentChild (ids 5) (P_id parent) (P_id child2) CertaintyCertain) (\<lambda>r2.
     require_NoError (mustParentChild (ids 6) (P_id other) (P_id child1) CertaintyCertain) (\<lambda>r3.
     update S (\<lambda>tx. wt_PutRelationship W r3
       (fold ignoring [wt_PutPerson W parent, wt_PutPerson W child1, wt_PutPerson W child2,
          wt_PutPerson W other, wt_PutRelationship W r1, wt_PutRelationship W r2] tx)) s (\<lambda>res s.
     require_NoError res (\<lambda>_.
     require_NoError (sto_View S s) (\<lambda>rtx.
     require_matching [P_id child1, P_id child2]
       (run_iter (rt_IterateChildren rtx (P_id parent)) (collect R_to) []) (
     require_matching [P_id parent, P_id other]
       (run_iter (rt_IterateParents rtx (P_id child1)) (collect R_from) []) (
     Some True))))))))))))"

text \<open>The partner of a person in a marriage.\<close>

definition partner :: "ID \<Rightarrow> Relationship \<Rightarrow> ID" where
  "partner a r = (let other = R_to r in if other = a then R_from r else other)"

definition testMarriageIteration :: "('st, 's) conformance_test" where
  "testMarriageIteration S W s ids =
     require_NoError (mustPerson (ids 0) ''A'') (\<lambda>a.
     require_NoError (mustPerson (ids 1) ''B'') (\<lambda>b.
     require_NoError (mustPerson (ids 2) ''C'') (\<lambda>c.
     require_NoError (mustMarriage (ids 3) (P_id a) (P_id b)) (\<lambda>mab.
     require_NoError (mustMarriage (ids 4) (P_id a) (P_id c)) (\<lambda>mac.
     update S (\<lambda>tx. wt_PutRelationship W mac
       (fold ignoring [wt_PutPerson W a, wt_PutPerson W b, wt_PutPerson W c,
          wt_PutRelationship W mab] tx)) s (\<lambda>res s.
     require_NoError res (\<lambda>_.
     require_NoError (sto_View S s) (\<lambda>rtx.
     require_matching [P_id b, P_id c]
       (run_iter (rt_IterateMarriages rtx (P_id a)) (collect (partner (P_id a))) []) (
     Some True)))))))))"

definition testSourceIteration :: "('st, 's) conformance_test" where
  "testSourceIteration S W s ids =
     require_NoError (mustSource (ids 0)) (\<lambda>a.
     require_NoError (mustSource (ids 1)) (\<lambda>b.
     require_NoError (mustSource (ids 2)) (\<lambda>c.
     update S (put_all (wt_PutSource W) [a, b, c]) s (\<lambda>res s.
     require_NoError res (\<lambda>_.
     require_NoError (sto_View S s) (\<lambda>rtx.
     require_matching [S_id a, S_id b, S_id c]
       (run_iter (rt_IterateSources rtx) (collect S_id) []) (
     Some True)))))))"

definition sentinel :: error where
  "sentinel = ForeignError ''rollback me''"

definition testRollback :: "('st, 's) conformance_test" where
  "testRollback S W s ids =
     require_NoError (sto_CurrentVersion S s) (\<lambda>beforeV.
     require_NoError (mustPerson (ids 0) ''Ghost'') (\<lambda>ghost.
     update S (\<lambda>tx. let tx = ignoring (wt_PutPerson W ghost) tx in Inl sentinel) s (\<lambda>res s.
     require_ErrorIs res sentinel (
     require_NoError (sto_CurrentVersion S s) (\<lambda>afterV.
     require (beforeV = afterV) (
     Some True))))))"

definition testTerminalProposal :: "('st, 's) conformance_test" where
  "testTerminalProposal S W s ids =
     require_NoError (mustProposal (ids 0)) (\<lambda>p.
     update S (wt_PutProposal W p) s (\<lambda>res s.
     require_NoError res (\<lambda>_.
     let accepted = WithStateUnchecked p ProposalAccepted
           \<lparr>T_From = ProposalDraft, T_To = ProposalAccepted, T_Actor = ''curator'',
            T_Timestamp = 1, T_Reason = ''''\<rparr> in
     update S (wt_PutProposal W accepted) s (\<lambda>res s.
     require_NoError res (\<lambda>_.
     let rejectedAttempt = WithStateUnchecked accepted ProposalRejected
           \<lparr>T_From = ProposalAccepted, T_To = ProposalRejected, T_Actor = ''curator'',
            T_Timestamp = 2, T_Reason = ''oops''\<rparr> in
     update S (wt_PutProposal W rejectedAttempt) s (\<lambda>res s.
     require_code res CodeImmutableTerminalProposal (
     Some True)))))))"


section \<open>The suite\<close>

definition conformance_cases :: "(string \<times> ('st, 's) conformance_test) list" where
  "conformance_cases =
     [(''InitialVersionIsZero'', testInitialVersion),
      (''PersonRoundTrip'', testPersonRoundTrip),
      (''RelationshipRoundTrip'', testRelationshipRoundTrip),
      (''SourceRoundTrip'', testSourceRoundTrip),
      (''ProposalRoundTrip'', testProposalRoundTrip),
      (''VersioningMonotonic'', testVersioning),
      (''SnapshotIsolation'', testSnapshotIsolation),
      (''RelationshipMissingEndpoint'', testRelMissingEndpoint),
      (''DeleteRoundTrip'', testDeletes),
      (''NotFoundCodes'', testNotFoundCodes),
      (''IteratorEarlyTermination'', testIteratorEarlyTerm),
      (''ParentChildIteration'', testParentChildIteration),
      (''MarriageIteration'', testMarriageIteration),
      (''SourceIteration'', testSourceIteration),
      (''RollbackOnError'', testRollback),
      (''TerminalProposalImmutable'', testTerminalProposal)]"

text \<open>
  \<open>Run\<close>: every test gets a store from the factory, here the state of a fresh one, and the ids that it
  draws; the outcomes by name.
\<close>

definition Run ::
    "('st, 's, unit) Store \<Rightarrow> 's WriteTx \<Rightarrow> 'st \<Rightarrow> (string \<Rightarrow> nat \<Rightarrow> ID) \<Rightarrow> (string \<times> outcome) list" where
  "Run S W fresh ids = map (\<lambda>(name, fn). (name, fn S W fresh (ids name))) conformance_cases"

definition all_pass :: "(string \<times> outcome) list" where
  "all_pass = map (\<lambda>name. (name, Some True))
     [''InitialVersionIsZero'', ''PersonRoundTrip'', ''RelationshipRoundTrip'', ''SourceRoundTrip'',
      ''ProposalRoundTrip'', ''VersioningMonotonic'', ''SnapshotIsolation'',
      ''RelationshipMissingEndpoint'', ''DeleteRoundTrip'', ''NotFoundCodes'',
      ''IteratorEarlyTermination'', ''ParentChildIteration'', ''MarriageIteration'',
      ''SourceIteration'', ''RollbackOnError'', ''TerminalProposalImmutable'']"

end
