(* ===== verification/BadgerRead.thy ===== *)
theory BadgerRead
  imports BadgerCodec
begin

text \<open>
  What the decoders of the persistent adapter return (src/store/badger/codec.go): whatever bytes are
  in the database, an entity that a decoder accepts is well formed and survives being written and
  read again. Then the limits of the codec: what it changes, and what it trusts.
\<close>

section \<open>The wire structs that are read\<close>

lemmas keeps_plain = keeps_field [OF keeps_string] keeps_field [OF keeps_int]
  keeps_field [OF keeps_any [of decode_bool]] keeps_field [OF keeps_any [of decode_bytes]]

lemma nameWire_read: "keeps nameWire_ok decode_nameWire" "nameWire_ok zero_nameWire"
  by (auto simp: decode_nameWire_def nameWire_fields_def nameWire_ok_def zero_nameWire_def
      intro!: keeps_struct keeps_plain)

lemma timeRangeWire_read:
  "keeps timeRangeWire_ok decode_timeRangeWire" "timeRangeWire_ok zero_timeRangeWire"
  by (auto simp: decode_timeRangeWire_def timeRangeWire_fields_def timeRangeWire_ok_def
      zero_timeRangeWire_def intro!: keeps_struct keeps_plain)

lemmas keeps_range = keeps_field [OF keeps_pointer [OF timeRangeWire_read]]

lemmas keeps_names = keeps_field [OF keeps_slice [OF nameWire_read]]

lemmas keeps_strings = keeps_field [OF keeps_slice [OF keeps_string utf8_Nil]]

lemma personWire_read:
  "keeps personWire_ok (decode_struct personWire_fields)" "personWire_ok zero_personWire"
  by (auto simp: personWire_fields_def personWire_ok_def zero_personWire_def
      intro!: keeps_struct keeps_plain keeps_range keeps_names)

lemma continuityWire_read:
  "keeps (\<lambda>w. int64 (cw_State w) \<and> int64 (cw_GapSize w)) (decode_struct continuityWire_fields)"
  by (auto simp: continuityWire_fields_def intro!: keeps_struct keeps_plain)

lemma relationshipWire_read:
  "keeps relationshipWire_ok (decode_struct relationshipWire_fields)"
  "relationshipWire_ok zero_relationshipWire"
  by (auto simp: relationshipWire_fields_def relationshipWire_ok_def zero_relationshipWire_def
      zero_continuityWire_def
      intro!: keeps_struct keeps_plain keeps_range keeps_strings keeps_field [OF continuityWire_read])

lemma sourceWire_read:
  "keeps sourceWire_ok (decode_struct sourceWire_fields)" "sourceWire_ok zero_sourceWire"
  by (auto simp: sourceWire_fields_def sourceWire_ok_def zero_sourceWire_def
      intro!: keeps_struct keeps_plain)

lemma proposalTransWire_read:
  "keeps proposalTransWire_ok (decode_struct proposalTransWire_fields)"
  "proposalTransWire_ok zero_proposalTransWire"
  by (auto simp: proposalTransWire_fields_def proposalTransWire_ok_def zero_proposalTransWire_def
      intro!: keeps_struct keeps_plain)

lemma proposalWire_read:
  "keeps proposalWire_ok (decode_struct proposalWire_fields)" "proposalWire_ok zero_proposalWire"
  by (auto simp: proposalWire_fields_def proposalWire_ok_def zero_proposalWire_def
      intro!: keeps_struct keeps_plain keeps_strings
        keeps_field [OF keeps_slice [OF proposalTransWire_read]])


section \<open>The entities that are read\<close>

lemma read_struct:
  assumes "bindE (wrapE t (Unmarshal d z buf)) f = Inr x" and "keeps Q d" and "Q z"
    and "\<And>w. f w = Inr x \<Longrightarrow> Q w \<Longrightarrow> P"
  shows P
  using assms(1,4) Unmarshal_keeps [OF assms(2,3)] by (auto simp: bindE_eq_Inr)

lemma ParseID_Inr_stable: "ParseID s = Inr i \<Longrightarrow> utf8 s \<Longrightarrow> id_stable i"
  by (auto simp: ParseID_Inr id_stable_def)

lemma mapE_list_all2: "mapE f xs = Inr ys \<longleftrightarrow> list_all2 (\<lambda>x y. f x = Inr y) xs ys"
  by (induction xs arbitrary: ys) (auto simp: bindE_eq_Inr list_all2_Cons1)

lemma parsed_ids_stable: "mapE ParseID ss = Inr is \<Longrightarrow> list_all utf8 ss \<Longrightarrow> list_all id_stable is"
  by (auto simp: mapE_list_all2 list_all2_conv_all_nth list_all_length ParseID_Inr_stable)

lemma calendar_utf8 [simp]: "utf8 CalendarGregorianProleptic"
  by (simp add: CalendarGregorianProleptic_def utf8_ascii is_ascii_def)

lemma range_stable_ok: "range_stable r \<Longrightarrow> range_ok r"
  by (auto simp: range_stable_def range_ok_def TimeRange_IsZero_def zero_TimeRange_def UnknownYear_def)

lemma zero_range_stable [simp]: "range_stable zero_TimeRange"
  by (simp add: range_stable_def)

lemma decodeTimeRange_stable:
  assumes "timeRangeWire_ok w"
  shows "range_stable (decodeTimeRange w)"
proof -
  let ?e = "if tw_EarliestKnown w then KnownYearBound (tw_Earliest w) else UnknownYear"
  let ?l = "if tw_LatestKnown w then KnownYearBound (tw_Latest w) else UnknownYear"
  have year: "year_stable ?e" "year_stable ?l"
    using assms by (auto simp: year_stable_def timeRangeWire_ok_def KnownYearBound_def UnknownYear_def)
  show ?thesis
  proof (cases "NewTimeRange ?e ?l (tw_Calendar w) (tw_Circa w)")
    case (Inl e)
    then show ?thesis by (simp add: decodeTimeRange_def Let_def)
  next
    case (Inr r)
    then have "decodeTimeRange w = r" by (simp add: decodeTimeRange_def Let_def)
    with Inr year assms show ?thesis
      unfolding NewTimeRange_Inr
      by (auto simp: range_stable_def timeRangeWire_ok_def CalendarGregorianProleptic_def utf8_ascii
          is_ascii_def)
  qed
qed

lemma pointer_range_stable: "pred_option timeRangeWire_ok w \<Longrightarrow> range_stable (pointer_range w)"
  by (cases w) (simp_all add: pointer_range_def decodeTimeRange_stable)

lemma NewName_stable:
  assumes "NewName x l s t p = Inr n" and "utf8 x" "utf8 l" "utf8 s" "utf8 t"
  shows "name_stable n"
  using assms NewName_normal [OF assms(1)]
  by (auto simp: NewName_def Let_def name_stable_def nameWire_ok_def name_wire_def NameTypeFull_def
      utf8_ascii is_ascii_def split: if_splits)

lemma decode_names_stable:
  "decode_names i ws = Inr ns \<Longrightarrow> list_all nameWire_ok ws \<Longrightarrow> list_all name_stable ns"
  by (auto simp: decode_names_def mapE_list_all2 list_all2_conv_all_nth list_all_length nameWire_ok_def)
    (blast intro: NewName_stable)

lemma person_of_wire_stable:
  assumes "person_of_wire w = Inr p" and "personWire_ok w"
  shows "Person_wf p \<and> Person_stable p"
proof -
  from assms(1) obtain i where i: "ParseID (pw_ID w) = Inr i"
    and rest: "(if pw_Unknown w then NewUnknownAncestor i
      else bindE (decode_names i (pw_Names w)) (\<lambda>names. NewPerson i \<lparr>PO_Names = names,
        PO_Gender = pw_Gender w, PO_Birth = pointer_range (pw_Birth w),
        PO_Death = pointer_range (pw_Death w), PO_Notes = pw_Notes w\<rparr>)) = Inr p"
    by (auto simp: person_of_wire_def bindE_eq_Inr)
  have st: "id_stable i" using i assms(2) by (simp add: personWire_ok_def ParseID_Inr_stable)
  show ?thesis
  proof (cases "pw_Unknown w")
    case True
    with rest st show ?thesis
      by (auto simp: NewUnknownAncestor_wf Person_stable_def NewUnknownAncestor_Inr GenderUnset_def)
  next
    case False
    with rest obtain ns where ns: "decode_names i (pw_Names w) = Inr ns"
      and p: "NewPerson i \<lparr>PO_Names = ns, PO_Gender = pw_Gender w,
        PO_Birth = pointer_range (pw_Birth w), PO_Death = pointer_range (pw_Death w),
        PO_Notes = pw_Notes w\<rparr> = Inr p"
      by (auto simp: bindE_eq_Inr)
    have "list_all name_stable ns"
      using decode_names_stable [OF ns] assms(2) by (simp add: personWire_ok_def)
    with p st assms(2) show ?thesis
      by (simp add: NewPerson_wf)
        (simp add: NewPerson_Inr Person_stable_def personWire_ok_def pointer_range_stable)
  qed
qed

lemma decodePerson_stable: "decodePerson buf = Inr p \<Longrightarrow> Person_wf p \<and> Person_stable p"
  unfolding decodePerson_def by (erule read_struct [OF _ personWire_read]) (rule person_of_wire_stable)

lemma KnownGap_stable: "KnownGap k = Inr g \<Longrightarrow> int64 k \<Longrightarrow> gap_stable (NewGapped g)"
  by (auto simp: KnownGap_def gap_stable_def NewGapped_def go_consts split: if_splits)

lemma decode_continuity_stable:
  "decode_continuity i w = Inr c \<Longrightarrow> int64 (cw_GapSize w) \<Longrightarrow> gap_stable c"
  by (auto simp: decode_continuity_def bindE_eq_Inr NewContinuous_def NewGapped_def UnknownGap_def
      gap_stable_def go_consts KnownGap_def split: if_splits)

lemma relationship_of_wire_stable:
  assumes "relationship_of_wire w = Inr r" and "relationshipWire_ok w"
  shows "Relationship_wf r \<and> Relationship_stable r"
proof -
  from assms(1) obtain i f t c ss rt ce where ids: "ParseID (rw_ID w) = Inr i"
      "ParseID (rw_From w) = Inr f" "ParseID (rw_To w) = Inr t" "mapE ParseID (rw_Sources w) = Inr ss"
    and c: "decode_continuity i (rw_Continuity w) = Inr c"
    and r: "NewRelationship i f t rt ce c \<lparr>RO_TimeRange = pointer_range (rw_TimeRange w),
      RO_Notes = rw_Notes w, RO_Sources = ss\<rparr> = Inr r"
    by (auto simp: relationship_of_wire_def bindE_eq_Inr)
  with assms(2) show ?thesis
    using NewRelationship_wf [OF r] decode_continuity_stable [OF c]
    by (auto simp: NewRelationship_Inr Relationship_stable_def relationshipWire_ok_def
        ParseID_Inr_stable parsed_ids_stable pointer_range_stable)
qed

lemma decodeRelationship_stable:
  "decodeRelationship buf = Inr r \<Longrightarrow> Relationship_wf r \<and> Relationship_stable r"
  unfolding decodeRelationship_def by (erule read_struct [OF _ relationshipWire_read]) (rule relationship_of_wire_stable)

lemma source_of_wire_stable:
  assumes "source_of_wire w = Inr s" and "sourceWire_ok w"
  shows "Source_wf s \<and> Source_stable s"
proof -
  from assms(1) obtain i where i: "ParseID (sw_ID w) = Inr i"
    and s: "NewSource i (sw_Type w) (sw_Citation w)
       \<lparr>SO_Author = sw_Author w, SO_Title = sw_Title w, SO_Date = sw_Date w,
        SO_Locator = sw_Locator w, SO_Notes = sw_Notes w\<rparr> = Inr s"
    by (auto simp: source_of_wire_def bindE_eq_Inr)
  have "id_stable i" using i assms(2) by (simp add: sourceWire_ok_def ParseID_Inr_stable)
  moreover from this have "utf8 i" by (simp add: id_stable_def)
  ultimately show ?thesis
    using NewSource_wf [OF s] s assms(2)
    by (auto simp: NewSource_def Let_def Source_stable_def source_wire_def sourceWire_ok_def
        ID_String_def SourceTypeOther_def utf8_ascii is_ascii_def split: if_splits)
qed

lemma decodeSource_stable: "decodeSource buf = Inr s \<Longrightarrow> Source_wf s \<and> Source_stable s"
  unfolding decodeSource_def by (erule read_struct [OF _ sourceWire_read]) (rule source_of_wire_stable)


lemma optional_id_read: "optional_id s = Inr i \<Longrightarrow> utf8 s \<Longrightarrow> i = '''' \<or> id_stable i"
  by (auto simp: optional_id_def ParseID_Inr_stable split: if_splits)

text \<open>Replaying a history keeps the intent and ends in the state of its last entry.\<close>

definition same_intent :: "Proposal \<Rightarrow> Proposal \<Rightarrow> bool" where
  "same_intent p q \<longleftrightarrow> q\<lparr>Q_state := Q_state p, Q_history := Q_history p\<rparr> = p"

lemma same_intent_simps:
  assumes "same_intent p q"
  shows "Q_id q = Q_id p" "Q_action q = Q_action p" "Q_entityKind q = Q_entityKind p"
    "Q_targetID q = Q_targetID p" "Q_secondaryID q = Q_secondaryID p" "Q_reason q = Q_reason p"
    "Q_sources q = Q_sources p" "Q_author q = Q_author p" "Q_createdAt q = Q_createdAt p"
  using assms by (cases p; cases q; simp add: same_intent_def)+

definition read_state :: "Proposal \<Rightarrow> Proposal \<Rightarrow> bool" where
  "read_state p q \<longleftrightarrow> same_intent p q \<and> replayed q \<and>
     list_all (proposalTransWire_ok \<circ> transition_wire) (Q_history q)"

lemma read_state_move:
  assumes "read_state p q" and "utf8 (T_Actor h)" "utf8 (T_Reason h)" "int64 (T_Timestamp h)"
  shows "read_state p (WithStateUnchecked q (T_To h) h)"
  using assms
  by (auto simp: read_state_def same_intent_def replayed_def proposalTransWire_ok_def
      transition_wire_def WithStateUnchecked_def withState_def)

lemma read_state_replay:
  "foldE (replay_step i) hs q = Inr q' \<Longrightarrow> list_all proposalTransWire_ok hs \<Longrightarrow> read_state p q \<Longrightarrow>
   read_state p q'"
proof (induction hs arbitrary: q)
  case (Cons h hs)
  from Cons.prems(1) obtain r where "replay_step i h q = Inr r" "foldE (replay_step i) hs r = Inr q'"
    by (auto simp: bindE_eq_Inr)
  moreover from this(1) obtain f t where "r = WithStateUnchecked q t \<lparr>T_From = f, T_To = t,
      T_Actor = hw_Actor h, T_Timestamp = hw_Timestamp h, T_Reason = hw_Reason h\<rparr>"
    by (auto simp: replay_step_def bindE_eq_Inr)
  ultimately show ?case
    using Cons.IH [of r] Cons.prems(2,3) read_state_move [of p q "\<lparr>T_From = f, T_To = t,
      T_Actor = hw_Actor h, T_Timestamp = hw_Timestamp h, T_Reason = hw_Reason h\<rparr>"]
    by (simp add: proposalTransWire_ok_def)
qed simp

lemma read_state_force:
  assumes "force_state i st q = Inr q'" and "read_state p q"
  shows "read_state p q'"
  using assms read_state_move [of p q "\<lparr>T_From = Q_state q, T_To = s, T_Actor = '''',
      T_Timestamp = 0, T_Reason = ''''\<rparr>" for s]
  by (auto simp: force_state_def bindE_eq_Inr split: if_splits)

lemma read_state_new: "NewProposal i a k opts = Inr p \<Longrightarrow> read_state p p"
  by (auto simp: read_state_def same_intent_def replayed_def NewProposal_Inr)

lemma proposal_of_wire_stable:
  assumes "proposal_of_wire w = Inr q" and "proposalWire_ok w"
  shows "intent_ok q \<and> replayed q \<and> Proposal_stable q"
proof -
  from assms(1) obtain i tid sid ss a k p p' where ids: "ParseID (qw_ID w) = Inr i"
      "optional_id (qw_TargetID w) = Inr tid" "optional_id (qw_SecondaryID w) = Inr sid"
      "mapE ParseID (qw_Sources w) = Inr ss"
    and p: "NewProposal i a k
         \<lparr>QO_TargetID = tid, QO_SecondaryID = sid, QO_Payload = qw_Payload w,
          QO_Reason = qw_Reason w, QO_Sources = ss, QO_Author = qw_Author w,
          QO_CreatedAt = qw_CreatedAt w\<rparr> = Inr p"
    and r: "foldE (replay_step i) (qw_History w) p = Inr p'" "force_state i (qw_State w) p' = Inr q"
    by (auto simp: proposal_of_wire_def bindE_eq_Inr)
  have rs: "read_state p q"
    using read_state_force [OF r(2) read_state_replay [OF r(1) _ read_state_new [OF p]]] assms(2)
    by (simp add: proposalWire_ok_def)
  then have same: "same_intent p q" by (simp add: read_state_def)
  have "intent_ok q"
    using NewProposal_intent [OF p] by (simp add: intent_ok_def same_intent_simps [OF same])
  moreover have "Proposal_stable q"
    using rs ids p assms(2)
    by (simp add: Proposal_stable_def same_intent_simps [OF same] read_state_def NewProposal_Inr
        proposalWire_ok_def ParseID_Inr_stable parsed_ids_stable optional_id_read)
  ultimately show ?thesis using rs by (simp add: read_state_def)
qed

lemma decodeProposal_stable:
  "decodeProposal buf = Inr q \<Longrightarrow> intent_ok q \<and> replayed q \<and> Proposal_stable q"
  unfolding decodeProposal_def by (erule read_struct [OF _ proposalWire_read]) (rule proposal_of_wire_stable)



section \<open>Properties\<close>


text \<open>One entity of each kind.\<close>

definition sample_person :: Person where
  "sample_person = \<lparr>P_id = ''p1'', P_names = [\<lparr>Name_Text = ''Ann'', Name_Language = ''en'',
     Name_Script = '''', Name_Type = NameTypeFull, Name_Preferred = True\<rparr>], P_gender = ''female'',
     P_birth = \<lparr>Earliest = KnownYearBound 1900, Latest = UnknownYear,
       TR_Calendar = CalendarGregorianProleptic, Circa = True\<rparr>,
     P_death = zero_TimeRange, P_notes = ''x < y'', P_unknown = False\<rparr>"

definition sample_source :: Source where
  "sample_source = \<lparr>S_id = ''s1'', S_type = ''oral'', S_citation = ''told by Ann'', S_author = '''',
     S_title = '''', S_date = '''', S_locator = '''', S_notes = ''''\<rparr>"

lemmas sample_simps = trim_space_visible visible_def utf8_ascii is_ascii_def go_consts

lemma sample_person_ok: "Person_wf sample_person" "Person_stable sample_person"
  by (simp_all add: sample_person_def Person_wf_def Person_stable_def gender_ok_def range_ok_def
      bounds_ordered_def KnownYearBound_def UnknownYear_def id_stable_def name_stable_def
      Name_normal_def nameWire_ok_def name_wire_def NameTypeFull_def range_stable_def
      year_stable_def int64_def CalendarGregorianProleptic_def zero_TimeRange_def
      TimeRange_IsZero_def sample_simps)

lemma gap2_edge_stable: "Relationship_stable gap2_edge"
  by (simp add: gap2_edge_def Relationship_stable_def id_stable_def gap_stable_def NewGapped_def
      int64_def sample_simps)

lemma sample_source_ok: "Source_wf sample_source" "Source_stable sample_source"
  by (simp_all add: sample_source_def Source_wf_def Source_stable_def id_stable_def source_wire_def
      sourceWire_ok_def ID_String_def sample_simps)

lemma sample_draft_stable: "Proposal_stable sample_draft"
  by (simp add: sample_draft_def Proposal_stable_def id_stable_def int64_def sample_simps)

lemma sample_move_stable: "Proposal_stable p \<Longrightarrow> Proposal_stable (sample_move p s)"
proof -
  have "int64 7" by (simp add: int64_def)
  then show "Proposal_stable p \<Longrightarrow> Proposal_stable (sample_move p s)"
    by (simp add: sample_move_def Proposal_stable_def WithStateUnchecked_def withState_def
        proposalTransWire_ok_def transition_wire_def utf8_ascii is_ascii_def)
qed

lemma sample_review_stable: "Proposal_stable sample_review"
  unfolding sample_review_def by (intro sample_move_stable sample_draft_stable)


text \<open>
  C27: whatever bytes are stored, an entity that a decoder accepts keeps the rules of its
  constructor, and writing it and reading it again gives it back unchanged. For a proposal the
  rules are those of its intent only, and its state is the one its history ends in.
\<close>

theorem decoded_valid:
  "(decodePerson buf = Inr p \<longrightarrow>
      Person_wf p \<and> bindE (encodePerson p) decodePerson = Inr p) \<and>
   (decodeRelationship buf = Inr r \<longrightarrow>
      Relationship_wf r \<and> bindE (encodeRelationship r) decodeRelationship = Inr r) \<and>
   (decodeSource buf = Inr s \<longrightarrow>
      Source_wf s \<and> bindE (encodeSource s) decodeSource = Inr s) \<and>
   (decodeProposal buf = Inr q \<longrightarrow>
      intent_ok q \<and> replayed q \<and> bindE (encodeProposal q) decodeProposal = Inr q)"
  using decodePerson_stable [of buf p] decodeRelationship_stable [of buf r]
    decodeSource_stable [of buf s] decodeProposal_stable [of buf q]
  by (simp add: decodePerson_encode decodeRelationship_encode decodeSource_encode
      decodeProposal_encode)

text \<open>A document with space around the id, a member of no field, and no optional member.\<close>

definition raw_source :: string where
  "raw_source = print_json (JObj [(''id'', JStr '' s1 ''), (''extra'', JArr [JInt 1, JNull]),
     (''citation'', JStr ''told by Ann''), (''type'', JStr ''oral'')])"

lemma decode_raw_source: "decodeSource raw_source = Inr sample_source"
proof -
  have "trim_space '' s1 '' = ''s1''" by code_simp
  then have "ParseID '' s1 '' = Inr ''s1''" by (simp add: ParseID_def)
  moreover have "trim_space ''oral'' = ''oral''" "trim_space ''told by Ann'' = ''told by Ann''"
    by (simp_all add: sample_simps)
  moreover have "Unmarshal (decode_struct sourceWire_fields) zero_sourceWire raw_source =
      Inr ((source_wire sample_source)\<lparr>sw_ID := '' s1 ''\<rparr>)"
    unfolding raw_source_def
    by (subst Unmarshal_plain)
      (simp_all add: plain_simps sourceWire_fields_def zero_sourceWire_def decode_member_simps
        lower_byte_def source_wire_def sample_source_def)
  ultimately show ?thesis
    by (simp add: decodeSource_def source_of_wire_def NewSource_def source_wire_def sample_source_def)
qed

lemma decode_samples:
  "decodePerson (print_json (personWire_json (person_wire sample_person))) = Inr sample_person"
  "decodeRelationship (print_json (relationshipWire_json (relationship_wire gap2_edge))) = Inr gap2_edge"
  "decodeProposal (print_json (proposalWire_json (proposal_wire sample_review))) = Inr sample_review"
proof -
  show "decodePerson (print_json (personWire_json (person_wire sample_person))) = Inr sample_person"
    using decodePerson_encode [OF sample_person_ok] by (simp add: encodePerson_def Marshal_def)
  show "decodeRelationship (print_json (relationshipWire_json (relationship_wire gap2_edge))) = Inr gap2_edge"
    using decodeRelationship_encode [OF gap2_edge_wf gap2_edge_stable]
    by (simp add: encodeRelationship_def Marshal_def)
  have "audited sample_review" by (rule lifecycle_audited) (rule sample_review_lifecycle)
  then show "decodeProposal (print_json (proposalWire_json (proposal_wire sample_review))) = Inr sample_review"
    using decodeProposal_encode [OF _ audited_replayed sample_review_stable]
    by (simp add: encodeProposal_def Marshal_def audited_def)
qed

theorem decoded_valid_witness:
  "Source_wf sample_source \<and> bindE (encodeSource sample_source) decodeSource = Inr sample_source \<and>
   Person_wf sample_person \<and> Relationship_wf gap2_edge \<and> intent_ok sample_review"
  using decoded_valid [of raw_source _ _ sample_source]
    decoded_valid [of "print_json (personWire_json (person_wire sample_person))" sample_person]
    decoded_valid [of "print_json (relationshipWire_json (relationship_wire gap2_edge))" _ gap2_edge]
    decoded_valid [of "print_json (proposalWire_json (proposal_wire sample_review))" _ _ _ sample_review]
  by (simp add: decode_raw_source decode_samples)

text \<open>
  The state of a stored proposal is trusted. In the document of an audited proposal the member
  \<open>state\<close> may be replaced by any state: the decoder accepts it and appends a transition without
  actor, time or reason that leads to it. The result is an audited proposal only when the state
  table allows that single move, so a document may decode to an accepted proposal that was never
  submitted nor reviewed.
\<close>

theorem decode_state_trusted:
  assumes "audited p" and "Proposal_stable p"
  shows "\<exists>q. decodeProposal (print_json (proposalWire_json ((proposal_wire p)\<lparr>qw_State := uint s\<rparr>))) = Inr q \<and>
    Q_state q = s \<and>
    (audited q \<longleftrightarrow> s = Q_state p \<or> CanTransition (Q_state p) s \<and> s \<noteq> ProposalRejected)"
proof -
  let ?w = "(proposal_wire p)\<lparr>qw_State := uint s\<rparr>"
  let ?tr = "\<lparr>T_From = Q_state p, T_To = s, T_Actor = '''', T_Timestamp = 0, T_Reason = ''''\<rparr>"
  have ok: "proposalWire_ok ?w"
    using proposal_wire_ok [OF assms(2)] by (simp add: proposalWire_ok_def)
  have "proposal_of_wire (proposal_wire p) = Inr p"
    using assms by (simp add: proposal_back audited_replayed audited_def)
  then have "proposal_of_wire ?w = force_state (Q_id p) (uint s) p"
    using assms audited_replayed [OF assms(1)]
    by (cases p) (auto simp: proposal_of_wire_def proposal_wire_def ID_String_def [abs_def]
      Proposal_stable_def optional_id_stable NewProposal_Inr [THEN iffD2] intent_ok_def audited_def
      replay_history replayed_def)
  then have dec: "decodeProposal (print_json (proposalWire_json ?w)) = force_state (Q_id p) (uint s) p"
    using ok by (simp add: decodeProposal_def Unmarshal_plain proposalWire_plain
        decode_proposalWire_json)
  show ?thesis
  proof (cases "s = Q_state p")
    case True
    with dec assms(1) show ?thesis by (simp add: force_state_def)
  next
    case False
    then have "uint (Q_state p) \<noteq> uint s" by (simp add: word_uint_eq_iff)
    with dec have "decodeProposal (print_json (proposalWire_json ?w)) = Inr (WithStateUnchecked p s ?tr)"
      by (simp add: force_state_def)
    moreover have "audited (WithStateUnchecked p s ?tr) \<longleftrightarrow>
        CanTransition (Q_state p) s \<and> s \<noteq> ProposalRejected"
      using assms(1) by (auto simp: audited_def audit_path_snoc dest: audit_path_end)
    ultimately show ?thesis using False by simp
  qed
qed

theorem decode_state_trusted_witness:
  "\<exists>q. decodeProposal (print_json (proposalWire_json
      ((proposal_wire sample_draft)\<lparr>qw_State := uint ProposalAccepted\<rparr>))) = Inr q \<and>
    Q_state q = ProposalAccepted \<and> \<not> audited q"
proof -
  have "\<not> CanTransition (Q_state sample_draft) ProposalAccepted" "Q_state sample_draft \<noteq> ProposalAccepted"
    by (simp_all add: CanTransition_cases sample_draft_def go_consts)
  then show ?thesis
    using decode_state_trusted [OF lifecycle_audited [OF sample_draft_lifecycle] sample_draft_stable,
        of ProposalAccepted] by metis
qed

text \<open>
  An unordered time range of a relationship is lost. \<open>NewRelationship\<close> accepts it and the
  encoder writes it, but the decoder drops the error of \<open>NewTimeRange\<close>: the edge is read back
  with no time range at all, and without an error.
\<close>

theorem unordered_range_lost:
  assumes "Relationship_wf r" and "Relationship_stable (r\<lparr>R_timeRange := zero_TimeRange\<rparr>)"
    and "\<not> bounds_ordered (Earliest (R_timeRange r)) (Latest (R_timeRange r))"
    and "int64 (Year (Earliest (R_timeRange r)))" and "int64 (Year (Latest (R_timeRange r)))"
    and "utf8 (TR_Calendar (R_timeRange r))"
  shows "bindE (encodeRelationship r) decodeRelationship = Inr (r\<lparr>R_timeRange := zero_TimeRange\<rparr>)"
proof -
  let ?tr = "R_timeRange r" and ?r = "r\<lparr>R_timeRange := zero_TimeRange\<rparr>"
  have known: "KnownYear (Earliest ?tr)" "KnownYear (Latest ?tr)" "Year (Latest ?tr) < Year (Earliest ?tr)"
    using assms(3) by (auto simp: bounds_ordered_def)
  then have ptr: "range_pointer ?tr = Some (encodeTimeRange ?tr)"
    by (simp add: range_pointer_def TimeRange_IsZero_def)
  have zero: "range_pointer zero_TimeRange = None" "pointer_range None = zero_TimeRange"
    by (simp_all add: range_pointer_def TimeRange_IsZero_def zero_TimeRange_def UnknownYear_def
        pointer_range_def)
  have w: "relationship_wire r = (relationship_wire ?r)\<lparr>rw_TimeRange := Some (encodeTimeRange ?tr)\<rparr>"
    by (simp add: relationship_wire_def Let_def ptr)
  have "relationshipWire_ok (relationship_wire r)"
    using relationship_wire_ok [OF assms(2)] assms(4-6)
    by (simp add: w relationshipWire_ok_def timeRangeWire_ok_def encodeTimeRange_def)
  moreover have lost: "pointer_range (Some (encodeTimeRange ?tr)) = zero_TimeRange"
    using known by (simp add: pointer_range_def decodeTimeRange_def encodeTimeRange_def
        NewTimeRange_def Calendar_IsKnown_def KnownYearBound_def Let_def)
  have "relationship_of_wire (relationship_wire r) = relationship_of_wire (relationship_wire ?r)"
    unfolding w relationship_of_wire_def using zero
    by (simp add: lost) (simp add: relationship_wire_def Let_def)
  moreover have "relationship_of_wire (relationship_wire ?r) = Inr ?r"
    using assms(1) by (intro relationship_back assms(2)) (simp add: Relationship_wf_def)
  ultimately show ?thesis
    by (simp add: encodeRelationship_def Marshal_def decodeRelationship_def Unmarshal_plain
      relationshipWire_plain decode_relationshipWire_json)
qed

text \<open>The sample edge, from 1950 until 1900.\<close>

definition backward_edge :: Relationship where
  "backward_edge = gap2_edge\<lparr>R_timeRange := \<lparr>Earliest = KnownYearBound 1950,
     Latest = KnownYearBound 1900, TR_Calendar = CalendarGregorianProleptic, Circa = False\<rparr>\<rparr>"

theorem unordered_range_lost_witness:
  "Relationship_wf backward_edge \<and>
   bindE (encodeRelationship backward_edge) decodeRelationship = Inr gap2_edge \<and>
   R_timeRange gap2_edge \<noteq> R_timeRange backward_edge"
proof -
  have wf: "Relationship_wf backward_edge"
    using gap2_edge_wf by (simp add: backward_edge_def Relationship_wf_def)
  have same: "backward_edge\<lparr>R_timeRange := zero_TimeRange\<rparr> = gap2_edge"
    by (simp add: backward_edge_def gap2_edge_def)
  have "\<not> bounds_ordered (Earliest (R_timeRange backward_edge)) (Latest (R_timeRange backward_edge))"
    "int64 (Year (Earliest (R_timeRange backward_edge)))" "int64 (Year (Latest (R_timeRange backward_edge)))"
    "utf8 (TR_Calendar (R_timeRange backward_edge))"
    "R_timeRange gap2_edge \<noteq> R_timeRange backward_edge"
    by (simp_all add: backward_edge_def gap2_edge_def bounds_ordered_def KnownYearBound_def int64_def
        zero_TimeRange_def UnknownYear_def)
  with unordered_range_lost [OF wf] gap2_edge_stable wf show ?thesis by (simp add: same)
qed

end
