(* ===== verification/Conformance.thy ===== *)
theory Conformance
  imports Storetest BadgerRead
begin

text \<open>
  The contract of an adapter as the conformance suite needs it, the locale \<open>conforming_store\<close>, and
  the proof that every store under this contract passes every test of the suite, whatever order its
  iterators follow. \<open>store_at s v G\<close> says that the store is open, at version \<open>v\<close> and shows the graph
  \<open>G\<close>; \<open>tx_at B w G\<close> that the transaction \<open>w\<close> was begun on the graph \<open>B\<close> and now shows \<open>G\<close>; \<open>I\<close> is a
  set of ids that the adapter can tell apart.
\<close>

section \<open>Graphs that grow\<close>

definition add_person :: "Person \<Rightarrow> Graph \<Rightarrow> Graph" where
  "add_person p G = G\<lparr>g_persons := (g_persons G)(P_id p \<mapsto> p)\<rparr>"

definition add_rel :: "Relationship \<Rightarrow> Graph \<Rightarrow> Graph" where
  "add_rel r G = G\<lparr>g_rels := (g_rels G)(R_id r \<mapsto> r)\<rparr>"

definition add_source :: "Source \<Rightarrow> Graph \<Rightarrow> Graph" where
  "add_source x G = G\<lparr>g_sources := (g_sources G)(S_id x \<mapsto> x)\<rparr>"

definition add_prop :: "Proposal \<Rightarrow> Graph \<Rightarrow> Graph" where
  "add_prop q G = G\<lparr>g_props := (g_props G)(Q_id q \<mapsto> q)\<rparr>"

definition drop_rel :: "ID \<Rightarrow> Graph \<Rightarrow> Graph" where
  "drop_rel i G = G\<lparr>g_rels := (g_rels G)(i := None)\<rparr>"

lemma graph_edits [simp]:
  "g_persons (add_person p G) = (g_persons G)(P_id p \<mapsto> p)" "g_persons (add_rel r G) = g_persons G"
  "g_persons (drop_rel i G) = g_persons G"
  "g_rels (add_person p G) = g_rels G" "g_rels (add_rel r G) = (g_rels G)(R_id r \<mapsto> r)"
  "g_rels (drop_rel i G) = (g_rels G)(i := None)"
  "g_sources (add_source x G) = (g_sources G)(S_id x \<mapsto> x)" "g_props (add_prop q G) = (g_props G)(Q_id q \<mapsto> q)"
  "g_persons empty_graph = Map.empty" "g_rels empty_graph = Map.empty" "g_sources empty_graph = Map.empty"
  "g_props empty_graph = Map.empty"
  by (simp_all add: add_person_def add_rel_def add_source_def add_prop_def drop_rel_def empty_graph_def)

text \<open>What a snapshot shows: lookups of every kind, and the iterations of the suite.\<close>

definition reads_graph :: "ReadTx \<Rightarrow> Graph \<Rightarrow> bool" where
  "reads_graph r G \<longleftrightarrow>
     lookup_spec CodePersonNotFound (g_persons G) (rt_GetPerson r) \<and>
     lookup_spec CodeRelationshipNotFound (g_rels G) (rt_GetRelationship r) \<and>
     lookup_spec CodeSourceNotFound (g_sources G) (rt_GetSource r) \<and>
     lookup_spec CodeProposalNotFound (g_props G) (rt_GetProposal r) \<and>
     enumerates (rt_IteratePersons r) (ran (g_persons G)) \<and>
     enumerates (rt_IterateSources r) (ran (g_sources G)) \<and>
     (\<forall>n \<in> dom (g_persons G).
        enumerates (rt_IterateChildren r n) (children_of G n) \<and>
        enumerates (rt_IterateParents r n) (parents_of G n) \<and>
        enumerates (rt_IterateMarriages r n) (marriages_of G n))"

lemma reads_lookup:
  assumes "reads_graph r G"
  shows "g_persons G i = Some p \<Longrightarrow> rt_GetPerson r i = Inr p"
    and "g_rels G i = Some e \<Longrightarrow> rt_GetRelationship r i = Inr e"
    and "g_sources G i = Some x \<Longrightarrow> rt_GetSource r i = Inr x"
    and "g_props G i = Some q \<Longrightarrow> rt_GetProposal r i = Inr q"
  using assms by (auto simp: reads_graph_def intro: lookup_specD)

lemma require_code_lookup: "lookup_spec c m get \<Longrightarrow> m i = None \<Longrightarrow> require_code (get i) c k = k"
  by (auto simp: require_code_def require_def dest: lookup_specD(2))

lemma require_absent:
  assumes "reads_graph r G"
  shows "g_persons G i = None \<Longrightarrow> require_code (rt_GetPerson r i) CodePersonNotFound k = k"
    and "g_rels G i = None \<Longrightarrow> require_code (rt_GetRelationship r i) CodeRelationshipNotFound k = k"
    and "g_sources G i = None \<Longrightarrow> require_code (rt_GetSource r i) CodeSourceNotFound k = k"
    and "g_props G i = None \<Longrightarrow> require_code (rt_GetProposal r i) CodeProposalNotFound k = k"
  using assms unfolding reads_graph_def by (blast intro: require_code_lookup)+

lemma require_simps [simp]:
  "require True k = k"
  "require_NoError (Inr x) f = f x"
  by (simp_all add: require_def require_NoError_def)

lemma require_code_Inl [simp]: "HasCode e c \<Longrightarrow> require_code (Inl e) c k = k"
  by (simp add: require_code_def)

lemma collect_run: "run_iter it (collect f) [] = (map f (fst it), snd it)"
proof -
  have "fold (\<lambda>x c. c @ [f x]) xs c = c @ map f xs" for xs c
    by (induction xs arbitrary: c) auto
  then show ?thesis
    using run_iter_all [of it "\<lambda>x c. c @ [f x]" "[]"] by (simp add: collect_def [abs_def])
qed

lemma require_matching_run:
  assumes "enumerates it (set xs)" and "distinct xs" and "map f xs = ids"
  shows "require_matching ids (run_iter it (collect f) []) k = k"
proof -
  have "mset (fst it) = mset xs"
    using assms(1,2) set_eq_iff_mset_eq_distinct [of "fst it" xs] by (simp add: enumerates_def)
  then have "mset ids = mset (map f (fst it))" using assms(3) by (auto simp: mset_map)
  with assms(1) show ?thesis by (simp add: require_matching_def collect_run enumerates_def)
qed

lemma count_stops:
  assumes "3 \<le> length (fst it)"
  shows "run_iter it (\<lambda>_ n. (n + 1, n + 1 < 3)) (0 :: int) = (3, None)"
proof -
  obtain a b c xs where "fst it = a # b # c # xs"
    using assms by (metis Suc_le_length_iff numeral_3_eq_3)
  then show ?thesis by (simp add: run_iter_def)
qed


section \<open>The entities of the suite\<close>

definition test_person :: "ID \<Rightarrow> string \<Rightarrow> Person" where
  "test_person i name =
     \<lparr>P_id = i, P_names = [\<lparr>Name_Text = name, Name_Language = ''en'', Name_Script = ''Latn'',
        Name_Type = NameTypeFull, Name_Preferred = True\<rparr>], P_gender = '''', P_birth = zero_TimeRange,
      P_death = zero_TimeRange, P_notes = '''', P_unknown = False\<rparr>"

definition test_edge :: "ID \<Rightarrow> ID \<Rightarrow> ID \<Rightarrow> RelationshipType \<Rightarrow> Certainty \<Rightarrow> Relationship" where
  "test_edge i a b t c =
     \<lparr>R_id = i, R_from = a, R_to = b, R_type = t, R_certainty = c, R_continuity = NewContinuous,
      R_timeRange = zero_TimeRange, R_notes = '''', R_sources = []\<rparr>"

definition test_source :: "ID \<Rightarrow> Source" where
  "test_source i =
     \<lparr>S_id = i, S_type = SourceTypePrimary, S_citation = ''Test citation'', S_author = ''Anon'',
      S_title = '''', S_date = '''', S_locator = '''', S_notes = ''''\<rparr>"

definition test_proposal :: "ID \<Rightarrow> Proposal" where
  "test_proposal i =
     \<lparr>Q_id = i, Q_state = ProposalDraft, Q_action = ProposalActionCreate, Q_entityKind = EntityKindPerson,
      Q_targetID = '''', Q_secondaryID = '''', Q_payload = '''', Q_reason = ''init'', Q_sources = [],
      Q_author = ''tester'', Q_createdAt = 0, Q_history = []\<rparr>"

lemma must_Inr:
  "i \<noteq> '''' \<Longrightarrow> name \<noteq> '''' \<Longrightarrow> trim_space name = name \<Longrightarrow> mustPerson i name = Inr (test_person i name)"
  "i \<noteq> '''' \<Longrightarrow> a \<noteq> '''' \<Longrightarrow> b \<noteq> '''' \<Longrightarrow> a \<noteq> b \<Longrightarrow> Certainty_IsValid c \<Longrightarrow>
     mustParentChild i a b c = Inr (test_edge i a b RelTypeParentChild c)"
  "i \<noteq> '''' \<Longrightarrow> a \<noteq> '''' \<Longrightarrow> b \<noteq> '''' \<Longrightarrow> a \<noteq> b \<Longrightarrow>
     mustMarriage i a b = Inr (test_edge i a b RelTypeMarriage CertaintyCertain)"
  "i \<noteq> '''' \<Longrightarrow> mustSource i = Inr (test_source i)"
  "i \<noteq> '''' \<Longrightarrow> mustProposal i = Inr (test_proposal i)"
proof -
  show "i \<noteq> '''' \<Longrightarrow> name \<noteq> '''' \<Longrightarrow> trim_space name = name \<Longrightarrow> mustPerson i name = Inr (test_person i name)"
    by (simp add: mustPerson_def NewName_def NewPerson_Inr test_person_def Let_def NameTypeFull_def sample_simps
        gender_ok_def range_ok_def GenderUnset_def zero_TimeRange_def TimeRange_IsZero_def UnknownYear_def)
  show "i \<noteq> '''' \<Longrightarrow> a \<noteq> '''' \<Longrightarrow> b \<noteq> '''' \<Longrightarrow> a \<noteq> b \<Longrightarrow> Certainty_IsValid c \<Longrightarrow>
     mustParentChild i a b c = Inr (test_edge i a b RelTypeParentChild c)"
    by (simp add: mustParentChild_def NewRelationship_Inr edge_ok_def test_edge_def no_RelationshipOptions_def
        RelationshipType_IsValid_def NewContinuous_def Continuity_IsValid_def ContinuityState_IsValid_def go_consts)
  show "i \<noteq> '''' \<Longrightarrow> a \<noteq> '''' \<Longrightarrow> b \<noteq> '''' \<Longrightarrow> a \<noteq> b \<Longrightarrow>
     mustMarriage i a b = Inr (test_edge i a b RelTypeMarriage CertaintyCertain)"
    by (simp add: mustMarriage_def NewRelationship_Inr edge_ok_def test_edge_def no_RelationshipOptions_def
        RelationshipType_IsValid_def NewContinuous_def Continuity_IsValid_def ContinuityState_IsValid_def
        Certainty_IsValid_def Continuity_IsGapped_def go_consts)
  show "i \<noteq> '''' \<Longrightarrow> mustSource i = Inr (test_source i)"
    by (simp add: mustSource_def NewSource_def test_source_def Let_def SourceTypePrimary_def sample_simps)
  show "i \<noteq> '''' \<Longrightarrow> mustProposal i = Inr (test_proposal i)"
    by (simp add: mustProposal_def NewProposal_Inr test_proposal_def target_ok_def ProposalAction_IsValid_def
        EntityKind_IsValid_def go_consts)
qed

lemma test_simps [simp]:
  "P_id (test_person i name) = i" "Name_Text (PreferredName (test_person i name)) = name"
  "R_id (test_edge i a b t c) = i" "R_from (test_edge i a b t c) = a" "R_to (test_edge i a b t c) = b"
  "R_type (test_edge i a b t c) = t" "is_pc (test_edge i a b t c) \<longleftrightarrow> t = RelTypeParentChild"
  "S_id (test_source i) = i" "S_type (test_source i) = SourceTypePrimary"
  "Q_id (test_proposal i) = i" "Q_state (test_proposal i) = ProposalDraft"
  by (simp_all add: test_person_def PreferredName_def test_edge_def is_pc_def test_source_def test_proposal_def)

lemma test_edge_eq [simp]: "test_edge i a b t c = test_edge j a' b' t' c' \<longleftrightarrow> i = j \<and> a = a' \<and> b = b' \<and> t = t' \<and> c = c'"
  by (auto simp: test_edge_def)

definition plain :: "string \<Rightarrow> bool" where
  "plain name \<longleftrightarrow> name \<noteq> '''' \<and> list_all visible name"

lemma plainD: "plain name \<Longrightarrow> name \<noteq> ''''" "plain name \<Longrightarrow> trim_space name = name" "plain name \<Longrightarrow> is_ascii name"
  by (auto simp: plain_def list_all_iff visible_def is_ascii_def intro!: trim_space_visible)

lemma plain_names:
  "plain ''Alice''" "plain ''Parent''" "plain ''Child''" "plain ''P''" "plain ''Known''" "plain ''A''"
  "plain ''B''" "plain ''C''" "plain ''p''" "plain ''C1''" "plain ''C2''" "plain ''Other''" "plain ''Ghost''"
  by (simp_all add: plain_def visible_def)

definition draws :: "ID set \<Rightarrow> (nat \<Rightarrow> ID) \<Rightarrow> bool" where
  "draws I ids \<longleftrightarrow> inj_on ids {..<7} \<and> ids ` {..<7} \<subseteq> I"

text \<open>They keep the rules of their constructors, and the codec keeps them.\<close>

lemma test_person_ok:
  "id_stable i \<Longrightarrow> name \<noteq> '''' \<Longrightarrow> trim_space name = name \<Longrightarrow> is_ascii name \<Longrightarrow>
   Person_wf (test_person i name) \<and> Person_stable (test_person i name)"
  by (auto simp: test_person_def Person_wf_def Person_stable_def gender_ok_def range_ok_def id_stable_def
      name_stable_def Name_normal_def nameWire_ok_def name_wire_def NameTypeFull_def range_stable_def
      GenderUnset_def zero_TimeRange_def TimeRange_IsZero_def UnknownYear_def sample_simps)

lemma test_edge_ok:
  "id_stable i \<Longrightarrow> id_stable a \<Longrightarrow> id_stable b \<Longrightarrow> a \<noteq> b \<Longrightarrow> RelationshipType_IsValid t \<Longrightarrow>
   Certainty_IsValid c \<Longrightarrow> Relationship_wf (test_edge i a b t c) \<and> Relationship_stable (test_edge i a b t c)"
  by (auto simp: test_edge_def Relationship_wf_def edge_ok_def Relationship_stable_def id_stable_def
      gap_stable_def NewContinuous_def Continuity_IsValid_def ContinuityState_IsValid_def range_stable_def
      Continuity_IsGapped_def sample_simps)

lemma test_source_ok: "id_stable i \<Longrightarrow> Source_wf (test_source i) \<and> Source_stable (test_source i)"
  by (auto simp: test_source_def Source_wf_def Source_stable_def id_stable_def source_wire_def
      sourceWire_ok_def ID_String_def SourceTypePrimary_def sample_simps)

definition keepable :: "Proposal \<Rightarrow> bool" where
  "keepable q \<longleftrightarrow> intent_ok q \<and> replayed q \<and> Proposal_stable q"

lemma test_proposal_ok:
  "id_stable i \<Longrightarrow> keepable (test_proposal i)"
  by (simp add: keepable_def test_proposal_def intent_ok_def replayed_def Proposal_stable_def id_stable_def
      int64_def target_ok_def ProposalAction_IsValid_def EntityKind_IsValid_def sample_simps)


section \<open>The contract\<close>

text \<open>
  A step of a transaction succeeds and leads from one graph to another; or it fails with a code and
  is rolled back.
\<close>

definition steps_to ::
    "(Graph \<Rightarrow> 's \<Rightarrow> Graph \<Rightarrow> bool) \<Rightarrow> Graph \<Rightarrow> ('s \<Rightarrow> error + 's) \<Rightarrow> Graph \<Rightarrow> Graph \<Rightarrow> bool" where
  "steps_to at B f G G' \<longleftrightarrow> (\<forall>w. at B w G \<longrightarrow> (\<exists>w'. f w = Inr w' \<and> at B w' G'))"

definition fails_as ::
    "(Graph \<Rightarrow> 's \<Rightarrow> Graph \<Rightarrow> bool) \<Rightarrow> Graph \<Rightarrow> ('s \<Rightarrow> error + 's) \<Rightarrow> Graph \<Rightarrow> Code \<Rightarrow> bool" where
  "fails_as at B f G c \<longleftrightarrow> (\<forall>w. at B w G \<longrightarrow> (\<exists>e. f w = Inl e \<and> HasCode e c))"

lemma steps_bind:
  "steps_to at B f G G1 \<Longrightarrow> steps_to at B g G1 G2 \<Longrightarrow> steps_to at B (\<lambda>w. bindE (f w) (\<lambda>w. g w)) G G2"
  by (fastforce simp: steps_to_def)

lemma fails_bind:
  "steps_to at B f G G1 \<Longrightarrow> fails_as at B g G1 c \<Longrightarrow> fails_as at B (\<lambda>w. bindE (f w) (\<lambda>w. g w)) G c"
  by (fastforce simp: steps_to_def fails_as_def)

lemma steps_ignoring:
  "steps_to at B f G G1 \<Longrightarrow> steps_to at B (\<lambda>w. g (fold ignoring fs w)) G1 G2 \<Longrightarrow>
   steps_to at B (\<lambda>w. g (fold ignoring (f # fs) w)) G G2"
  by (fastforce simp: steps_to_def ignoring_def)

lemma steps_ignored: "steps_to at B (\<lambda>w. g w) G G1 \<Longrightarrow> steps_to at B (\<lambda>w. g (fold ignoring [] w)) G G1"
  by simp

lemma steps_put_all:
  "(\<And>x G. x \<in> set xs \<Longrightarrow> steps_to at B (put x) G (add x G)) \<Longrightarrow>
   steps_to at B (put_all put xs) G (fold add xs G)"
proof (induction xs arbitrary: G)
  case (Cons x xs)
  then have "steps_to at B (put x) G (add x G)" "steps_to at B (put_all put xs) (add x G) (fold add xs (add x G))"
    by simp_all
  then show ?case by (fastforce simp: steps_to_def)
qed (simp add: steps_to_def)

locale conforming_store =
  fixes S :: "('st, 's, unit) Store" and W :: "'s WriteTx"
    and store_at :: "'st \<Rightarrow> Version \<Rightarrow> Graph \<Rightarrow> bool" and tx_at :: "Graph \<Rightarrow> 's \<Rightarrow> Graph \<Rightarrow> bool"
    and I :: "ID set"
  assumes stable_ids: "i \<in> I \<Longrightarrow> id_stable i"
    and current: "store_at s v G \<Longrightarrow> sto_CurrentVersion S s = Inr v"
    and view: "store_at s v G \<Longrightarrow> \<exists>r. sto_View S s = Inr r \<and> rt_Version r = v \<and> reads_graph r G"
    and commit: "store_at s v G \<Longrightarrow> v \<noteq> - 1 \<Longrightarrow>
      (\<And>w. tx_at G w G \<Longrightarrow> \<exists>w'. f w = Some (Inr (w', ())) \<and> tx_at G w' G') \<Longrightarrow>
      \<exists>s'. sto_Update S f s = Some (Inr (v + 1, ()), s') \<and> store_at s' (v + 1) G'"
    and rollback: "store_at s v G \<Longrightarrow> (\<And>w. tx_at G w G \<Longrightarrow> \<exists>e. f w = Some (Inl e) \<and> P e) \<Longrightarrow>
      \<exists>e s'. sto_Update S f s = Some (Inl e, s') \<and> P e \<and> store_at s' v G"
    and put_person: "Person_wf p \<Longrightarrow> Person_stable p \<Longrightarrow> P_id p \<in> I \<Longrightarrow>
      steps_to tx_at B (wt_PutPerson W p) G (add_person p G)"
    and put_rel: "Relationship_wf r \<Longrightarrow> Relationship_stable r \<Longrightarrow> R_id r \<in> I \<Longrightarrow>
      g_persons G (R_from r) \<noteq> None \<Longrightarrow> g_persons G (R_to r) \<noteq> None \<Longrightarrow>
      steps_to tx_at B (wt_PutRelationship W r) G (add_rel r G)"
    and put_rel_dangling: "Relationship_wf r \<Longrightarrow> Relationship_stable r \<Longrightarrow> R_id r \<in> I \<Longrightarrow>
      g_persons G (R_from r) = None \<or> g_persons G (R_to r) = None \<Longrightarrow>
      fails_as tx_at B (wt_PutRelationship W r) G CodePersonNotFound"
    and delete_rel: "g_rels G i \<noteq> None \<Longrightarrow>
      steps_to tx_at B (wt_DeleteRelationship W i) G (drop_rel i G)"
    and delete_rel_absent: "g_rels G i = None \<Longrightarrow>
      fails_as tx_at B (wt_DeleteRelationship W i) G CodeRelationshipNotFound"
    and put_source: "Source_wf x \<Longrightarrow> Source_stable x \<Longrightarrow> S_id x \<in> I \<Longrightarrow>
      steps_to tx_at B (wt_PutSource W x) G (add_source x G)"
    and put_prop: "keepable q \<Longrightarrow>
      (\<And>old. g_props B (Q_id q) = Some old \<Longrightarrow> \<not> IsTerminal (Q_state old)) \<Longrightarrow>
      steps_to tx_at B (wt_PutProposal W q) B (add_prop q B)"
    and put_prop_terminal: "Q_id q \<noteq> '''' \<Longrightarrow> g_props B (Q_id q) = Some old \<Longrightarrow>
      IsTerminal (Q_state old) \<Longrightarrow> Q_state old \<noteq> Q_state q \<Longrightarrow>
      fails_as tx_at B (wt_PutProposal W q) B CodeImmutableTerminalProposal"
begin

text \<open>The rules that run a test forward, one call at a time.\<close>

lemma run_current: "store_at s v G \<Longrightarrow> require_NoError (sto_CurrentVersion S s) k = k v"
  by (simp add: current)

lemma run_view:
  assumes "store_at s v G" and "\<And>r. rt_Version r = v \<Longrightarrow> reads_graph r G \<Longrightarrow> k r = out"
  shows "require_NoError (sto_View S s) k = out"
  using view [OF assms(1)] assms(2) by auto

lemma run_commit:
  assumes "store_at s v G" and "v \<noteq> - 1" and "steps_to tx_at G f G G'"
    and "\<And>s'. store_at s' (v + 1) G' \<Longrightarrow> k (Inr (v + 1)) s' = out"
  shows "update S f s k = out"
proof -
  have "\<exists>w'. Some (bindE (f w) (\<lambda>w. Inr (w, ()))) = Some (Inr (w', ())) \<and> tx_at G w' G'" if "tx_at G w G" for w
    using assms(3) that by (auto simp: steps_to_def)
  then have "\<exists>s'. sto_Update S (\<lambda>w. Some (bindE (f w) (\<lambda>w. Inr (w, ())))) s = Some (Inr (v + 1, ()), s') \<and>
      store_at s' (v + 1) G'"
    by (rule commit [OF assms(1,2)])
  with assms(4) show ?thesis by (auto simp: update_def)
qed

lemma run_rollback:
  assumes "store_at s v G" and "fails_as tx_at G f G c"
    and "\<And>e s'. HasCode e c \<Longrightarrow> store_at s' v G \<Longrightarrow> k (Inl e) s' = out"
  shows "update S f s k = out"
proof -
  have "\<exists>e. Some (bindE (f w) (\<lambda>w. Inr (w, ()))) = Some (Inl e) \<and> HasCode e c" if "tx_at G w G" for w
    using assms(2) that by (auto simp: fails_as_def)
  then have "\<exists>e s'. sto_Update S (\<lambda>w. Some (bindE (f w) (\<lambda>w. Inr (w, ())))) s = Some (Inl e, s') \<and>
      HasCode e c \<and> store_at s' v G"
    by (rule rollback [OF assms(1)])
  with assms(3) show ?thesis by (auto simp: update_def)
qed

lemma run_return:
  assumes "store_at s v G" and "\<And>s'. store_at s' v G \<Longrightarrow> k (Inl e) s' = out"
  shows "update S (\<lambda>w. Inl e) s k = out"
  using rollback [OF assms(1), of "\<lambda>w. Some (Inl e)" "\<lambda>e'. e' = e"] assms(2) by (auto simp: update_def)


text \<open>The tests that use no id.\<close>

lemma InitialVersion: "store_at s 0 empty_graph \<Longrightarrow> testInitialVersion S W s ids = Some True"
  by (simp add: testInitialVersion_def run_current)

text \<open>The ids of a test: the first seven draws are distinct and in \<open>I\<close>.\<close>

lemma ids_distinct:
  assumes "draws I ids" and "i < 7" "j < 7"
  shows "ids i = ids j \<longleftrightarrow> i = j" and "ids i \<in> I" and "ids i \<noteq> ''''" and "id_stable (ids i)"
  using assms stable_ids [of "ids i"] by (auto simp: draws_def id_stable_def inj_on_eq_iff)

lemma step_person:
  assumes "draws I ids" and "i < 7" and "plain name"
  shows "mustPerson (ids i) name = Inr (test_person (ids i) name)"
    and "steps_to tx_at B (wt_PutPerson W (test_person (ids i) name)) G (add_person (test_person (ids i) name) G)"
  using ids_distinct [OF assms(1,2,2)] plainD [OF assms(3)] test_person_ok [of "ids i" name]
  by (auto simp: must_Inr intro: put_person)

lemma step_rel:
  assumes "draws I ids" and "i < 7" "a < 7" "b < 7" and "a \<noteq> b" and "Certainty_IsValid c"
  shows "mustParentChild (ids i) (ids a) (ids b) c = Inr (test_edge (ids i) (ids a) (ids b) RelTypeParentChild c)"
    and "mustMarriage (ids i) (ids a) (ids b) = Inr (test_edge (ids i) (ids a) (ids b) RelTypeMarriage CertaintyCertain)"
    and "RelationshipType_IsValid t \<Longrightarrow> g_persons G (ids a) \<noteq> None \<Longrightarrow> g_persons G (ids b) \<noteq> None \<Longrightarrow>
      steps_to tx_at B (wt_PutRelationship W (test_edge (ids i) (ids a) (ids b) t c)) G
        (add_rel (test_edge (ids i) (ids a) (ids b) t c) G)"
    and "RelationshipType_IsValid t \<Longrightarrow> g_persons G (ids a) = None \<Longrightarrow>
      fails_as tx_at B (wt_PutRelationship W (test_edge (ids i) (ids a) (ids b) t c)) G CodePersonNotFound"
  using ids_distinct [OF assms(1,2,2)] ids_distinct [OF assms(1,3,4)] ids_distinct [OF assms(1,4,4)]
    test_edge_ok [of "ids i" "ids a" "ids b" t c] assms(5,6)
  by (auto simp: must_Inr intro: put_rel put_rel_dangling)

lemma step_source:
  assumes "draws I ids" and "i < 7"
  shows "mustSource (ids i) = Inr (test_source (ids i))"
    and "steps_to tx_at B (wt_PutSource W (test_source (ids i))) G (add_source (test_source (ids i)) G)"
  using ids_distinct [OF assms(1,2,2)] test_source_ok [of "ids i"] by (auto simp: must_Inr intro: put_source)

lemma valid_consts [simp]:
  "Certainty_IsValid CertaintyCertain" "Certainty_IsValid CertaintyProbable"
  "RelationshipType_IsValid RelTypeParentChild" "RelationshipType_IsValid RelTypeMarriage"
  by (simp_all add: Certainty_IsValid_def RelationshipType_IsValid_def go_consts)

lemma PersonRoundTrip:
  assumes "store_at s 0 empty_graph" and d: "draws I ids"
  shows "testPersonRoundTrip S W s ids = Some True"
  unfolding testPersonRoundTrip_def
  by (simp add: step_person(1) [OF d] plain_names, rule run_commit [OF assms(1) _ step_person(2) [OF d]])
    (auto simp: plain_names reads_lookup intro!: run_view)

lemma RelationshipRoundTrip:
  assumes "store_at s 0 empty_graph" and d: "draws I ids"
  shows "testRelationshipRoundTrip S W s ids = Some True"
  unfolding testRelationshipRoundTrip_def
  by (simp add: step_person(1) [OF d] step_rel(1) [OF d] plain_names,
      rule run_commit [OF assms(1) _ steps_bind [OF step_person(2) [OF d]
        steps_bind [OF step_person(2) [OF d] step_rel(3) [OF d]]]])
    (auto simp: plain_names reads_lookup intro!: run_view)

lemma SourceRoundTrip:
  assumes "store_at s 0 empty_graph" and d: "draws I ids"
  shows "testSourceRoundTrip S W s ids = Some True"
  unfolding testSourceRoundTrip_def
  by (simp add: step_source(1) [OF d], rule run_commit [OF assms(1) _ step_source(2) [OF d]])
    (auto simp: reads_lookup intro!: run_view)

lemma ProposalRoundTrip:
  assumes "store_at s 0 empty_graph" and d: "draws I ids"
  shows "testProposalRoundTrip S W s ids = Some True"
  unfolding testProposalRoundTrip_def
  using ids_distinct [OF d, of 0 0] test_proposal_ok [of "ids 0"]
  by (simp add: must_Inr, intro run_commit [OF assms(1) _ put_prop])
    (auto simp: reads_lookup intro!: run_view)

lemma SnapshotIsolation:
  assumes "store_at s 0 empty_graph" and d: "draws I ids"
  shows "testSnapshotIsolation S W s ids = Some True"
  unfolding testSnapshotIsolation_def
  by (rule run_view [OF assms(1)], simp add: step_person(1) [OF d] plain_names,
      rule run_commit [OF assms(1) _ step_person(2) [OF d]])
    (auto simp: plain_names reads_lookup require_absent intro!: run_view)

lemma RelMissingEndpoint:
  assumes "store_at s 0 empty_graph" and d: "draws I ids"
  shows "testRelMissingEndpoint S W s ids = Some True"
  unfolding testRelMissingEndpoint_def
  by (simp add: step_person(1) [OF d] step_rel(1) [OF d] plain_names Let_def,
      rule run_rollback [OF assms(1) fails_bind [OF step_person(2) [OF d] step_rel(4) [OF d]]])
    (auto simp: plain_names ids_distinct [OF d])

lemma NotFoundCodes:
  assumes "store_at s 0 empty_graph"
  shows "testNotFoundCodes S W s ids = Some True"
  unfolding testNotFoundCodes_def by (rule run_view [OF assms]) (simp add: require_absent Let_def)

lemma Rollback:
  assumes "store_at s 0 empty_graph" and d: "draws I ids"
  shows "testRollback S W s ids = Some True"
  unfolding testRollback_def
  by (simp add: run_current [OF assms(1)] step_person(1) [OF d] plain_names, rule run_return [OF assms(1)])
    (simp add: run_current require_ErrorIs_def sentinel_def)

text \<open>The loop of \<open>testVersioning\<close> advances the version once per round.\<close>

lemma versioning_loop_run:
  assumes d: "draws I ids"
  shows "store_at s (word_of_nat m) G \<Longrightarrow> m + n \<le> 6 \<Longrightarrow>
    (\<And>s' G'. store_at s' (word_of_nat (m + n)) G' \<Longrightarrow> k s' = out) \<Longrightarrow>
    versioning_loop S W ids (map Suc [m..<m + n]) s k = out"
proof (induction n arbitrary: m s G)
  case (Suc n)
  have upt: "[m..<m + Suc n] = m # [Suc m..<Suc m + n]" by (simp add: upt_conv_Cons)
  have "m \<in> {0, 1, 2, 3, 4, 5}" using Suc.prems(2) by auto
  then have m: "m < 7" "word_of_nat m \<noteq> (- 1 :: Version)" by auto
  define rest where "rest = map Suc [Suc m..<Suc m + n]"
  have IH: "versioning_loop S W ids rest s' k = out" if "store_at s' (word_of_nat m + 1) G'" for s' G'
    unfolding rest_def using that Suc.prems(2,3) by (intro Suc.IH) (simp_all add: add.commute)
  have "map Suc [m..<m + Suc n] = Suc m # rest" by (simp only: upt rest_def list.map)
  with m IH show ?case
    by (simp add: step_person(1) [OF d] plain_names)
      (rule run_commit [OF Suc.prems(1) m(2) step_person(2) [OF d]], simp_all add: plain_names add.commute)
qed simp

lemma Versioning:
  assumes "store_at s 0 empty_graph" and d: "draws I ids"
  shows "testVersioning S W s ids = Some True"
proof -
  have "[1, 2, 3, 4, 5] = map Suc [0..<0 + 5]" by (simp add: upt_rec)
  then show ?thesis
    unfolding testVersioning_def
    using assms(1) by (simp only:) (rule versioning_loop_run [OF d], simp_all add: run_current)
qed

lemma Deletes:
  assumes "store_at s 0 empty_graph" and d: "draws I ids"
  shows "testDeletes S W s ids = Some True"
proof -
  have again: "update S (wt_DeleteRelationship W i) s (\<lambda>res s. require_code res CodeRelationshipNotFound k) = k"
    if "store_at s v G" "g_rels G i = None" for s v G i k
    by (rule run_rollback [OF that(1) delete_rel_absent [OF that(2)]]) simp
  have delete: "update S (wt_DeleteRelationship W i) s (\<lambda>res s. require_NoError res (\<lambda>_.
      require_NoError (sto_View S s) (\<lambda>rtx.
      require_code (rt_GetRelationship rtx i) CodeRelationshipNotFound (k s)))) = out"
    if "store_at s 1 G" "g_rels G i \<noteq> None" "\<And>s. store_at s 2 (drop_rel i G) \<Longrightarrow> k s = out" for s G i k out
    using that by (intro run_commit [OF that(1) _ delete_rel]) (auto intro!: run_view simp: require_absent)
  show ?thesis
    unfolding testDeletes_def
    by (simp add: step_person(1) [OF d] step_rel(1) [OF d] plain_names del: fold.simps,
        rule run_commit [OF assms(1) _ steps_ignoring [OF step_person(2) [OF d]
          steps_ignoring [OF step_person(2) [OF d] steps_ignored [OF step_rel(3) [OF d]]]]])
      (auto simp: plain_names intro!: delete again)
qed

lemma IteratorEarlyTerm:
  assumes "store_at s 0 empty_graph" and d: "draws I ids"
  shows "testIteratorEarlyTerm S W s ids = Some True"
proof -
  let ?ps = "map (\<lambda>i. test_person (ids i) ''p'') [0, 1, 2, 3, 4]"
  have ps: "mapE (\<lambda>i. mustPerson (ids i) ''p'') [0, 1, 2, 3, 4] = Inr ?ps"
    by (simp add: step_person(1) [OF d] plain_names)
  have "steps_to tx_at B (put_all (wt_PutPerson W) ?ps) G (fold add_person ?ps G)" for B G
    by (rule steps_put_all) (auto intro!: step_person(2) [OF d] plain_names)
  moreover have "run_iter (rt_IteratePersons r) (\<lambda>_ n. (n + 1, n + 1 < 3)) (0 :: int) = (3, None)"
    if r: "reads_graph r (fold add_person ?ps empty_graph)" for r
  proof (rule count_stops)
    have "ran (g_persons (fold add_person ?ps empty_graph)) = set ?ps"
      by (simp add: ids_distinct [OF d] ran_map_upd insert_commute)
    moreover have five: "length ?ps = 5" by simp
    have "distinct (map P_id ?ps)" by (simp add: ids_distinct [OF d])
    then have "card (set ?ps) = 5" by (metis distinct_card distinct_map five)
    ultimately show "3 \<le> length (fst (rt_IteratePersons r))"
      using r by (simp add: reads_graph_def enumerates_def distinct_card [symmetric])
  qed
  ultimately show ?thesis
    unfolding testIteratorEarlyTerm_def ps
    by (simp only: require_simps) (rule run_commit [OF assms(1)], auto intro!: run_view)
qed

lemma SourceIteration:
  assumes "store_at s 0 empty_graph" and d: "draws I ids"
  shows "testSourceIteration S W s ids = Some True"
proof -
  let ?xs = "[test_source (ids 0), test_source (ids 1), test_source (ids 2)]"
  let ?G = "fold add_source ?xs empty_graph"
  have put: "steps_to tx_at B (put_all (wt_PutSource W) ?xs) G (fold add_source ?xs G)" for B G
    by (rule steps_put_all) (auto intro!: step_source(2) [OF d])
  have "set ?xs = ran (g_sources ?G)"
    by (simp add: ids_distinct [OF d] ran_map_upd insert_commute)
  then have "enumerates (rt_IterateSources r) (set ?xs)" if "reads_graph r ?G" for r
    using that by (simp only: reads_graph_def)
  moreover have "distinct ?xs" by (simp add: test_source_def ids_distinct [OF d])
  ultimately have "require_matching [ids 0, ids 1, ids 2] (run_iter (rt_IterateSources r) (collect S_id) []) k = k"
    if "reads_graph r ?G" for r k
    using that by (intro require_matching_run) (assumption | simp)+
  then show ?thesis
    unfolding testSourceIteration_def
    by (simp add: step_source(1) [OF d] del: put_all.simps fold.simps One_nat_def, intro run_commit [OF assms(1) _ put])
      (auto intro!: run_view simp del: fold.simps One_nat_def)
qed

lemma ParentChildIteration:
  assumes "store_at s 0 empty_graph" and d: "draws I ids"
  shows "testParentChildIteration S W s ids = Some True"
proof -
  let ?e = "\<lambda>i a b. test_edge (ids i) (ids a) (ids b) RelTypeParentChild CertaintyCertain"
  let ?p = "\<lambda>i name G. add_person (test_person (ids i) name) G"
  let ?P = "?p 3 ''Other'' (?p 2 ''C2'' (?p 1 ''C1'' (?p 0 ''Parent'' empty_graph)))"
  let ?G = "add_rel (?e 6 3 1) (add_rel (?e 5 0 2) (add_rel (?e 4 0 1) ?P))"
  note D = ids_distinct [OF d]
  have "ran (g_rels ?G) = {?e 4 0 1, ?e 5 0 2, ?e 6 3 1}"
    by (simp add: D ran_map_upd insert_commute)
  then have "children_of ?G (ids 0) = set [?e 4 0 1, ?e 5 0 2]" "parents_of ?G (ids 1) = set [?e 4 0 1, ?e 6 3 1]"
    by (auto simp: children_of_def parents_of_def D)
  then have enum: "enumerates (rt_IterateChildren r (ids 0)) (set [?e 4 0 1, ?e 5 0 2])"
    "enumerates (rt_IterateParents r (ids 1)) (set [?e 4 0 1, ?e 6 3 1])" if "reads_graph r ?G" for r
    using that by (auto simp: reads_graph_def D)
  have match:
    "require_matching [ids 1, ids 2] (run_iter (rt_IterateChildren r (ids 0)) (collect R_to) []) k = k"
    "require_matching [ids 0, ids 3] (run_iter (rt_IterateParents r (ids 1)) (collect R_from) []) k = k"
    if "reads_graph r ?G" for r k
    by (rule require_matching_run [OF enum(1) [OF that]], simp_all add: D)
      (rule require_matching_run [OF enum(2) [OF that, simplified One_nat_def]], simp_all add: D)
  have "steps_to tx_at B (\<lambda>tx. wt_PutRelationship W (?e 6 3 1) (fold ignoring
      [wt_PutPerson W (test_person (ids 0) ''Parent''), wt_PutPerson W (test_person (ids 1) ''C1''),
       wt_PutPerson W (test_person (ids 2) ''C2''), wt_PutPerson W (test_person (ids 3) ''Other''),
       wt_PutRelationship W (?e 4 0 1), wt_PutRelationship W (?e 5 0 2)] tx)) empty_graph ?G" for B
    by (rule steps_ignoring steps_ignored step_person(2) [OF d] step_rel(3) [OF d] | simp add: plain_names)+
  then show ?thesis
    unfolding testParentChildIteration_def
    by (simp add: step_person(1) [OF d] step_rel(1) [OF d] plain_names del: fold.simps One_nat_def,
        intro run_commit [OF assms(1)])
      (auto intro!: run_view simp: match simp del: One_nat_def fold.simps)
qed

lemma MarriageIteration:
  assumes "store_at s 0 empty_graph" and d: "draws I ids"
  shows "testMarriageIteration S W s ids = Some True"
proof -
  let ?e = "\<lambda>i a b. test_edge (ids i) (ids a) (ids b) RelTypeMarriage CertaintyCertain"
  let ?p = "\<lambda>i name G. add_person (test_person (ids i) name) G"
  let ?P = "?p 2 ''C'' (?p 1 ''B'' (?p 0 ''A'' empty_graph))"
  let ?G = "add_rel (?e 4 0 2) (add_rel (?e 3 0 1) ?P)"
  note D = ids_distinct [OF d]
  have "ran (g_rels ?G) = {?e 3 0 1, ?e 4 0 2}"
    by (simp add: D ran_map_upd insert_commute)
  then have "marriages_of ?G (ids 0) = set [?e 3 0 1, ?e 4 0 2]"
    by (auto simp: marriages_of_def)
  then have enum: "enumerates (rt_IterateMarriages r (ids 0)) (set [?e 3 0 1, ?e 4 0 2])" if "reads_graph r ?G" for r
    using that by (auto simp: reads_graph_def D)
  have match: "require_matching [ids 1, ids 2]
      (run_iter (rt_IterateMarriages r (ids 0)) (collect (partner (ids 0))) []) k = k" if "reads_graph r ?G" for r k
    by (rule require_matching_run [OF enum [OF that]]) (simp_all add: D partner_def)
  have put: "steps_to tx_at B (\<lambda>tx. wt_PutRelationship W (?e 4 0 2) (fold ignoring
      [wt_PutPerson W (test_person (ids 0) ''A''), wt_PutPerson W (test_person (ids 1) ''B''),
       wt_PutPerson W (test_person (ids 2) ''C''), wt_PutRelationship W (?e 3 0 1)] tx)) empty_graph ?G" for B
    by (rule steps_ignoring steps_ignored step_person(2) [OF d] step_rel(3) [OF d] | simp add: plain_names)+
  show ?thesis
    unfolding testMarriageIteration_def
    by (simp add: step_person(1) [OF d] step_rel(2) [OF d _ _ _ _ valid_consts(1)] plain_names
        del: fold.simps One_nat_def, rule run_commit [OF assms(1) _ put])
      (auto intro!: run_view simp: match simp del: One_nat_def fold.simps)
qed

text \<open>The moves of the last test, which the table of governance does not all allow.\<close>

lemma TerminalProposal:
  assumes "store_at s 0 empty_graph" and d: "draws I ids"
  shows "testTerminalProposal S W s ids = Some True"
proof -
  let ?p = "test_proposal (ids 0)"
  let ?q = "WithStateUnchecked ?p ProposalAccepted
    \<lparr>T_From = ProposalDraft, T_To = ProposalAccepted, T_Actor = ''curator'', T_Timestamp = 1, T_Reason = ''''\<rparr>"
  have q: "Q_id ?q = ids 0" "Q_state ?q = ProposalAccepted"
    by (simp_all add: WithStateUnchecked_def withState_def test_proposal_def)
  have p: "keepable ?p" "mustProposal (ids 0) = Inr ?p" "ids 0 \<noteq> ''''"
    using ids_distinct [OF d, of 0 0] test_proposal_ok by (auto simp: must_Inr)
  have "keepable ?q"
    using p(1) by (simp add: keepable_def WithStateUnchecked_def withState_def intent_ok_def replayed_def
        Proposal_stable_def proposalTransWire_ok_def transition_wire_def int64_def sample_simps test_proposal_def)
  then have accept: "steps_to tx_at (add_prop ?p empty_graph) (wt_PutProposal W ?q) (add_prop ?p empty_graph)
      (add_prop ?q (add_prop ?p empty_graph))"
    by (rule put_prop) (auto simp: q IsTerminal_def go_consts)
  have reject: "fails_as tx_at (add_prop ?q (add_prop ?p empty_graph)) (wt_PutProposal W (WithStateUnchecked ?q ProposalRejected t))
      (add_prop ?q (add_prop ?p empty_graph)) CodeImmutableTerminalProposal" for t
    by (rule put_prop_terminal [where old = ?q])
      (simp_all add: p(3) q IsTerminal_def, simp_all add: WithStateUnchecked_def withState_def test_proposal_def go_consts p(3) [simplified])
  have create: "steps_to tx_at empty_graph (wt_PutProposal W ?p) empty_graph (add_prop ?p empty_graph)"
    by (rule put_prop [OF p(1)]) simp
  show ?thesis
    unfolding testTerminalProposal_def p(2) Let_def require_simps
    by (rule run_commit [OF assms(1) _ create], simp, unfold require_simps, rule run_commit [OF _ _ accept],
        assumption, simp, unfold require_simps, rule run_rollback [OF _ reject], assumption, simp)
qed

lemma all_tests_pass:
  assumes "store_at fresh 0 empty_graph" and "\<And>name. draws I (ids name)"
  shows "Run S W fresh ids = all_pass"
  using assms
  by (simp add: Run_def conformance_cases_def all_pass_def InitialVersion PersonRoundTrip RelationshipRoundTrip
      SourceRoundTrip ProposalRoundTrip Versioning SnapshotIsolation RelMissingEndpoint Deletes NotFoundCodes
      IteratorEarlyTerm ParentChildIteration MarriageIteration SourceIteration Rollback TerminalProposal)

end

end
