(* ===== verification/Memory.thy ===== *)
theory Memory
  imports StoreApi
begin

text \<open>
  The in-memory adapter (src/store/memory): the immutable snapshots and the store with its history
  of versions (memory.go), the read transaction (readtx.go) and the copy-on-write transaction with
  its overlays (writetx.go). \<open>mem_ReadTx\<close> and \<open>mem_WriteTx\<close> are the interface values that the
  other packages see; the interpretations show that they keep the contracts of the port.

  The mutex makes every method one atomic step, so a method is a function of the store. A pointer
  to a snapshot is the snapshot itself, as snapshots are never changed once they are published.
\<close>

section \<open>Snapshots\<close>

record state =
  st_version :: Version
  st_persons :: "(ID, Person) gomap"
  st_relationships :: "(ID, Relationship) gomap"
  st_sources :: "(ID, Source) gomap"
  st_proposals :: "(ID, Proposal) gomap"

definition emptyState :: state where
  "emptyState = \<lparr>st_version = 0, st_persons = [], st_relationships = [], st_sources = [],
     st_proposals = []\<rparr>"


section \<open>Read transactions\<close>

record readTx =
  rx_state :: state
  rx_closed :: bool

definition readTx_Close :: "readTx \<Rightarrow> readTx" where
  "readTx_Close r = r\<lparr>rx_closed := True\<rparr>"

definition readTx_GetPerson :: "readTx \<Rightarrow> ID \<Rightarrow> error + Person" where
  "readTx_GetPerson r i = (case gm_get (st_persons (rx_state r)) i of
     Some p \<Rightarrow> Inr p
   | None \<Rightarrow> Inl (New CodePersonNotFound (''person '' @ i)))"

definition readTx_GetRelationship :: "readTx \<Rightarrow> ID \<Rightarrow> error + Relationship" where
  "readTx_GetRelationship r i = (case gm_get (st_relationships (rx_state r)) i of
     Some rel \<Rightarrow> Inr rel
   | None \<Rightarrow> Inl (New CodeRelationshipNotFound (''relationship '' @ i)))"

definition readTx_GetSource :: "readTx \<Rightarrow> ID \<Rightarrow> error + Source" where
  "readTx_GetSource r i = (case gm_get (st_sources (rx_state r)) i of
     Some s \<Rightarrow> Inr s
   | None \<Rightarrow> Inl (New CodeSourceNotFound (''source '' @ i)))"

definition readTx_GetProposal :: "readTx \<Rightarrow> ID \<Rightarrow> error + Proposal" where
  "readTx_GetProposal r i = (case gm_get (st_proposals (rx_state r)) i of
     Some p \<Rightarrow> Inr p
   | None \<Rightarrow> Inl (New CodeProposalNotFound (''proposal '' @ i)))"

text \<open>
  The iterators range over a map of the snapshot, offer the values that pass their test, and
  return nil.
\<close>

definition readTx_IterateChildren :: "readTx \<Rightarrow> ID \<Rightarrow> Relationship iter" where
  "readTx_IterateChildren r parent =
     (filter (\<lambda>rel. R_type rel = RelTypeParentChild \<and> R_from rel = parent)
        (gm_vals (st_relationships (rx_state r))), None)"

definition readTx_IterateParents :: "readTx \<Rightarrow> ID \<Rightarrow> Relationship iter" where
  "readTx_IterateParents r child =
     (filter (\<lambda>rel. R_type rel = RelTypeParentChild \<and> R_to rel = child)
        (gm_vals (st_relationships (rx_state r))), None)"

definition readTx_IterateMarriages :: "readTx \<Rightarrow> ID \<Rightarrow> Relationship iter" where
  "readTx_IterateMarriages r person =
     (filter (\<lambda>rel. \<not> R_type rel \<noteq> RelTypeMarriage \<and> (R_from rel = person \<or> R_to rel = person))
        (gm_vals (st_relationships (rx_state r))), None)"

definition readTx_IteratePersons :: "readTx \<Rightarrow> Person iter" where
  "readTx_IteratePersons r = (gm_vals (st_persons (rx_state r)), None)"

definition readTx_IterateRelationships :: "readTx \<Rightarrow> Relationship iter" where
  "readTx_IterateRelationships r = (gm_vals (st_relationships (rx_state r)), None)"

definition readTx_IterateSources :: "readTx \<Rightarrow> Source iter" where
  "readTx_IterateSources r = (gm_vals (st_sources (rx_state r)), None)"

definition readTx_IterateProposals :: "readTx \<Rightarrow> Proposal iter" where
  "readTx_IterateProposals r = (gm_vals (st_proposals (rx_state r)), None)"

text \<open>The \<open>store.ReadTx\<close> that a \<open>*readTx\<close> is.\<close>

definition mem_ReadTx :: "readTx \<Rightarrow> ReadTx" where
  "mem_ReadTx r =
     \<lparr>rt_Version = st_version (rx_state r),
      rt_GetPerson = readTx_GetPerson r,
      rt_GetRelationship = readTx_GetRelationship r,
      rt_GetSource = readTx_GetSource r,
      rt_GetProposal = readTx_GetProposal r,
      rt_IterateChildren = readTx_IterateChildren r,
      rt_IterateParents = readTx_IterateParents r,
      rt_IterateMarriages = readTx_IterateMarriages r,
      rt_IteratePersons = readTx_IteratePersons r,
      rt_IterateRelationships = readTx_IterateRelationships r,
      rt_IterateSources = readTx_IterateSources r,
      rt_IterateProposals = readTx_IterateProposals r\<rparr>"


section \<open>Write transactions\<close>

record writeTx =
  wx_readTx :: readTx
  wx_base :: state
  wx_personOver :: "(ID, Person option) gomap"
  wx_relOver :: "(ID, Relationship option) gomap"
  wx_srcOver :: "(ID, Source option) gomap"
  wx_propOver :: "(ID, Proposal option) gomap"

definition newWriteTx :: "state \<Rightarrow> writeTx" where
  "newWriteTx b =
     \<lparr>wx_readTx = \<lparr>rx_state = b, rx_closed = False\<rparr>, wx_base = b, wx_personOver = [],
      wx_relOver = [], wx_srcOver = [], wx_propOver = []\<rparr>"

definition writeTx_GetPerson :: "writeTx \<Rightarrow> ID \<Rightarrow> error + Person" where
  "writeTx_GetPerson w i = (case gm_get (wx_personOver w) i of
     Some v \<Rightarrow> (case v of None \<Rightarrow> Inl (New CodePersonNotFound (''person '' @ i)) | Some p \<Rightarrow> Inr p)
   | None \<Rightarrow> readTx_GetPerson (wx_readTx w) i)"

definition writeTx_GetRelationship :: "writeTx \<Rightarrow> ID \<Rightarrow> error + Relationship" where
  "writeTx_GetRelationship w i = (case gm_get (wx_relOver w) i of
     Some v \<Rightarrow> (case v of
         None \<Rightarrow> Inl (New CodeRelationshipNotFound (''relationship '' @ i)) | Some rel \<Rightarrow> Inr rel)
   | None \<Rightarrow> readTx_GetRelationship (wx_readTx w) i)"

definition writeTx_GetSource :: "writeTx \<Rightarrow> ID \<Rightarrow> error + Source" where
  "writeTx_GetSource w i = (case gm_get (wx_srcOver w) i of
     Some v \<Rightarrow> (case v of None \<Rightarrow> Inl (New CodeSourceNotFound (''source '' @ i)) | Some s \<Rightarrow> Inr s)
   | None \<Rightarrow> readTx_GetSource (wx_readTx w) i)"

definition writeTx_GetProposal :: "writeTx \<Rightarrow> ID \<Rightarrow> error + Proposal" where
  "writeTx_GetProposal w i = (case gm_get (wx_propOver w) i of
     Some v \<Rightarrow> (case v of
         None \<Rightarrow> Inl (New CodeProposalNotFound (''proposal '' @ i)) | Some p \<Rightarrow> Inr p)
   | None \<Rightarrow> readTx_GetProposal (wx_readTx w) i)"

definition hasPerson :: "writeTx \<Rightarrow> ID \<Rightarrow> bool" where
  "hasPerson w i = (case gm_get (wx_personOver w) i of
     Some v \<Rightarrow> v \<noteq> None
   | None \<Rightarrow> gm_get (st_persons (wx_base w)) i \<noteq> None)"

definition writeTx_PutPerson :: "Person \<Rightarrow> writeTx \<Rightarrow> error + writeTx" where
  "writeTx_PutPerson p w =
     (if ID_IsZero (P_id p) then Inl (New CodeInvalidArgument ''person id required'')
      else Inr (w\<lparr>wx_personOver := gm_put (P_id p) (Some p) (wx_personOver w)\<rparr>))"

definition writeTx_DeletePerson :: "ID \<Rightarrow> writeTx \<Rightarrow> error + writeTx" where
  "writeTx_DeletePerson i w = bindE (writeTx_GetPerson w i)
     (\<lambda>_. Inr (w\<lparr>wx_personOver := gm_put i None (wx_personOver w)\<rparr>))"

definition writeTx_PutRelationship :: "Relationship \<Rightarrow> writeTx \<Rightarrow> error + writeTx" where
  "writeTx_PutRelationship r w =
     (if ID_IsZero (R_id r) then Inl (New CodeInvalidArgument ''relationship id required'')
      else if \<not> hasPerson w (R_from r)
      then Inl (New CodePersonNotFound
             (''relationship '' @ R_id r @ '': from-person '' @ R_from r @ '' missing''))
      else if \<not> hasPerson w (R_to r)
      then Inl (New CodePersonNotFound
             (''relationship '' @ R_id r @ '': to-person '' @ R_to r @ '' missing''))
      else Inr (w\<lparr>wx_relOver := gm_put (R_id r) (Some r) (wx_relOver w)\<rparr>))"

definition writeTx_DeleteRelationship :: "ID \<Rightarrow> writeTx \<Rightarrow> error + writeTx" where
  "writeTx_DeleteRelationship i w = bindE (writeTx_GetRelationship w i)
     (\<lambda>_. Inr (w\<lparr>wx_relOver := gm_put i None (wx_relOver w)\<rparr>))"

definition writeTx_PutSource :: "Source \<Rightarrow> writeTx \<Rightarrow> error + writeTx" where
  "writeTx_PutSource s w =
     (if ID_IsZero (S_id s) then Inl (New CodeInvalidArgument ''source id required'')
      else Inr (w\<lparr>wx_srcOver := gm_put (S_id s) (Some s) (wx_srcOver w)\<rparr>))"

definition writeTx_DeleteSource :: "ID \<Rightarrow> writeTx \<Rightarrow> error + writeTx" where
  "writeTx_DeleteSource i w = bindE (writeTx_GetSource w i)
     (\<lambda>_. Inr (w\<lparr>wx_srcOver := gm_put i None (wx_srcOver w)\<rparr>))"

text \<open>The double check of the terminal rule looks at the committed proposals only.\<close>

definition terminal_clash :: "Proposal option \<Rightarrow> Proposal \<Rightarrow> error option" where
  "terminal_clash existing p = (case existing of
     None \<Rightarrow> None
   | Some old \<Rightarrow>
       (if IsTerminal (Q_state old) \<and> Q_state old \<noteq> Q_state p
        then Some (New CodeImmutableTerminalProposal
               (''proposal '' @ Q_id p @ '' is in terminal state ''
                @ ProposalState_String (Q_state old)))
        else None))"

definition writeTx_PutProposal :: "Proposal \<Rightarrow> writeTx \<Rightarrow> error + writeTx" where
  "writeTx_PutProposal p w =
     (if ID_IsZero (Q_id p) then Inl (New CodeInvalidArgument ''proposal id required'')
      else case terminal_clash (gm_get (st_proposals (wx_base w)) (Q_id p)) p of
        Some e \<Rightarrow> Inl e
      | None \<Rightarrow> Inr (w\<lparr>wx_propOver := gm_put (Q_id p) (Some p) (wx_propOver w)\<rparr>))"

text \<open>
  The \<open>store.WriteTx\<close> that a \<open>*writeTx\<close> is: its getters are the overriding ones, its iterators are
  promoted from the embedded \<open>readTx\<close>.
\<close>

definition mem_WriteTx :: "writeTx WriteTx" where
  "mem_WriteTx =
     \<lparr>wt_Read = (\<lambda>w. (mem_ReadTx (wx_readTx w))
         \<lparr>rt_GetPerson := writeTx_GetPerson w, rt_GetRelationship := writeTx_GetRelationship w,
          rt_GetSource := writeTx_GetSource w, rt_GetProposal := writeTx_GetProposal w\<rparr>),
      wt_PutPerson = writeTx_PutPerson, wt_DeletePerson = writeTx_DeletePerson,
      wt_PutRelationship = writeTx_PutRelationship,
      wt_DeleteRelationship = writeTx_DeleteRelationship,
      wt_PutSource = writeTx_PutSource, wt_DeleteSource = writeTx_DeleteSource,
      wt_PutProposal = writeTx_PutProposal\<rparr>"

text \<open>\<open>cloneMap\<close> copies a map, which for a value is the map; \<open>applyOverlay\<close> ranges over the overlay.\<close>

definition cloneMap :: "(ID, 'v) gomap \<Rightarrow> (ID, 'v) gomap" where
  "cloneMap m = m"

fun applyOverlay :: "(ID, 'v) gomap \<Rightarrow> (ID, 'v option) gomap \<Rightarrow> (ID, 'v) gomap" where
  "applyOverlay dst [] = dst"
| "applyOverlay dst ((k, v) # over) =
     applyOverlay (case v of None \<Rightarrow> gm_del k dst | Some x \<Rightarrow> gm_put k x dst) over"

definition commitState :: "writeTx \<Rightarrow> Version \<Rightarrow> state" where
  "commitState w version =
     \<lparr>st_version = version,
      st_persons = applyOverlay (cloneMap (st_persons (wx_base w))) (wx_personOver w),
      st_relationships = applyOverlay (cloneMap (st_relationships (wx_base w))) (wx_relOver w),
      st_sources = applyOverlay (cloneMap (st_sources (wx_base w))) (wx_srcOver w),
      st_proposals = applyOverlay (cloneMap (st_proposals (wx_base w))) (wx_propOver w)\<rparr>"


section \<open>The graph that a snapshot and a transaction show\<close>

definition state_ok :: "state \<Rightarrow> bool" where
  "state_ok st \<longleftrightarrow> gm_keyed P_id (st_persons st) \<and> gm_keyed R_id (st_relationships st) \<and>
     gm_keyed S_id (st_sources st) \<and> gm_keyed Q_id (st_proposals st)"

definition state_graph :: "state \<Rightarrow> Graph" where
  "state_graph st = \<lparr>g_persons = gm_get (st_persons st), g_rels = gm_get (st_relationships st),
     g_sources = gm_get (st_sources st), g_props = gm_get (st_proposals st)\<rparr>"

definition overlay :: "('k \<Rightarrow> 'v option) \<Rightarrow> ('k \<Rightarrow> 'v option option) \<Rightarrow> 'k \<Rightarrow> 'v option" where
  "overlay m over k = (case over k of None \<Rightarrow> m k | Some v \<Rightarrow> v)"

definition tx_base :: "writeTx \<Rightarrow> Graph" where
  "tx_base w = state_graph (wx_base w)"

definition tx_view :: "writeTx \<Rightarrow> Graph" where
  "tx_view w =
     \<lparr>g_persons = overlay (gm_get (st_persons (wx_base w))) (gm_get (wx_personOver w)),
      g_rels = overlay (gm_get (st_relationships (wx_base w))) (gm_get (wx_relOver w)),
      g_sources = overlay (gm_get (st_sources (wx_base w))) (gm_get (wx_srcOver w)),
      g_props = overlay (gm_get (st_proposals (wx_base w))) (gm_get (wx_propOver w))\<rparr>"

text \<open>An overlay keeps a pending value under its own id.\<close>

definition over_keyed :: "('v \<Rightarrow> 'k) \<Rightarrow> ('k, 'v option) gomap \<Rightarrow> bool" where
  "over_keyed f over \<longleftrightarrow> gm_ok over \<and> (\<forall>k v. gm_get over k = Some (Some v) \<longrightarrow> f v = k)"

definition tx_inv :: "writeTx \<Rightarrow> bool" where
  "tx_inv w \<longleftrightarrow> rx_state (wx_readTx w) = wx_base w \<and> state_ok (wx_base w) \<and>
     over_keyed P_id (wx_personOver w) \<and> over_keyed R_id (wx_relOver w) \<and>
     over_keyed S_id (wx_srcOver w) \<and> over_keyed Q_id (wx_propOver w)"

definition read_ok :: "readTx \<Rightarrow> bool" where
  "read_ok r \<longleftrightarrow> state_ok (rx_state r)"

definition read_graph :: "readTx \<Rightarrow> Graph" where
  "read_graph r = state_graph (rx_state r)"

lemma overlay_upd [simp]: "overlay m (over(k \<mapsto> v)) = (overlay m over)(k := v)"
  by (simp add: overlay_def fun_eq_iff)

lemma overlay_empty [simp]: "overlay m Map.empty = m"
  by (simp add: overlay_def fun_eq_iff)

lemma gm_get_applyOverlay:
  "gm_ok over \<Longrightarrow> gm_get (applyOverlay dst over) = overlay (gm_get dst) (gm_get over)"
proof (induction over arbitrary: dst)
  case (Cons kv over)
  obtain k v where kv: "kv = (k, v)" by (cases kv)
  with Cons.prems have k: "gm_get over k = None" and ok: "gm_ok over"
    by (simp_all add: gm_ok_def gm_get_def map_of_eq_None_iff)
  have "gm_get ((k, v) # over) = (gm_get over)(k \<mapsto> v)"
    by (simp add: gm_get_def fun_eq_iff)
  then show ?case
    unfolding kv applyOverlay.simps Cons.IH [OF ok]
    using k by (auto simp: overlay_def fun_eq_iff split: option.split)
qed simp

lemma gm_ok_applyOverlay [simp]: "gm_ok dst \<Longrightarrow> gm_ok (applyOverlay dst over)"
  by (induction dst over rule: applyOverlay.induct) (auto split: option.split)

lemma over_keyed_simps [simp]:
  "over_keyed f []"
  "over_keyed f over \<Longrightarrow> f v = k \<Longrightarrow> over_keyed f (gm_put k (Some v) over)"
  "over_keyed f over \<Longrightarrow> over_keyed f (gm_put k None over)"
  by (simp_all add: over_keyed_def)

lemma gm_keyed_applyOverlay:
  "gm_keyed f m \<Longrightarrow> over_keyed f over \<Longrightarrow> gm_keyed f (applyOverlay m over)"
  by (auto simp: gm_keyed_def over_keyed_def gm_get_applyOverlay overlay_def split: option.splits)

lemma lookup_spec_gm:
  "lookup_spec c m (\<lambda>i. case m i of Some v \<Rightarrow> Inr v | None \<Rightarrow> Inl (New c (txt i)))"
  by (auto simp: lookup_spec_def split: option.split)

lemma lookup_spec_over:
  assumes "\<And>i. get i = (case m i of Some v \<Rightarrow> Inr v | None \<Rightarrow> Inl (New c (txt i)))"
  shows "lookup_spec c (overlay m over)
    (\<lambda>i. case over i of Some v \<Rightarrow> (case v of None \<Rightarrow> Inl (New c (txt i)) | Some x \<Rightarrow> Inr x)
         | None \<Rightarrow> get i)"
  using assms by (auto simp: lookup_spec_def overlay_def split: option.split)

lemmas readTx_getter_defs = readTx_GetPerson_def [abs_def] readTx_GetRelationship_def [abs_def]
  readTx_GetSource_def [abs_def] readTx_GetProposal_def [abs_def]

lemmas readTx_iterator_defs = readTx_IterateChildren_def readTx_IterateParents_def
  readTx_IterateMarriages_def readTx_IteratePersons_def readTx_IterateRelationships_def
  readTx_IterateSources_def readTx_IterateProposals_def

lemmas writeTx_getter_defs = writeTx_GetPerson_def [abs_def] writeTx_GetRelationship_def [abs_def]
  writeTx_GetSource_def [abs_def] writeTx_GetProposal_def [abs_def]

text \<open>The iterators of a snapshot enumerate the classes of its graph.\<close>

lemma readTx_enumerates:
  assumes "read_ok r"
  shows "enumerates (readTx_IterateChildren r n) (children_of (read_graph r) n)"
    and "enumerates (readTx_IterateParents r n) (parents_of (read_graph r) n)"
    and "enumerates (readTx_IterateMarriages r n) (marriages_of (read_graph r) n)"
    and "enumerates (readTx_IteratePersons r) (ran (g_persons (read_graph r)))"
    and "enumerates (readTx_IterateRelationships r) (ran (g_rels (read_graph r)))"
    and "enumerates (readTx_IterateSources r) (ran (g_sources (read_graph r)))"
    and "enumerates (readTx_IterateProposals r) (ran (g_props (read_graph r)))"
  using assms
  by (auto simp: enumerates_def readTx_iterator_defs read_ok_def state_ok_def read_graph_def
      state_graph_def set_gm_vals gm_keyed_ok children_of_def parents_of_def marriages_of_def
      is_pc_def intro!: distinct_filter intro: distinct_gm_vals)

lemma readTx_lookups:
  "lookup_spec CodePersonNotFound (g_persons (read_graph r)) (readTx_GetPerson r)"
  "lookup_spec CodeRelationshipNotFound (g_rels (read_graph r)) (readTx_GetRelationship r)"
  "lookup_spec CodeSourceNotFound (g_sources (read_graph r)) (readTx_GetSource r)"
  "lookup_spec CodeProposalNotFound (g_props (read_graph r)) (readTx_GetProposal r)"
  by (simp_all add: readTx_getter_defs read_graph_def state_graph_def lookup_spec_gm)

interpretation mem_reader: graph_reader mem_ReadTx read_graph read_ok
  by unfold_locales (simp_all add: mem_ReadTx_def readTx_enumerates readTx_lookups)

lemma tx_inv_new [simp]: "state_ok st \<Longrightarrow> tx_inv (newWriteTx st)"
  by (simp add: tx_inv_def newWriteTx_def)

lemma tx_view_new [simp]: "tx_view (newWriteTx st) = state_graph st"
  by (simp add: tx_view_def newWriteTx_def state_graph_def)

lemma tx_base_new [simp]: "tx_base (newWriteTx st) = state_graph st"
  by (simp add: tx_base_def newWriteTx_def)

lemma commitState_graph: "tx_inv w \<Longrightarrow> state_graph (commitState w v) = tx_view w"
  by (simp add: state_graph_def commitState_def tx_view_def tx_inv_def gm_get_applyOverlay
      over_keyed_def cloneMap_def)

lemma commitState_ok: "tx_inv w \<Longrightarrow> state_ok (commitState w v)"
  by (simp add: state_ok_def commitState_def tx_inv_def cloneMap_def gm_keyed_applyOverlay)

lemma writeTx_lookups:
  assumes "tx_inv w"
  shows "lookup_spec CodePersonNotFound (g_persons (tx_view w)) (writeTx_GetPerson w)"
    and "lookup_spec CodeRelationshipNotFound (g_rels (tx_view w)) (writeTx_GetRelationship w)"
    and "lookup_spec CodeSourceNotFound (g_sources (tx_view w)) (writeTx_GetSource w)"
    and "lookup_spec CodeProposalNotFound (g_props (tx_view w)) (writeTx_GetProposal w)"
  using assms
  by (auto simp: tx_view_def writeTx_getter_defs tx_inv_def readTx_getter_defs
      intro!: lookup_spec_over)

lemma hasPerson_view: "hasPerson w i \<longleftrightarrow> g_persons (tx_view w) i \<noteq> None"
  by (auto simp: hasPerson_def tx_view_def overlay_def split: option.split)

text \<open>One write is one update of the view.\<close>

lemma tx_upd [simp]:
  "tx_inv w \<Longrightarrow> tx_inv (w\<lparr>wx_personOver := gm_put (P_id p) (Some p) (wx_personOver w)\<rparr>)"
  "tx_inv w \<Longrightarrow> tx_inv (w\<lparr>wx_relOver := gm_put (R_id r) (Some r) (wx_relOver w)\<rparr>)"
  "tx_inv w \<Longrightarrow> tx_inv (w\<lparr>wx_srcOver := gm_put (S_id x) (Some x) (wx_srcOver w)\<rparr>)"
  "tx_inv w \<Longrightarrow> tx_inv (w\<lparr>wx_propOver := gm_put (Q_id q) (Some q) (wx_propOver w)\<rparr>)"
  "tx_inv w \<Longrightarrow> tx_inv (w\<lparr>wx_personOver := gm_put i None (wx_personOver w)\<rparr>)"
  "tx_inv w \<Longrightarrow> tx_inv (w\<lparr>wx_relOver := gm_put i None (wx_relOver w)\<rparr>)"
  "tx_inv w \<Longrightarrow> tx_inv (w\<lparr>wx_srcOver := gm_put i None (wx_srcOver w)\<rparr>)"
  "tx_base (w\<lparr>wx_personOver := po\<rparr>) = tx_base w"
  "tx_base (w\<lparr>wx_relOver := ro\<rparr>) = tx_base w"
  "tx_base (w\<lparr>wx_srcOver := so\<rparr>) = tx_base w"
  "tx_base (w\<lparr>wx_propOver := qo\<rparr>) = tx_base w"
  "tx_view (w\<lparr>wx_personOver := gm_put i v (wx_personOver w)\<rparr>) =
     (tx_view w)\<lparr>g_persons := (g_persons (tx_view w))(i := v)\<rparr>"
  "tx_view (w\<lparr>wx_relOver := gm_put i vr (wx_relOver w)\<rparr>) =
     (tx_view w)\<lparr>g_rels := (g_rels (tx_view w))(i := vr)\<rparr>"
  "tx_view (w\<lparr>wx_srcOver := gm_put i vs (wx_srcOver w)\<rparr>) =
     (tx_view w)\<lparr>g_sources := (g_sources (tx_view w))(i := vs)\<rparr>"
  "tx_view (w\<lparr>wx_propOver := gm_put i vq (wx_propOver w)\<rparr>) =
     (tx_view w)\<lparr>g_props := (g_props (tx_view w))(i := vq)\<rparr>"
  by (simp_all add: tx_inv_def tx_base_def tx_view_def)

lemma writeTx_deletes:
  assumes w: "tx_inv w"
  shows "g_persons (tx_view w) i = Some p \<Longrightarrow> writeTx_DeletePerson i w =
      Inr (w\<lparr>wx_personOver := gm_put i None (wx_personOver w)\<rparr>)"
    and "g_persons (tx_view w) i = None \<Longrightarrow>
      \<exists>e. writeTx_DeletePerson i w = Inl e \<and> HasCode e CodePersonNotFound"
    and "g_rels (tx_view w) i = Some r \<Longrightarrow> writeTx_DeleteRelationship i w =
      Inr (w\<lparr>wx_relOver := gm_put i None (wx_relOver w)\<rparr>)"
    and "g_rels (tx_view w) i = None \<Longrightarrow>
      \<exists>e. writeTx_DeleteRelationship i w = Inl e \<and> HasCode e CodeRelationshipNotFound"
    and "g_sources (tx_view w) i = Some x \<Longrightarrow> writeTx_DeleteSource i w =
      Inr (w\<lparr>wx_srcOver := gm_put i None (wx_srcOver w)\<rparr>)"
    and "g_sources (tx_view w) i = None \<Longrightarrow>
      \<exists>e. writeTx_DeleteSource i w = Inl e \<and> HasCode e CodeSourceNotFound"
  by (auto simp: writeTx_DeletePerson_def writeTx_DeleteRelationship_def writeTx_DeleteSource_def
      dest: writeTx_lookups(1) [OF w, THEN lookup_specD(1)]
        writeTx_lookups(2) [OF w, THEN lookup_specD(1)]
        writeTx_lookups(3) [OF w, THEN lookup_specD(1)]
        writeTx_lookups(1) [OF w, THEN lookup_specD(2)]
        writeTx_lookups(2) [OF w, THEN lookup_specD(2)]
        writeTx_lookups(3) [OF w, THEN lookup_specD(2)])

lemma terminal_clash_None:
  "terminal_clash m q = None \<longleftrightarrow>
     (\<forall>old. m = Some old \<longrightarrow> IsTerminal (Q_state old) \<longrightarrow> Q_state old = Q_state q)"
  by (auto simp: terminal_clash_def split: option.split)

lemma terminal_clash_Some:
  "terminal_clash m q = Some e \<Longrightarrow> HasCode e CodeImmutableTerminalProposal"
  by (auto simp: terminal_clash_def split: option.splits if_splits)

text \<open>With no pending change the promoted iterators enumerate the view.\<close>

lemma tx_fresh_graph:
  "tx_inv w \<Longrightarrow> tx_view w = tx_base w \<Longrightarrow>
   read_ok (wx_readTx w) \<and> tx_view w = read_graph (wx_readTx w)"
  by (simp add: tx_inv_def tx_base_def read_ok_def read_graph_def)

lemma mem_WriteTx_simps [simp]:
  "rt_GetPerson (wt_Read mem_WriteTx w) = writeTx_GetPerson w"
  "rt_GetRelationship (wt_Read mem_WriteTx w) = writeTx_GetRelationship w"
  "rt_GetSource (wt_Read mem_WriteTx w) = writeTx_GetSource w"
  "rt_GetProposal (wt_Read mem_WriteTx w) = writeTx_GetProposal w"
  "rt_IterateChildren (wt_Read mem_WriteTx w) = readTx_IterateChildren (wx_readTx w)"
  "rt_IterateParents (wt_Read mem_WriteTx w) = readTx_IterateParents (wx_readTx w)"
  "rt_IterateMarriages (wt_Read mem_WriteTx w) = readTx_IterateMarriages (wx_readTx w)"
  "rt_IteratePersons (wt_Read mem_WriteTx w) = readTx_IteratePersons (wx_readTx w)"
  "rt_IterateRelationships (wt_Read mem_WriteTx w) = readTx_IterateRelationships (wx_readTx w)"
  "rt_IterateSources (wt_Read mem_WriteTx w) = readTx_IterateSources (wx_readTx w)"
  "rt_IterateProposals (wt_Read mem_WriteTx w) = readTx_IterateProposals (wx_readTx w)"
  "wt_PutPerson mem_WriteTx = writeTx_PutPerson"
  "wt_DeletePerson mem_WriteTx = writeTx_DeletePerson"
  "wt_PutRelationship mem_WriteTx = writeTx_PutRelationship"
  "wt_DeleteRelationship mem_WriteTx = writeTx_DeleteRelationship"
  "wt_PutSource mem_WriteTx = writeTx_PutSource"
  "wt_DeleteSource mem_WriteTx = writeTx_DeleteSource"
  "wt_PutProposal mem_WriteTx = writeTx_PutProposal"
  by (simp_all add: mem_WriteTx_def mem_ReadTx_def)

lemma tx_fresh_enumerates:
  assumes "tx_inv w" and "tx_view w = tx_base w"
  shows "enumerates (readTx_IterateChildren (wx_readTx w) n) (children_of (tx_view w) n)"
    and "enumerates (readTx_IterateParents (wx_readTx w) n) (parents_of (tx_view w) n)"
    and "enumerates (readTx_IterateMarriages (wx_readTx w) n) (marriages_of (tx_view w) n)"
    and "enumerates (readTx_IteratePersons (wx_readTx w)) (ran (g_persons (tx_view w)))"
    and "enumerates (readTx_IterateRelationships (wx_readTx w)) (ran (g_rels (tx_view w)))"
    and "enumerates (readTx_IterateSources (wx_readTx w)) (ran (g_sources (tx_view w)))"
    and "enumerates (readTx_IterateProposals (wx_readTx w)) (ran (g_props (tx_view w)))"
  using readTx_enumerates [of "wx_readTx w"] tx_fresh_graph [OF assms] by simp_all

interpretation mem_fresh: graph_reader "wt_Read mem_WriteTx" tx_view
  "\<lambda>w. tx_inv w \<and> tx_view w = tx_base w"
  by (unfold_locales; elim conjE; unfold mem_WriteTx_simps;
      (rule writeTx_lookups tx_fresh_enumerates; assumption))

lemma writeTx_puts:
  assumes w: "tx_inv w"
  shows "P_id p \<noteq> '''' \<Longrightarrow> writeTx_PutPerson p w =
      Inr (w\<lparr>wx_personOver := gm_put (P_id p) (Some p) (wx_personOver w)\<rparr>)"
    and "S_id x \<noteq> '''' \<Longrightarrow> writeTx_PutSource x w =
      Inr (w\<lparr>wx_srcOver := gm_put (S_id x) (Some x) (wx_srcOver w)\<rparr>)"
    and "R_id r \<noteq> '''' \<Longrightarrow> g_persons (tx_view w) (R_from r) = Some p1 \<Longrightarrow>
      g_persons (tx_view w) (R_to r) = Some p2 \<Longrightarrow> writeTx_PutRelationship r w =
      Inr (w\<lparr>wx_relOver := gm_put (R_id r) (Some r) (wx_relOver w)\<rparr>)"
    and "R_id r \<noteq> '''' \<Longrightarrow>
      g_persons (tx_view w) (R_from r) = None \<or> g_persons (tx_view w) (R_to r) = None \<Longrightarrow>
      \<exists>e. writeTx_PutRelationship r w = Inl e \<and> HasCode e CodePersonNotFound"
  by (auto simp: writeTx_PutPerson_def writeTx_PutSource_def writeTx_PutRelationship_def
      hasPerson_view)

lemma writeTx_PutProposal_base:
  "writeTx_PutProposal q w =
     (if Q_id q = '''' then Inl (New CodeInvalidArgument ''proposal id required'')
      else case terminal_clash (g_props (tx_base w) (Q_id q)) q of
        Some e \<Rightarrow> Inl e
      | None \<Rightarrow> Inr (w\<lparr>wx_propOver := gm_put (Q_id q) (Some q) (wx_propOver w)\<rparr>))"
  by (simp add: writeTx_PutProposal_def tx_base_def state_graph_def)

interpretation mem_tx: graph_tx mem_WriteTx tx_view tx_base tx_inv
  "\<lambda>_. True" "\<lambda>_. True" "\<lambda>_. True" "\<lambda>_. True"
proof (unfold_locales, goal_cases)
  case (15 w q)
  then have "terminal_clash (g_props (tx_base w) (Q_id q)) q = None"
    by (simp add: terminal_clash_None)
  with 15 show ?case by (simp add: writeTx_PutProposal_base audited_def intent_ok_def)
next
  case (16 w q old)
  then have "g_props (tx_base w) (Q_id q) = Some old" by simp
  with 16(5,6) have "terminal_clash (g_props (tx_base w) (Q_id q)) q \<noteq> None"
    by (simp add: terminal_clash_def)
  with 16(1,2) show ?case by (auto simp: writeTx_PutProposal_base dest: terminal_clash_Some)
qed (auto simp: writeTx_lookups writeTx_deletes writeTx_puts Person_wf_def Source_wf_def audited_def
    intent_ok_def dest: wf_dests)


section \<open>Properties\<close>


definition sample_pending :: writeTx where
  "sample_pending = (newWriteTx emptyState)\<lparr>wx_personOver :=
     [(''p'', Some \<lparr>P_id = ''p'', P_names = [], P_gender = GenderUnset, P_birth = zero_TimeRange,
        P_death = zero_TimeRange, P_notes = '''', P_unknown = True\<rparr>),
      (''c'', Some \<lparr>P_id = ''c'', P_names = [], P_gender = GenderUnset, P_birth = zero_TimeRange,
        P_death = zero_TimeRange, P_notes = '''', P_unknown = True\<rparr>)]\<rparr>"


end
