(* ===== verification/MemoryStore.thy ===== *)
theory MemoryStore
  imports Memory
begin

text \<open>
  The in-memory \<open>Store\<close> (src/store/memory/memory.go): opening, the version counter, snapshots by
  version, \<open>Update\<close> with its commit, the pruning of the history, and \<open>Close\<close>. \<open>mem_store\<close> is the
  \<open>store.Store\<close> it is; \<open>store_ok\<close> is the invariant that ties the history to the versions.
\<close>

section \<open>The store and its operations\<close>

record MemStore =
  ms_current :: state
  ms_history :: "(Version, state) gomap"
  ms_maxKeep :: int
  ms_closed :: bool

text \<open>An \<open>Option\<close> is a function on the store.\<close>

definition WithHistoryLimit :: "int \<Rightarrow> MemStore \<Rightarrow> MemStore" where
  "WithHistoryLimit n s = (let n' = (if n < 0 then 0 else n) in s\<lparr>ms_maxKeep := n'\<rparr>)"

definition NewStore :: "(MemStore \<Rightarrow> MemStore) list \<Rightarrow> MemStore" where
  "NewStore opts =
     (let s = \<lparr>ms_current = emptyState, ms_history = [], ms_maxKeep = 0, ms_closed = False\<rparr>;
          s' = fold (\<lambda>opt st. opt st) opts s
      in s'\<lparr>ms_history := gm_put 0 (ms_current s') (ms_history s')\<rparr>)"

definition closed_error :: error where
  "closed_error = New CodeInvalidArgument ''store is closed''"

definition CurrentVersion :: "MemStore \<Rightarrow> error + Version" where
  "CurrentVersion s = (if ms_closed s then Inl closed_error else Inr (st_version (ms_current s)))"

definition View :: "MemStore \<Rightarrow> error + readTx" where
  "View s = (if ms_closed s then Inl closed_error
     else Inr \<lparr>rx_state = ms_current s, rx_closed = False\<rparr>)"

definition ViewAt :: "Version \<Rightarrow> MemStore \<Rightarrow> error + readTx" where
  "ViewAt v s =
     (if ms_closed s then Inl closed_error
      else case gm_get (ms_history s) v of
        None \<Rightarrow> Inl (New CodeVersionNotFound
               (''version '' @ show_int (uint v) @ '' not available''))
      | Some st \<Rightarrow> Inr \<lparr>rx_state = st, rx_closed = False\<rparr>)"

definition pruneHistoryLocked :: "MemStore \<Rightarrow> MemStore" where
  "pruneHistoryLocked s =
     (if ms_maxKeep s \<le> 0 then s
      else
        let cur = st_version (ms_current s);
            keepFrom = (if cur > word_of_int (ms_maxKeep s)
                        then cur - word_of_int (ms_maxKeep s) else 0)
        in s\<lparr>ms_history :=
              filter (\<lambda>(v, _). v = 0 \<or> v = cur \<or> \<not> v < keepFrom) (ms_history s)\<rparr>)"

text \<open>The part of \<open>Update\<close> after the callback has returned nil.\<close>

definition commit_tx :: "writeTx \<Rightarrow> MemStore \<Rightarrow> MemStore" where
  "commit_tx tx s =
     (let nxt = commitState tx (st_version (ms_current s) + 1);
          s1 = s\<lparr>ms_history := gm_put (st_version nxt) nxt (ms_history s)\<rparr>;
          s2 = s1\<lparr>ms_current := nxt\<rparr>
      in pruneHistoryLocked s2)"

definition Update ::
    "(writeTx \<Rightarrow> (error, writeTx \<times> 'o) partial_res) \<Rightarrow> MemStore \<Rightarrow>
     ((error + Version \<times> 'o) \<times> MemStore) option" where
  "Update f s =
     (if ms_closed s then Some (Inl closed_error, s)
      else case f (newWriteTx (ms_current s)) of
        None \<Rightarrow> None
      | Some (Inl e) \<Rightarrow> Some (Inl e, s)
      | Some (Inr (tx, out)) \<Rightarrow>
          let s' = commit_tx tx s in Some (Inr (st_version (ms_current s'), out), s'))"

definition CloseStore :: "MemStore \<Rightarrow> MemStore" where
  "CloseStore s = s\<lparr>ms_closed := True, ms_history := []\<rparr>"

definition mem_store :: "(MemStore, writeTx, 'o) Store" where
  "mem_store =
     \<lparr>sto_CurrentVersion = CurrentVersion,
      sto_View = (\<lambda>s. bindE (View s) (\<lambda>r. Inr (mem_ReadTx r))),
      sto_ViewAt = (\<lambda>v s. bindE (ViewAt v s) (\<lambda>r. Inr (mem_ReadTx r))),
      sto_Update = Update,
      sto_Close = CloseStore\<rparr>"


section \<open>The invariant\<close>

text \<open>
  Every kept snapshot is stored under its own version, no version is ahead of the current one,
  the initial and the current snapshot are kept, and every snapshot is a proper map.
\<close>

definition store_ok :: "MemStore \<Rightarrow> bool" where
  "store_ok s \<longleftrightarrow> \<not> ms_closed s \<and> gm_ok (ms_history s) \<and> state_ok (ms_current s) \<and>
     (\<forall>v st. gm_get (ms_history s) v = Some st \<longrightarrow>
        st_version st = v \<and> v \<le> st_version (ms_current s) \<and> state_ok st) \<and>
     gm_get (ms_history s) (st_version (ms_current s)) = Some (ms_current s) \<and>
     gm_get (ms_history s) 0 = Some emptyState"

lemma store_okD:
  assumes "store_ok s"
  shows "\<not> ms_closed s" "gm_ok (ms_history s)" "state_ok (ms_current s)"
    "gm_get (ms_history s) (st_version (ms_current s)) = Some (ms_current s)"
    "gm_get (ms_history s) v = Some st \<Longrightarrow>
       st_version st = v \<and> v \<le> st_version (ms_current s) \<and> state_ok st"
  using assms by (auto simp: store_ok_def)

lemma emptyState_simps [simp]:
  "st_version emptyState = 0" "state_ok emptyState" "state_graph emptyState = empty_graph"
  by (simp_all add: emptyState_def state_ok_def state_graph_def empty_graph_def)

lemma WithHistoryLimit_simps [simp]:
  "ms_current (WithHistoryLimit n s) = ms_current s"
  "ms_history (WithHistoryLimit n s) = ms_history s"
  "ms_closed (WithHistoryLimit n s) = ms_closed s"
  by (simp_all add: WithHistoryLimit_def Let_def)

lemma NewStore_ok: "store_ok (NewStore [])" "store_ok (NewStore [WithHistoryLimit n])"
  by (simp_all add: NewStore_def Let_def store_ok_def)

lemma gm_get_filter:
  "gm_ok m \<Longrightarrow> gm_get (filter (\<lambda>(k, _). P k) m) k = (if P k then gm_get m k else None)"
  by (induction m) (auto simp: gm_get_def gm_ok_def map_of_eq_None_iff)

lemma gm_ok_filter [simp]: "gm_ok m \<Longrightarrow> gm_ok (filter P m)"
  by (simp add: gm_ok_def distinct_map_filter)

text \<open>Pruning keeps the initial and the current version and everything from \<open>keepFrom\<close> on.\<close>

definition kept :: "MemStore \<Rightarrow> Version \<Rightarrow> bool" where
  "kept s v \<longleftrightarrow> ms_maxKeep s \<le> 0 \<or> v = 0 \<or> v = st_version (ms_current s) \<or>
     \<not> (st_version (ms_current s) > word_of_int (ms_maxKeep s) \<and>
        v < st_version (ms_current s) - word_of_int (ms_maxKeep s))"

lemma prune_get:
  assumes "gm_ok (ms_history s)"
  shows "gm_get (ms_history (pruneHistoryLocked s)) v =
    (if kept s v then gm_get (ms_history s) v else None)"
  using assms
  by (auto simp: pruneHistoryLocked_def kept_def Let_def gm_get_filter)

lemma prune_simps [simp]:
  "ms_current (pruneHistoryLocked s) = ms_current s"
  "ms_closed (pruneHistoryLocked s) = ms_closed s"
  "ms_maxKeep (pruneHistoryLocked s) = ms_maxKeep s"
  "gm_ok (ms_history s) \<Longrightarrow> gm_ok (ms_history (pruneHistoryLocked s))"
  by (simp_all add: pruneHistoryLocked_def Let_def)

lemma commit_simps [simp]:
  "ms_current (commit_tx tx s) = commitState tx (st_version (ms_current s) + 1)"
  "ms_closed (commit_tx tx s) = ms_closed s"
  "ms_maxKeep (commit_tx tx s) = ms_maxKeep s"
  "st_version (commitState tx v) = v"
  by (simp_all add: commit_tx_def Let_def commitState_def)

lemma commit_get:
  assumes "gm_ok (ms_history s)"
  shows "gm_get (ms_history (commit_tx tx s)) v =
    (if kept (commit_tx tx s) v
     then (if v = st_version (ms_current s) + 1 then Some (ms_current (commit_tx tx s))
           else gm_get (ms_history s) v)
     else None)"
  using assms by (auto simp: commit_tx_def Let_def prune_get kept_def commitState_def)

lemma Update_Inr:
  "Update f s = Some (Inr (v, out), s') \<longleftrightarrow>
     \<not> ms_closed s \<and> (\<exists>tx. f (newWriteTx (ms_current s)) = Some (Inr (tx, out)) \<and>
       v = st_version (ms_current s) + 1 \<and> s' = commit_tx tx s)"
  by (auto simp: Update_def Let_def split: option.splits sum.splits)

lemma Update_Inl: "Update f s = Some (Inl e, s') \<Longrightarrow> s' = s"
  by (auto simp: Update_def Let_def split: option.splits sum.splits if_splits)

lemma commit_store_ok:
  assumes ok: "store_ok s" and tx: "tx_inv tx" and nowrap: "st_version (ms_current s) \<noteq> - 1"
  shows "store_ok (commit_tx tx s)"
proof -
  let ?v = "st_version (ms_current s) + 1"
  have lt: "st_version (ms_current s) < ?v"
    using nowrap by (metis inc_less_eq_self_iff_eq not_le)
  then have nz: "?v \<noteq> 0" by auto
  have cok: "state_ok (commitState tx ?v)" using tx by (rule commitState_ok)
  have get: "gm_get (ms_history (commit_tx tx s)) v = (if kept (commit_tx tx s) v
     then (if v = ?v then Some (commitState tx ?v) else gm_get (ms_history s) v) else None)" for v
    using commit_get [of s tx v] ok by (simp add: store_ok_def)
  have "st_version st = v \<and> v \<le> ?v \<and> state_ok st"
    if "gm_get (ms_history (commit_tx tx s)) v = Some st" for v st
  proof (cases "v = ?v")
    case True
    with that cok show ?thesis by (auto simp: get split: if_splits)
  next
    case False
    with that have "gm_get (ms_history s) v = Some st" by (auto simp: get split: if_splits)
    with store_okD(5) [OF ok this] lt show ?thesis by auto
  qed
  moreover have "gm_ok (ms_history (commit_tx tx s))"
    using ok by (simp add: commit_tx_def Let_def store_ok_def)
  moreover have "kept (commit_tx tx s) ?v" "kept (commit_tx tx s) 0"
    by (simp_all add: kept_def)
  ultimately show ?thesis
    using ok cok nz get [of ?v] get [of 0] unfolding store_ok_def by simp
qed

text \<open>The stores that commits reach from a new store with a history limit.\<close>

inductive store_reach :: "int \<Rightarrow> MemStore \<Rightarrow> bool" for n where
  open_store: "store_reach n (NewStore [WithHistoryLimit n])"
| commit: "store_reach n s \<Longrightarrow> tx_inv tx \<Longrightarrow> st_version (ms_current s) \<noteq> - 1 \<Longrightarrow>
    store_reach n (commit_tx tx s)"

lemma store_reach_ok: "store_reach n s \<Longrightarrow> store_ok s"
  by (induction rule: store_reach.induct) (simp_all add: NewStore_ok commit_store_ok)

lemma store_reach_keep: "store_reach n s \<Longrightarrow> ms_maxKeep s = max 0 n"
  by (induction rule: store_reach.induct)
    (simp_all add: NewStore_def WithHistoryLimit_def Let_def)

text \<open>The versions that the history holds, over natural numbers.\<close>

definition in_window :: "MemStore \<Rightarrow> Version \<Rightarrow> bool" where
  "in_window s v \<longleftrightarrow> unat v \<le> unat (st_version (ms_current s)) \<and>
     (ms_maxKeep s \<le> 0 \<or> v = 0 \<or> unat (st_version (ms_current s)) \<le> unat v + nat (ms_maxKeep s))"

lemma kept_nat:
  assumes "int64 (ms_maxKeep s)"
  shows "kept s v \<longleftrightarrow> ms_maxKeep s \<le> 0 \<or> v = 0 \<or> v = st_version (ms_current s) \<or>
    unat (st_version (ms_current s)) \<le> unat v + nat (ms_maxKeep s) "
proof (cases "ms_maxKeep s \<le> 0")
  case False
  let ?k = "word_of_int (ms_maxKeep s) :: Version" and ?c = "st_version (ms_current s)"
  have k: "unat ?k = nat (ms_maxKeep s)"
    using assms False by (simp add: int64_def unat_eq_nat_uint uint_word_of_int)
  have "?c > ?k \<and> v < ?c - ?k \<longleftrightarrow> unat ?k < unat ?c \<and> unat v < unat ?c - unat ?k"
    by (auto simp: word_less_nat_alt unat_sub_if')
  with False k show ?thesis by (auto simp: kept_def)
qed (simp add: kept_def)

lemma store_reach_window:
  assumes "store_reach n s" and "int64 n"
  shows "gm_get (ms_history s) v \<noteq> None \<longleftrightarrow> in_window s v"
  using assms(1)
proof (induction arbitrary: v rule: store_reach.induct)
  case open_store
  show ?case by (auto simp: NewStore_def Let_def in_window_def unat_eq_zero)
next
  case (commit s tx)
  let ?c = "st_version (ms_current s)"
  have k: "int64 (ms_maxKeep (commit_tx tx s))"
    using store_reach_keep [OF commit.hyps(1)] assms(2) by (simp add: int64_def)
  have u: "unat (?c + 1) = Suc (unat ?c)"
    using commit.hyps(3) unatSuc [of ?c] by (metis add.commute add_eq_0_iff)
  have "gm_ok (ms_history s)" using store_reach_ok [OF commit.hyps(1)] by (simp add: store_ok_def)
  from commit_get [OF this, of tx v] kept_nat [OF k, of v] commit.IH [of v]
  show ?case
    by (auto simp: in_window_def u word_unat_eq_iff)
qed


section \<open>Properties\<close>

text \<open>
  C6: \<open>Update\<close> is atomic. On an open store, a callback that fails leaves the store as it was and
  its error is returned; a callback that succeeds advances the version by one, the new current
  snapshot shows exactly the graph that the transaction showed, and the invariant of the store
  (every kept version under its own number, none ahead of the current one) is kept.
\<close>

theorem Update_atomic:
  assumes "store_ok s" and "st_version (ms_current s) \<noteq> - 1"
    and "\<And>tx out. f (newWriteTx (ms_current s)) = Some (Inr (tx, out)) \<Longrightarrow> tx_inv tx"
  shows "case f (newWriteTx (ms_current s)) of
      None \<Rightarrow> Update f s = None
    | Some (Inl e) \<Rightarrow> Update f s = Some (Inl e, s)
    | Some (Inr (tx, out)) \<Rightarrow> \<exists>s'. Update f s = Some (Inr (st_version (ms_current s) + 1, out), s') \<and>
        st_version (ms_current s') = st_version (ms_current s) + 1 \<and>
        state_graph (ms_current s') = tx_view tx \<and> store_ok s'"
proof (cases "f (newWriteTx (ms_current s))")
  case None
  with assms(1) show ?thesis by (simp add: Update_def store_ok_def)
next
  case (Some r)
  show ?thesis
  proof (cases r)
    case (Inl e)
    with Some assms(1) show ?thesis by (simp add: Update_def store_ok_def)
  next
    case (Inr to)
    then obtain tx out where r: "r = Inr (tx, out)" by (cases to) auto
    with Some assms(3) have "tx_inv tx" by simp
    moreover from this have "store_ok (commit_tx tx s)"
      using assms(1,2) by (simp add: commit_store_ok)
    ultimately show ?thesis
      using Some r assms(1) by (simp add: Update_def store_ok_def commitState_graph)
  qed
qed

theorem Update_atomic_witness:
  "\<exists>s'. Update (\<lambda>w. Some (Inr (w, True))) (NewStore []) = Some (Inr (1, True), s') \<and> store_ok s'"
proof -
  have v: "st_version (ms_current (NewStore [])) = 0" by (simp add: NewStore_def Let_def)
  have "tx_inv (newWriteTx (ms_current (NewStore [])))"
    using store_okD(3) [OF NewStore_ok(1)] by simp
  with Update_atomic [OF NewStore_ok(1), of "\<lambda>w. Some (Inr (w, True))"] v show ?thesis by auto
qed


text \<open>A store with a limit of one, after three commits that change nothing.\<close>

definition empty_commit :: "MemStore \<Rightarrow> MemStore" where
  "empty_commit s = commit_tx (newWriteTx (ms_current s)) s"

definition sample_history :: MemStore where
  "sample_history = empty_commit (empty_commit (empty_commit (NewStore [WithHistoryLimit 1])))"

lemma empty_commit_version: "st_version (ms_current (empty_commit s)) = st_version (ms_current s) + 1"
  by (simp add: empty_commit_def)

lemma NewStore_version: "st_version (ms_current (NewStore [WithHistoryLimit n])) = 0"
  by (simp add: NewStore_def Let_def)

lemma empty_commit_reach:
  "store_reach n s \<Longrightarrow> st_version (ms_current s) \<noteq> - 1 \<Longrightarrow> store_reach n (empty_commit s)"
  unfolding empty_commit_def
  by (rule store_reach.commit) (simp_all add: store_okD(3) [OF store_reach_ok])

lemma sample_history_reach: "store_reach 1 sample_history"
  unfolding sample_history_def
  by (intro empty_commit_reach store_reach.open_store)
    (simp_all add: empty_commit_version NewStore_version)

lemma sample_history_version: "st_version (ms_current sample_history) = 3"
  by (simp add: sample_history_def empty_commit_version NewStore_version)




end
