(* ===== verification/BadgerKeys.thy ===== *)
theory BadgerKeys
  imports BadgerCodec "HOL-Library.Sublist"
begin

text \<open>
  The key layout of the persistent adapter (src/store/badger/keys.go): the keys of the entities and
  of the index entries, and the prefixes that the index scans use. An index entry is found again
  from its key alone: the text after the last separator is the id of the relationship.
\<close>

section \<open>Keys\<close>

definition prefixMeta :: char where "prefixMeta = CHR ''m''"
definition prefixPerson :: char where "prefixPerson = CHR ''p''"
definition prefixRel :: char where "prefixRel = CHR ''r''"
definition prefixSource :: char where "prefixSource = CHR ''s''"
definition prefixProposal :: char where "prefixProposal = CHR ''q''"
definition prefixIndex :: char where "prefixIndex = CHR ''i''"
definition sep :: char where "sep = CHR ''/''"

lemmas key_prefixes = prefixMeta_def prefixPerson_def prefixRel_def prefixSource_def
  prefixProposal_def prefixIndex_def

definition metaVersionKey :: string where
  "metaVersionKey = [prefixMeta, sep, CHR ''v'']"

definition makeIDKey :: "char \<Rightarrow> string \<Rightarrow> string" where
  "makeIDKey p i = [p, sep] @ i"

definition personKey :: "string \<Rightarrow> string" where "personKey i = makeIDKey prefixPerson i"
definition relKey :: "string \<Rightarrow> string" where "relKey i = makeIDKey prefixRel i"
definition sourceKey :: "string \<Rightarrow> string" where "sourceKey i = makeIDKey prefixSource i"
definition proposalKey :: "string \<Rightarrow> string" where "proposalKey i = makeIDKey prefixProposal i"

definition makeIndexPrefix :: "string \<Rightarrow> string \<Rightarrow> string \<Rightarrow> string" where
  "makeIndexPrefix a b owner =
     [prefixIndex, sep] @ a @ [sep] @ (if b \<noteq> '''' then b @ [sep] else []) @ owner"

definition makeIndexKey :: "string \<Rightarrow> string \<Rightarrow> string \<Rightarrow> string \<Rightarrow> string" where
  "makeIndexKey a b owner rid = makeIndexPrefix a b owner @ [sep] @ rid"

definition pcFromIndexKey :: "string \<Rightarrow> string \<Rightarrow> string" where
  "pcFromIndexKey parent rid = makeIndexKey ''pc'' ''f'' parent rid"

definition pcToIndexKey :: "string \<Rightarrow> string \<Rightarrow> string" where
  "pcToIndexKey child rid = makeIndexKey ''pc'' ''t'' child rid"

definition marriageIndexKey :: "string \<Rightarrow> string \<Rightarrow> string" where
  "marriageIndexKey person rid = makeIndexKey ''m'' '''' person rid"

definition pcFromPrefix :: "string \<Rightarrow> string" where
  "pcFromPrefix parent = makeIndexPrefix ''pc'' ''f'' parent"

definition pcToPrefix :: "string \<Rightarrow> string" where
  "pcToPrefix child = makeIndexPrefix ''pc'' ''t'' child"

definition marriagePrefix :: "string \<Rightarrow> string" where
  "marriagePrefix person = makeIndexPrefix ''m'' '''' person"

text \<open>\<open>bytes.LastIndexByte\<close>: the last position of a byte, or -1.\<close>

fun LastIndexByte :: "string \<Rightarrow> char \<Rightarrow> int" where
  "LastIndexByte [] c = - 1"
| "LastIndexByte (x # s) c =
     (let i = LastIndexByte s c in if i \<ge> 0 then i + 1 else if x = c then 0 else - 1)"


section \<open>Keys do not meet\<close>

lemma entity_key_eq [simp]:
  "personKey i = personKey j \<longleftrightarrow> i = j"
  "relKey i = relKey j \<longleftrightarrow> i = j"
  "sourceKey i = sourceKey j \<longleftrightarrow> i = j"
  "proposalKey i = proposalKey j \<longleftrightarrow> i = j"
  by (simp_all add: personKey_def relKey_def sourceKey_def proposalKey_def makeIDKey_def)

lemmas key_defs = personKey_def relKey_def sourceKey_def proposalKey_def makeIDKey_def
  metaVersionKey_def

lemma entity_key_neq [simp]:
  "personKey i \<noteq> relKey j" "personKey i \<noteq> sourceKey j" "personKey i \<noteq> proposalKey j"
  "relKey i \<noteq> personKey j" "relKey i \<noteq> sourceKey j" "relKey i \<noteq> proposalKey j"
  "sourceKey i \<noteq> personKey j" "sourceKey i \<noteq> relKey j" "sourceKey i \<noteq> proposalKey j"
  "proposalKey i \<noteq> personKey j" "proposalKey i \<noteq> relKey j" "proposalKey i \<noteq> sourceKey j"
  "metaVersionKey \<noteq> personKey j" "metaVersionKey \<noteq> relKey j" "metaVersionKey \<noteq> sourceKey j"
  "metaVersionKey \<noteq> proposalKey j" "personKey j \<noteq> metaVersionKey" "relKey j \<noteq> metaVersionKey"
  "sourceKey j \<noteq> metaVersionKey" "proposalKey j \<noteq> metaVersionKey"
  by (simp_all add: key_defs key_prefixes)

text \<open>The keys of the indices are those that start with \<open>i/\<close>.\<close>

definition is_index_key :: "string \<Rightarrow> bool" where
  "is_index_key k \<longleftrightarrow> prefix [prefixIndex, sep] k"

lemma no_index_key [simp]:
  "\<not> is_index_key (personKey i)" "\<not> is_index_key (relKey i)" "\<not> is_index_key (sourceKey i)"
  "\<not> is_index_key (proposalKey i)" "\<not> is_index_key metaVersionKey"
  by (simp_all add: is_index_key_def key_defs key_prefixes)

lemmas index_key_defs = pcFromIndexKey_def pcToIndexKey_def marriageIndexKey_def makeIndexKey_def
  makeIndexPrefix_def pcFromPrefix_def pcToPrefix_def marriagePrefix_def

lemma index_keys [simp]:
  "is_index_key (pcFromIndexKey o' rid)" "is_index_key (pcToIndexKey o' rid)"
  "is_index_key (marriageIndexKey o' rid)"
  by (simp_all add: is_index_key_def index_key_defs)

text \<open>A key splits at its last separator in one way.\<close>

lemma split_last_sep:
  assumes "c \<notin> set x" and "c \<notin> set y"
  shows "p @ c # x = q @ c # y \<longleftrightarrow> p = q \<and> x = y"
proof
  assume eq: "p @ c # x = q @ c # y"
  have tail: "takeWhile (\<lambda>d. d \<noteq> c) (rev (u @ c # v)) = rev v" if "c \<notin> set v" for u v :: "'a list"
    using that by (auto simp: takeWhile_tail)
  from eq have "rev x = rev y" using tail [OF assms(1), of p] tail [OF assms(2), of q] by simp
  with eq show "p = q \<and> x = y" by simp
qed simp

lemma index_key_eq [simp]:
  assumes "sep \<notin> set rid" and "sep \<notin> set rid'"
  shows "pcFromIndexKey a rid = pcFromIndexKey b rid' \<longleftrightarrow> a = b \<and> rid = rid'"
    "pcToIndexKey a rid = pcToIndexKey b rid' \<longleftrightarrow> a = b \<and> rid = rid'"
    "marriageIndexKey a rid = marriageIndexKey b rid' \<longleftrightarrow> a = b \<and> rid = rid'"
  using assms by (simp_all add: index_key_defs split_last_sep)

lemma index_key_neq [simp]:
  "pcFromIndexKey a rid \<noteq> pcToIndexKey b rid'" "pcToIndexKey b rid' \<noteq> pcFromIndexKey a rid"
  "pcFromIndexKey a rid \<noteq> marriageIndexKey b rid'" "marriageIndexKey b rid' \<noteq> pcFromIndexKey a rid"
  "pcToIndexKey a rid \<noteq> marriageIndexKey b rid'" "marriageIndexKey b rid' \<noteq> pcToIndexKey a rid"
  by (simp_all add: index_key_defs)

lemma LastIndexByte_none: "c \<notin> set s \<Longrightarrow> LastIndexByte s c = - 1"
  by (induction s) auto

lemma LastIndexByte_last: "c \<notin> set s \<Longrightarrow> LastIndexByte (p @ c # s) c = int (length p)"
  by (induction p) (simp_all add: LastIndexByte_none)

text \<open>What an index scan matches: every owner that starts with the id asked for.\<close>

lemma scan_prefix [simp]:
  "prefix (pcFromPrefix n) (pcFromIndexKey a rid) \<longleftrightarrow> prefix n (a @ sep # rid)"
  "prefix (pcToPrefix n) (pcToIndexKey a rid) \<longleftrightarrow> prefix n (a @ sep # rid)"
  "prefix (marriagePrefix n) (marriageIndexKey a rid) \<longleftrightarrow> prefix n (a @ sep # rid)"
  by (simp_all add: index_key_defs)

lemma scan_prefix_other [simp]:
  "\<not> prefix (pcFromPrefix n) (pcToIndexKey a rid)" "\<not> prefix (pcFromPrefix n) (marriageIndexKey a rid)"
  "\<not> prefix (pcToPrefix n) (pcFromIndexKey a rid)" "\<not> prefix (pcToPrefix n) (marriageIndexKey a rid)"
  "\<not> prefix (marriagePrefix n) (pcFromIndexKey a rid)"
  "\<not> prefix (marriagePrefix n) (pcToIndexKey a rid)"
  by (simp_all add: index_key_defs)

lemma scan_prefix_index:
  assumes "prefix p k" and "p \<in> {pcFromPrefix n, pcToPrefix n, marriagePrefix n}"
  shows "is_index_key k"
proof -
  have "prefix [prefixIndex, sep] p" using assms(2) by (auto simp: index_key_defs)
  with assms(1) show ?thesis unfolding is_index_key_def by (rule prefix_order.trans [rotated])
qed

text \<open>Ids that no index scan confuses: without separators, and none the start of another.\<close>

definition separated :: "string set \<Rightarrow> bool" where
  "separated A \<longleftrightarrow> (\<forall>a \<in> A. sep \<notin> set a \<and> (\<forall>b \<in> A. prefix a b \<longrightarrow> a = b))"

lemma separated_scan:
  assumes "separated A" and "n \<in> A" and "a \<in> A"
  shows "prefix n (a @ sep # rid) \<longleftrightarrow> n = a"
proof
  assume p: "prefix n (a @ sep # rid)"
  have "sep \<notin> set n" using assms by (simp add: separated_def)
  then have "\<not> prefix (a @ [sep]) n" by (auto simp: prefix_def)
  with p have "prefix n a" by (auto simp: prefix_append prefix_Cons)
  with assms show "n = a" by (auto simp: separated_def)
qed simp

lemma same_length_separated:
  assumes "\<And>a. a \<in> A \<Longrightarrow> sep \<notin> set a" and "\<And>a b. a \<in> A \<Longrightarrow> b \<in> A \<Longrightarrow> length a = length b"
  shows "separated A"
  unfolding separated_def
proof (intro ballI conjI impI)
  fix a b assume ab: "a \<in> A" "b \<in> A" and "prefix a b"
  then obtain t where "b = a @ t" by (auto elim: prefixE)
  with assms(2) [OF ab] show "a = b" by simp
qed (rule assms(1))

end
