(* ===== verification/BadgerTx.thy ===== *)
theory BadgerTx
  imports BadgerKeys StoreApi
begin

text \<open>
  The transactions of the persistent adapter (src/store/badger/readtx.go, src/store/badger/writetx.go).
  The transaction of the database library is a parameter: the record \<open>Txn\<close> of the methods that the
  code calls, over a state \<open>'t\<close>. \<open>txn_laws\<close> is what the library documents of them, against the
  map from keys to values that the transaction shows; it says nothing of when a write fails
  (a transaction may be too big, or read-only), \<open>txn_total\<close> says that none does.
\<close>

section \<open>The library's transaction\<close>

text \<open>
  \<open>tx_Get\<close> returns the item of a key, whose \<open>Value\<close> may fail; \<open>tx_Scan p\<close> is what an iterator with
  the option \<open>Prefix: p\<close> yields from \<open>Rewind\<close> on: each item's key and value, in key order.
\<close>

record 't Txn =
  tx_ErrKeyNotFound :: error
  tx_Get :: "string \<Rightarrow> 't \<Rightarrow> error + (error + string)"
  tx_Set :: "string \<Rightarrow> string \<Rightarrow> 't \<Rightarrow> error + 't"
  tx_Delete :: "string \<Rightarrow> 't \<Rightarrow> error + 't"
  tx_Scan :: "string \<Rightarrow> 't \<Rightarrow> (string \<times> (error + string)) list"

type_synonym kv = "string \<Rightarrow> string option"

definition txn_laws :: "'t Txn \<Rightarrow> ('t \<Rightarrow> kv) \<Rightarrow> bool" where
  "txn_laws T view \<longleftrightarrow>
     (\<forall>k t. tx_Get T k t =
        (case view t k of None \<Rightarrow> Inl (tx_ErrKeyNotFound T) | Some v \<Rightarrow> Inr (Inr v))) \<and>
     (\<forall>k v t t'. tx_Set T k v t = Inr t' \<longrightarrow> view t' = (view t)(k \<mapsto> v)) \<and>
     (\<forall>k t t'. tx_Delete T k t = Inr t' \<longrightarrow> view t' = (view t)(k := None)) \<and>
     (\<forall>p t. \<exists>ks. tx_Scan T p t = map (\<lambda>k. (k, Inr (the (view t k)))) ks \<and> distinct ks \<and>
        set ks = {k \<in> dom (view t). prefix p k})"

definition txn_total :: "'t Txn \<Rightarrow> bool" where
  "txn_total T \<longleftrightarrow> (\<forall>k v t. k \<noteq> [] \<longrightarrow>
     (\<exists>t'. tx_Set T k v t = Inr t') \<and> (\<exists>t'. tx_Delete T k t = Inr t'))"


section \<open>Reading\<close>

text \<open>The struct \<open>readTx\<close> of the adapter, which \<open>writeTx\<close> embeds.\<close>

record 't badgerTx =
  bt_tx :: 't
  bt_version :: Version

definition fetch ::
    "'t Txn \<Rightarrow> 't badgerTx \<Rightarrow> string \<Rightarrow> Code \<Rightarrow> string \<Rightarrow> (string \<Rightarrow> error + 'a) \<Rightarrow> error + 'a" where
  "fetch T r k notFoundCode label decode =
     (case tx_Get T k (bt_tx r) of
        Inl err \<Rightarrow> if err = tx_ErrKeyNotFound T then Inl (New notFoundCode label) else Inl err
      | Inr item \<Rightarrow> bindE item decode)"

definition badger_GetPerson :: "'t Txn \<Rightarrow> 't badgerTx \<Rightarrow> ID \<Rightarrow> error + Person" where
  "badger_GetPerson T r i =
     fetch T r (personKey (ID_String i)) CodePersonNotFound (''person '' @ ID_String i) decodePerson"

definition badger_GetRelationship :: "'t Txn \<Rightarrow> 't badgerTx \<Rightarrow> ID \<Rightarrow> error + Relationship" where
  "badger_GetRelationship T r i =
     fetch T r (relKey (ID_String i)) CodeRelationshipNotFound (''relationship '' @ ID_String i)
       decodeRelationship"

definition badger_GetSource :: "'t Txn \<Rightarrow> 't badgerTx \<Rightarrow> ID \<Rightarrow> error + Source" where
  "badger_GetSource T r i =
     fetch T r (sourceKey (ID_String i)) CodeSourceNotFound (''source '' @ ID_String i) decodeSource"

definition badger_GetProposal :: "'t Txn \<Rightarrow> 't badgerTx \<Rightarrow> ID \<Rightarrow> error + Proposal" where
  "badger_GetProposal T r i =
     fetch T r (proposalKey (ID_String i)) CodeProposalNotFound (''proposal '' @ ID_String i)
       decodeProposal"

text \<open>
  The loop of \<open>scanRelIndex\<close> over the keys: a key without an id after its last separator and a stale
  entry are skipped, any other error ends the iteration.
\<close>

fun scan_loop :: "(ID \<Rightarrow> error + Relationship) \<Rightarrow> string list \<Rightarrow> Relationship iter" where
  "scan_loop get [] = ([], None)"
| "scan_loop get (k # ks) =
     (let idx = LastIndexByte k sep in
      if idx < 0 \<or> idx = int (length k) - 1 then scan_loop get ks
      else
        let rid = drop (nat (idx + 1)) k in
        case get rid of
          Inl err \<Rightarrow> if HasCode err CodeRelationshipNotFound then scan_loop get ks else ([], Some err)
        | Inr rel \<Rightarrow> (rel # fst (scan_loop get ks), snd (scan_loop get ks)))"

definition scanRelIndex :: "'t Txn \<Rightarrow> 't badgerTx \<Rightarrow> string \<Rightarrow> Relationship iter" where
  "scanRelIndex T r p = scan_loop (badger_GetRelationship T r) (map fst (tx_Scan T p (bt_tx r)))"

definition badger_IterateChildren :: "'t Txn \<Rightarrow> 't badgerTx \<Rightarrow> ID \<Rightarrow> Relationship iter" where
  "badger_IterateChildren T r parent = scanRelIndex T r (pcFromPrefix (ID_String parent))"

definition badger_IterateParents :: "'t Txn \<Rightarrow> 't badgerTx \<Rightarrow> ID \<Rightarrow> Relationship iter" where
  "badger_IterateParents T r child = scanRelIndex T r (pcToPrefix (ID_String child))"

definition badger_IterateMarriages :: "'t Txn \<Rightarrow> 't badgerTx \<Rightarrow> ID \<Rightarrow> Relationship iter" where
  "badger_IterateMarriages T r person = scanRelIndex T r (marriagePrefix (ID_String person))"

text \<open>The loop of \<open>scanByPrefix\<close>.\<close>

fun decode_loop :: "(string \<Rightarrow> error + 'a) \<Rightarrow> (string \<times> (error + string)) list \<Rightarrow> 'a iter" where
  "decode_loop decode [] = ([], None)"
| "decode_loop decode (item # items) =
     (case bindE (snd item) decode of
        Inl err \<Rightarrow> ([], Some err)
      | Inr v \<Rightarrow> (v # fst (decode_loop decode items), snd (decode_loop decode items)))"

definition scanByPrefix :: "'t Txn \<Rightarrow> 't badgerTx \<Rightarrow> string \<Rightarrow> (string \<Rightarrow> error + 'a) \<Rightarrow> 'a iter" where
  "scanByPrefix T r p decode = decode_loop decode (tx_Scan T p (bt_tx r))"

definition badger_ReadTx :: "'t Txn \<Rightarrow> 't badgerTx \<Rightarrow> ReadTx" where
  "badger_ReadTx T r =
     \<lparr>rt_Version = bt_version r,
      rt_GetPerson = badger_GetPerson T r,
      rt_GetRelationship = badger_GetRelationship T r,
      rt_GetSource = badger_GetSource T r,
      rt_GetProposal = badger_GetProposal T r,
      rt_IterateChildren = badger_IterateChildren T r,
      rt_IterateParents = badger_IterateParents T r,
      rt_IterateMarriages = badger_IterateMarriages T r,
      rt_IteratePersons = scanByPrefix T r [prefixPerson, sep] decodePerson,
      rt_IterateRelationships = scanByPrefix T r [prefixRel, sep] decodeRelationship,
      rt_IterateSources = scanByPrefix T r [prefixSource, sep] decodeSource,
      rt_IterateProposals = scanByPrefix T r [prefixProposal, sep] decodeProposal\<rparr>"


section \<open>Writing\<close>

text \<open>\<open>w.tx.Set\<close> and \<open>w.tx.Delete\<close> on the transaction inside the struct.\<close>

definition set_key :: "'t Txn \<Rightarrow> string \<Rightarrow> string \<Rightarrow> 't badgerTx \<Rightarrow> error + 't badgerTx" where
  "set_key T k v w = bindE (tx_Set T k v (bt_tx w)) (\<lambda>t. Inr (w\<lparr>bt_tx := t\<rparr>))"

definition delete_key :: "'t Txn \<Rightarrow> string \<Rightarrow> 't badgerTx \<Rightarrow> error + 't badgerTx" where
  "delete_key T k w = bindE (tx_Delete T k (bt_tx w)) (\<lambda>t. Inr (w\<lparr>bt_tx := t\<rparr>))"

text \<open>\<open>tx.Get\<close> for its error only, with the code that the caller gives to an absent key.\<close>

definition require_key ::
    "'t Txn \<Rightarrow> 't badgerTx \<Rightarrow> string \<Rightarrow> Code \<Rightarrow> string \<Rightarrow> error + unit" where
  "require_key T w k notFoundCode label =
     (case tx_Get T k (bt_tx w) of
        Inl err \<Rightarrow> if err = tx_ErrKeyNotFound T then Inl (New notFoundCode label) else Inl err
      | Inr _ \<Rightarrow> Inr ())"

definition badger_PutPerson :: "'t Txn \<Rightarrow> Person \<Rightarrow> 't badgerTx \<Rightarrow> error + 't badgerTx" where
  "badger_PutPerson T p w =
     (if ID_IsZero (P_id p) then Inl (New CodeInvalidArgument ''person id required'')
      else bindE (encodePerson p) (\<lambda>buf. set_key T (personKey (ID_String (P_id p))) buf w))"

definition badger_DeletePerson :: "'t Txn \<Rightarrow> ID \<Rightarrow> 't badgerTx \<Rightarrow> error + 't badgerTx" where
  "badger_DeletePerson T i w =
     (let k = personKey (ID_String i) in
      bindE (require_key T w k CodePersonNotFound (''person '' @ ID_String i))
        (\<lambda>_. delete_key T k w))"

definition requirePersonExists :: "'t Txn \<Rightarrow> ID \<Rightarrow> ID \<Rightarrow> 't badgerTx \<Rightarrow> error + unit" where
  "requirePersonExists T person relID w =
     require_key T w (personKey (ID_String person)) CodePersonNotFound
       (''relationship '' @ ID_String relID @ '': person '' @ ID_String person @ '' missing'')"

definition writeRelIndices :: "'t Txn \<Rightarrow> Relationship \<Rightarrow> 't badgerTx \<Rightarrow> error + 't badgerTx" where
  "writeRelIndices T r w =
     (let rid = ID_String (R_id r) in
      if R_type r = RelTypeParentChild then
        bindE (set_key T (pcFromIndexKey (ID_String (R_from r)) rid) '''' w)
          (\<lambda>w. set_key T (pcToIndexKey (ID_String (R_to r)) rid) '''' w)
      else if R_type r = RelTypeMarriage then
        bindE (set_key T (marriageIndexKey (ID_String (R_from r)) rid) '''' w)
          (\<lambda>w. set_key T (marriageIndexKey (ID_String (R_to r)) rid) '''' w)
      else Inr w)"

definition removeRelIndices :: "'t Txn \<Rightarrow> Relationship \<Rightarrow> 't badgerTx \<Rightarrow> error + 't badgerTx" where
  "removeRelIndices T r w =
     (let rid = ID_String (R_id r) in
      if R_type r = RelTypeParentChild then
        bindE (delete_key T (pcFromIndexKey (ID_String (R_from r)) rid) w)
          (\<lambda>w. delete_key T (pcToIndexKey (ID_String (R_to r)) rid) w)
      else if R_type r = RelTypeMarriage then
        bindE (delete_key T (marriageIndexKey (ID_String (R_from r)) rid) w)
          (\<lambda>w. delete_key T (marriageIndexKey (ID_String (R_to r)) rid) w)
      else Inr w)"

definition badger_PutRelationship ::
    "'t Txn \<Rightarrow> Relationship \<Rightarrow> 't badgerTx \<Rightarrow> error + 't badgerTx" where
  "badger_PutRelationship T r w =
     (if ID_IsZero (R_id r) then Inl (New CodeInvalidArgument ''relationship id required'')
      else bindE (requirePersonExists T (R_from r) (R_id r) w) (\<lambda>_.
        bindE (requirePersonExists T (R_to r) (R_id r) w) (\<lambda>_.
        bindE (case badger_GetRelationship T w (R_id r) of
                 Inl _ \<Rightarrow> Inr w
               | Inr prev \<Rightarrow> removeRelIndices T prev w) (\<lambda>w.
        bindE (encodeRelationship r) (\<lambda>buf.
        bindE (set_key T (relKey (ID_String (R_id r))) buf w) (\<lambda>w.
          writeRelIndices T r w))))))"

definition badger_DeleteRelationship :: "'t Txn \<Rightarrow> ID \<Rightarrow> 't badgerTx \<Rightarrow> error + 't badgerTx" where
  "badger_DeleteRelationship T i w =
     (let k = relKey (ID_String i) in
      bindE (badger_GetRelationship T w i) (\<lambda>prev.
      bindE (removeRelIndices T prev w) (\<lambda>w. delete_key T k w)))"

definition badger_PutSource :: "'t Txn \<Rightarrow> Source \<Rightarrow> 't badgerTx \<Rightarrow> error + 't badgerTx" where
  "badger_PutSource T s w =
     (if ID_IsZero (S_id s) then Inl (New CodeInvalidArgument ''source id required'')
      else bindE (encodeSource s) (\<lambda>buf. set_key T (sourceKey (ID_String (S_id s))) buf w))"

definition badger_DeleteSource :: "'t Txn \<Rightarrow> ID \<Rightarrow> 't badgerTx \<Rightarrow> error + 't badgerTx" where
  "badger_DeleteSource T i w =
     (let k = sourceKey (ID_String i) in
      bindE (require_key T w k CodeSourceNotFound (''source '' @ ID_String i))
        (\<lambda>_. delete_key T k w))"

definition badger_PutProposal :: "'t Txn \<Rightarrow> Proposal \<Rightarrow> 't badgerTx \<Rightarrow> error + 't badgerTx" where
  "badger_PutProposal T p w =
     (if ID_IsZero (Q_id p) then Inl (New CodeInvalidArgument ''proposal id required'')
      else bindE (case badger_GetProposal T w (Q_id p) of
             Inl _ \<Rightarrow> Inr ()
           | Inr existing \<Rightarrow>
               if IsTerminal (Q_state existing) \<and> Q_state existing \<noteq> Q_state p
               then Inl (New CodeImmutableTerminalProposal (''proposal '' @ ID_String (Q_id p)
                      @ '' is in terminal state '' @ ProposalState_String (Q_state existing)))
               else Inr ()) (\<lambda>_.
        bindE (encodeProposal p) (\<lambda>buf. set_key T (proposalKey (ID_String (Q_id p))) buf w)))"

definition badger_WriteTx :: "'t Txn \<Rightarrow> 't badgerTx WriteTx" where
  "badger_WriteTx T =
     \<lparr>wt_Read = badger_ReadTx T,
      wt_PutPerson = badger_PutPerson T,
      wt_DeletePerson = badger_DeletePerson T,
      wt_PutRelationship = badger_PutRelationship T,
      wt_DeleteRelationship = badger_DeleteRelationship T,
      wt_PutSource = badger_PutSource T,
      wt_DeleteSource = badger_DeleteSource T,
      wt_PutProposal = badger_PutProposal T\<rparr>"

end
