(* ===== verification/BadgerGraph.thy ===== *)
theory BadgerGraph
  imports BadgerTx BadgerRead
begin

text \<open>
  What a database of the persistent adapter means: \<open>kv_graph\<close> is the graph of its documents, and
  \<open>kv_ok\<close> the invariant of the layout (every document lies under the key of its own id, and the
  index holds exactly the entries of the stored relationships). Then what the readers show of such
  a database, and that the write operations keep the invariant and act on the graph.
\<close>

section \<open>The graph of a database\<close>

definition entity_of :: "(string \<Rightarrow> error + 'a) \<Rightarrow> string option \<Rightarrow> 'a option" where
  "entity_of dec v =
     (case v of None \<Rightarrow> None
      | Some buf \<Rightarrow> (case dec buf of Inl _ \<Rightarrow> None | Inr x \<Rightarrow> Some x))"

definition kv_graph :: "kv \<Rightarrow> Graph" where
  "kv_graph m =
     \<lparr>g_persons = (\<lambda>i. entity_of decodePerson (m (personKey i))),
      g_rels = (\<lambda>i. entity_of decodeRelationship (m (relKey i))),
      g_sources = (\<lambda>i. entity_of decodeSource (m (sourceKey i))),
      g_props = (\<lambda>i. entity_of decodeProposal (m (proposalKey i)))\<rparr>"

text \<open>The index entries of a relationship, and of a graph.\<close>

definition rel_index :: "Relationship \<Rightarrow> string set" where
  "rel_index r =
     (if R_type r = RelTypeParentChild
      then {pcFromIndexKey (R_from r) (R_id r), pcToIndexKey (R_to r) (R_id r)}
      else if R_type r = RelTypeMarriage
      then {marriageIndexKey (R_from r) (R_id r), marriageIndexKey (R_to r) (R_id r)}
      else {})"

definition rels_index :: "(ID \<Rightarrow> Relationship option) \<Rightarrow> string set" where
  "rels_index m = (\<Union>r \<in> ran m. rel_index r)"

definition stored :: "(string \<Rightarrow> error + 'a) \<Rightarrow> ('a \<Rightarrow> ID) \<Rightarrow> (string \<Rightarrow> string) \<Rightarrow> kv \<Rightarrow> bool" where
  "stored dec idf key m \<longleftrightarrow> (\<forall>i buf. m (key i) = Some buf \<longrightarrow> (\<exists>x. dec buf = Inr x \<and> idf x = i))"

definition kv_ok :: "kv \<Rightarrow> bool" where
  "kv_ok m \<longleftrightarrow>
     stored decodePerson P_id personKey m \<and> stored decodeRelationship R_id relKey m \<and>
     stored decodeSource S_id sourceKey m \<and> stored decodeProposal Q_id proposalKey m \<and>
     (\<forall>i. m (relKey i) \<noteq> None \<longrightarrow> sep \<notin> set i) \<and>
     (\<forall>k. is_index_key k \<longrightarrow> (m k \<noteq> None \<longleftrightarrow> k \<in> rels_index (g_rels (kv_graph m))))"

lemma entity_of_simps [simp]:
  "entity_of dec None = None"
  "dec buf = Inr x \<Longrightarrow> entity_of dec (Some buf) = Some x"
  by (simp_all add: entity_of_def)

lemma entity_of_Some: "entity_of dec v = Some x \<longleftrightarrow> (\<exists>buf. v = Some buf \<and> dec buf = Inr x)"
  by (auto simp: entity_of_def split: option.splits sum.splits)

lemma stored_entity: "stored dec idf key m \<Longrightarrow> entity_of dec (m (key i)) = Some x \<Longrightarrow> idf x = i"
  by (fastforce simp: stored_def entity_of_Some)

lemma kv_graph_simps [simp]:
  "g_persons (kv_graph m) i = entity_of decodePerson (m (personKey i))"
  "g_rels (kv_graph m) i = entity_of decodeRelationship (m (relKey i))"
  "g_sources (kv_graph m) i = entity_of decodeSource (m (sourceKey i))"
  "g_props (kv_graph m) i = entity_of decodeProposal (m (proposalKey i))"
  by (simp_all add: kv_graph_def)

lemma kv_okD:
  assumes "kv_ok m"
  shows "stored decodePerson P_id personKey m" "stored decodeRelationship R_id relKey m"
    "stored decodeSource S_id sourceKey m" "stored decodeProposal Q_id proposalKey m"
    "is_index_key k \<Longrightarrow> m k \<noteq> None \<longleftrightarrow> k \<in> rels_index (g_rels (kv_graph m))"
  using assms by (auto simp: kv_ok_def)

text \<open>The relationships of a good database.\<close>

definition rels_ok :: "(ID \<Rightarrow> Relationship option) \<Rightarrow> bool" where
  "rels_ok m \<longleftrightarrow> (\<forall>i r. m i = Some r \<longrightarrow> R_id r = i \<and> sep \<notin> set i \<and> Relationship_wf r)"

lemma kv_rels_ok:
  assumes "kv_ok m"
  shows "rels_ok (g_rels (kv_graph m))"
  unfolding rels_ok_def
proof (intro allI impI)
  fix i r assume r: "g_rels (kv_graph m) i = Some r"
  then obtain buf where "m (relKey i) = Some buf" "decodeRelationship buf = Inr r"
    by (auto simp: entity_of_Some)
  with r assms show "R_id r = i \<and> sep \<notin> set i \<and> Relationship_wf r"
    using stored_entity [OF kv_okD(2) [OF assms]] decodeRelationship_stable by (auto simp: kv_ok_def)
qed

lemma rels_ok_ran:
  "rels_ok m \<Longrightarrow> r \<in> ran m \<Longrightarrow>
   m (R_id r) = Some r \<and> sep \<notin> set (R_id r) \<and> R_id r \<noteq> [] \<and> R_from r \<noteq> R_to r"
  by (auto simp: rels_ok_def ran_def dest: wf_dests)

text \<open>Entries of different relationships differ.\<close>

lemma rel_index_disjoint:
  assumes "k \<in> rel_index r" and "k \<in> rel_index r'" and "sep \<notin> set (R_id r)" and "sep \<notin> set (R_id r')"
  shows "R_id r = R_id r'"
  using assms by (auto simp: rel_index_def split: if_splits)

lemma rel_index_key: "k \<in> rel_index r \<Longrightarrow> is_index_key k"
  by (auto simp: rel_index_def split: if_splits)

lemma rels_index_iff: "k \<in> rels_index m \<longleftrightarrow> (\<exists>j e. m j = Some e \<and> k \<in> rel_index e)"
  by (auto simp: rels_index_def ran_def)

lemma rels_ok_index:
  assumes "rels_ok m" and "m j = Some e" and "k \<in> rel_index e" and "k \<in> rel_index r"
    and "sep \<notin> set (R_id r)"
  shows "j = R_id r"
  using assms(1,2) rel_index_disjoint [OF assms(3,4) _ assms(5)] by (auto simp: rels_ok_def)

lemma rels_index_delete:
  assumes ok: "rels_ok m" and prev: "m i = Some prev"
  shows "rels_index (m(i := None)) = rels_index m - rel_index prev"
proof -
  have "R_id prev = i" "sep \<notin> set (R_id prev)" using ok prev by (auto simp: rels_ok_def)
  then have "k \<notin> rel_index prev" if "m j = Some e" "j \<noteq> i" "k \<in> rel_index e" for j e k
    using rels_ok_index [OF ok that(1,3), of prev] that(2) by blast
  moreover have "e = prev" if "m i = Some e" for e using that prev by simp
  ultimately show ?thesis unfolding set_eq_iff Diff_iff rels_index_iff fun_upd_apply
    by (metis option.distinct(1))
qed

lemma rels_index_put:
  assumes ok: "rels_ok m" and r: "sep \<notin> set (R_id r)"
  shows "rels_index (m(R_id r \<mapsto> r)) =
    rels_index m - (case m (R_id r) of None \<Rightarrow> {} | Some prev \<Rightarrow> rel_index prev) \<union> rel_index r"
proof -
  have "rels_index (m(R_id r \<mapsto> r)) = rels_index (m(R_id r := None)) \<union> rel_index r"
    unfolding set_eq_iff Un_iff rels_index_iff fun_upd_apply by (metis option.distinct(1) option.inject)
  moreover have "rels_index (m(R_id r := None)) =
      rels_index m - (case m (R_id r) of None \<Rightarrow> {} | Some prev \<Rightarrow> rel_index prev)"
  proof (cases "m (R_id r)")
    case None
    then have "m(R_id r := None) = m" by (auto simp: fun_eq_iff)
    with None show ?thesis by simp
  next
    case (Some prev)
    then show ?thesis by (simp add: rels_index_delete [OF ok])
  qed
  ultimately show ?thesis by simp
qed



section \<open>Reading\<close>

lemma tx_Get_eq:
  "txn_laws T view \<Longrightarrow>
   tx_Get T k t = (case view t k of None \<Rightarrow> Inl (tx_ErrKeyNotFound T) | Some v \<Rightarrow> Inr (Inr v))"
  by (simp add: txn_laws_def)

lemma fetch_eq:
  "txn_laws T view \<Longrightarrow>
   fetch T r k c label dec = (case view (bt_tx r) k of None \<Rightarrow> Inl (New c label) | Some buf \<Rightarrow> dec buf)"
  by (simp add: fetch_def tx_Get_eq split: option.split)

lemma fetch_stored:
  assumes "txn_laws T view" and "stored dec idf key (view (bt_tx r))"
  shows "fetch T r (key i) c label dec =
    (case entity_of dec (view (bt_tx r) (key i)) of None \<Rightarrow> Inl (New c label) | Some x \<Rightarrow> Inr x)"
  using assms(2)
  by (fastforce simp: fetch_eq [OF assms(1)] stored_def entity_of_def split: option.split sum.split)

lemma fetch_lookup:
  assumes "txn_laws T view" and "stored dec idf key (view (bt_tx r))"
  shows "lookup_spec c (\<lambda>i. entity_of dec (view (bt_tx r) (key i)))
    (\<lambda>i. fetch T r (key i) c (label i) dec)"
  by (simp add: lookup_spec_def fetch_stored [OF assms] split: option.split)

lemma tx_Scan_keys:
  assumes "txn_laws T view"
  obtains ks where "tx_Scan T p t = map (\<lambda>k. (k, Inr (the (view t k)))) ks" "distinct ks"
    "set ks = {k \<in> dom (view t). prefix p k}"
proof -
  have "\<forall>p t. \<exists>ks. tx_Scan T p t = map (\<lambda>k. (k, Inr (the (view t k)))) ks \<and> distinct ks \<and>
      set ks = {k \<in> dom (view t). prefix p k}"
    using assms unfolding txn_laws_def by (elim conjE)
  with that show thesis by blast
qed

text \<open>The whole class of an entity.\<close>

lemma decode_loop_all:
  "\<forall>k \<in> set ks. bindE (v k) dec = Inr (f k) \<Longrightarrow>
   decode_loop dec (map (\<lambda>k. (k, v k)) ks) = (map f ks, None)"
  by (induction ks) auto

lemma scanByPrefix_all:
  assumes laws: "txn_laws T view" and st: "stored dec idf (makeIDKey c) (view (bt_tx r))"
  shows "enumerates (scanByPrefix T r [c, sep] dec)
    (ran (\<lambda>i. entity_of dec (view (bt_tx r) (makeIDKey c i))))"
proof -
  let ?m = "view (bt_tx r)"
  define f where "f k = the (entity_of dec (?m k))" for k
  obtain ks where S: "tx_Scan T [c, sep] (bt_tx r) = map (\<lambda>k. (k, Inr (the (?m k)))) ks" "distinct ks"
    "set ks = {k \<in> dom ?m. prefix [c, sep] k}"
    by (rule tx_Scan_keys [OF laws])
  have key: "\<exists>i buf. k = makeIDKey c i \<and> ?m k = Some buf \<and> dec buf = Inr (f k) \<and> idf (f k) = i"
    if "k \<in> set ks" for k
  proof -
    from that S obtain i buf where k: "k = makeIDKey c i" "?m k = Some buf"
      by (auto simp: makeIDKey_def elim!: prefixE)
    with st obtain x where "dec buf = Inr x" "idf x = i" by (auto simp: stored_def)
    with k show ?thesis by (auto simp: f_def)
  qed
  then have "\<forall>k \<in> set ks. bindE (Inr (the (?m k))) dec = Inr (f k)" by fastforce
  then have scan: "scanByPrefix T r [c, sep] dec = (map f ks, None)"
    unfolding scanByPrefix_def S(1) by (rule decode_loop_all)
  have "inj_on f (set ks)"
    using key by (intro inj_onI) metis
  moreover have "set (map f ks) = ran (\<lambda>i. entity_of dec (?m (makeIDKey c i)))"
  proof (intro set_eqI iffI)
    fix x assume "x \<in> set (map f ks)"
    then obtain k where "k \<in> set ks" "x = f k" by auto
    with key [of k] obtain i buf where "?m (makeIDKey c i) = Some buf" "dec buf = Inr x" by auto
    then have "entity_of dec (?m (makeIDKey c i)) = Some x" by simp
    then show "x \<in> ran (\<lambda>i. entity_of dec (?m (makeIDKey c i)))" by (rule ranI)
  next
    fix x assume "x \<in> ran (\<lambda>i. entity_of dec (?m (makeIDKey c i)))"
    then obtain i buf where "?m (makeIDKey c i) = Some buf" "dec buf = Inr x"
      by (auto simp: ran_def entity_of_Some)
    then have "makeIDKey c i \<in> set ks" "f (makeIDKey c i) = x"
      using S by (auto simp: makeIDKey_def f_def)
    then show "x \<in> set (map f ks)" by force
  qed
  ultimately show ?thesis
    using S by (simp add: scan enumerates_def distinct_map)
qed

text \<open>The index scans: each key leads to its relationship.\<close>

definition rid_of :: "string \<Rightarrow> string" where
  "rid_of k = drop (nat (LastIndexByte k sep + 1)) k"

lemma rid_of_key: "sep \<notin> set rid \<Longrightarrow> rid_of (p @ sep # rid) = rid"
  by (simp add: rid_of_def LastIndexByte_last nat_add_distrib)

lemma scan_loop_all:
  "\<forall>k \<in> set ks. \<exists>p rid. k = p @ sep # rid \<and> sep \<notin> set rid \<and> rid \<noteq> [] \<and> get rid = Inr (f k) \<Longrightarrow>
   scan_loop get ks = (map f ks, None)"
proof (induction ks)
  case (Cons k ks)
  then obtain p rid where k: "k = p @ sep # rid" "sep \<notin> set rid" "rid \<noteq> []" "get rid = Inr (f k)"
    by auto
  then have "LastIndexByte k sep = int (length p)" "drop (nat (int (length p) + 1)) k = rid"
    using rid_of_key [of rid p] by (simp_all add: LastIndexByte_last rid_of_def)
  with k Cons show ?case by (simp add: Let_def)
qed simp

lemma index_key_split:
  "pcFromIndexKey a rid = pcFromPrefix a @ sep # rid" "pcToIndexKey a rid = pcToPrefix a @ sep # rid"
  "marriageIndexKey a rid = marriagePrefix a @ sep # rid"
  by (simp_all add: index_key_defs)

lemma scanRelIndex_all:
  assumes laws: "txn_laws T view" and ok: "kv_ok (view (bt_tx r))"
    and p: "p \<in> {pcFromPrefix n, pcToPrefix n, marriagePrefix n}"
  defines "rels \<equiv> g_rels (kv_graph (view (bt_tx r)))"
  shows "set (fst (scanRelIndex T r p)) = {e \<in> ran rels. \<exists>k \<in> rel_index e. prefix p k}"
    and "snd (scanRelIndex T r p) = None"
    and "\<lbrakk>\<And>e k k'. \<lbrakk>e \<in> ran rels; k \<in> rel_index e; k' \<in> rel_index e; prefix p k; prefix p k'\<rbrakk> \<Longrightarrow> k = k'\<rbrakk>
      \<Longrightarrow> distinct (fst (scanRelIndex T r p))"
proof -
  define f where "f k = the (rels (rid_of k))" for k
  obtain ks where S: "tx_Scan T p (bt_tx r) = map (\<lambda>k. (k, Inr (the (view (bt_tx r) k)))) ks"
    "distinct ks" "set ks = {k \<in> dom (view (bt_tx r)). prefix p k}"
    by (rule tx_Scan_keys [OF laws])
  have rok: "rels_ok rels" unfolding rels_def by (rule kv_rels_ok [OF ok])
  have key: "f k = e \<and> (\<exists>q rid. k = q @ sep # rid \<and> sep \<notin> set rid \<and> rid \<noteq> [] \<and> rels rid = Some (f k))"
    if "e \<in> ran rels" "k \<in> rel_index e" for k e
  proof -
    note e = that
    obtain q where "k = q @ sep # R_id e"
      using e(2) by (auto simp: rel_index_def index_key_split split: if_splits)
    with rels_ok_ran [OF rok e(1)] show ?thesis unfolding f_def by (metis rid_of_key option.sel)
  qed
  have ks: "k \<in> set ks \<longleftrightarrow> (\<exists>e \<in> ran rels. k \<in> rel_index e) \<and> prefix p k" for k
    using S(3) scan_prefix_index [OF _ p] kv_okD(5) [OF ok, of k]
    by (auto simp: rels_def rels_index_def)
  have "badger_GetRelationship T r i = Inr e" if "rels i = Some e" for i e
    using that by (simp add: badger_GetRelationship_def ID_String_def rels_def
        fetch_stored [OF laws kv_okD(2) [OF ok]])
  note get = this
  have "\<exists>q rid. k = q @ sep # rid \<and> sep \<notin> set rid \<and> rid \<noteq> [] \<and>
      badger_GetRelationship T r rid = Inr (f k)" if "k \<in> set ks" for k
  proof -
    from that ks [of k] obtain e where "e \<in> ran rels" "k \<in> rel_index e" by blast
    from key [OF this] get show ?thesis by blast
  qed
  then have scan: "scanRelIndex T r p = (map f ks, None)"
    unfolding scanRelIndex_def S(1) list.map_comp o_def fst_conv list.map_ident
    by (intro scan_loop_all) blast
  then show "snd (scanRelIndex T r p) = None" by simp
  have image: "e \<in> f ` set ks \<longleftrightarrow> e \<in> ran rels \<and> (\<exists>k \<in> rel_index e. prefix p k)" for e
  proof
    assume "e \<in> f ` set ks"
    then obtain k e' where "e = f k" "e' \<in> ran rels" "k \<in> rel_index e'" "prefix p k" using ks by blast
    with key [of e' k] show "e \<in> ran rels \<and> (\<exists>k \<in> rel_index e. prefix p k)" by blast
  next
    assume "e \<in> ran rels \<and> (\<exists>k \<in> rel_index e. prefix p k)"
    then obtain k where "e \<in> ran rels" "k \<in> rel_index e" "prefix p k" by blast
    with ks [of k] key [of e k] show "e \<in> f ` set ks" by blast
  qed
  show "set (fst (scanRelIndex T r p)) = {e \<in> ran rels. \<exists>k \<in> rel_index e. prefix p k}"
    unfolding scan by (simp add: image set_eq_iff)
  assume one: "\<And>e k k'. \<lbrakk>e \<in> ran rels; k \<in> rel_index e; k' \<in> rel_index e; prefix p k; prefix p k'\<rbrakk> \<Longrightarrow> k = k'"
  have "inj_on f (set ks)"
  proof (rule inj_onI)
    fix k k' assume kk: "k \<in> set ks" "k' \<in> set ks" "f k = f k'"
    then obtain e e' where "e \<in> ran rels" "k \<in> rel_index e" "e' \<in> ran rels" "k' \<in> rel_index e'"
      "prefix p k" "prefix p k'" using ks by blast
    moreover from this kk(3) have "e = e'" using key by metis
    ultimately show "k = k'" using one by blast
  qed
  with S(2) show "distinct (fst (scanRelIndex T r p))" by (simp add: scan distinct_map)
qed

text \<open>The entries of one relationship that a scan matches.\<close>

lemma index_matches [simp]:
  "(\<exists>k \<in> rel_index e. prefix (pcFromPrefix n) k) \<longleftrightarrow> is_pc e \<and> prefix n (R_from e @ sep # R_id e)"
  "(\<exists>k \<in> rel_index e. prefix (pcToPrefix n) k) \<longleftrightarrow> is_pc e \<and> prefix n (R_to e @ sep # R_id e)"
  "(\<exists>k \<in> rel_index e. prefix (marriagePrefix n) k) \<longleftrightarrow> R_type e = RelTypeMarriage \<and>
     (prefix n (R_from e @ sep # R_id e) \<or> prefix n (R_to e @ sep # R_id e))"
  by (auto simp: rel_index_def is_pc_def go_consts)

lemma badger_scans:
  assumes "txn_laws T view" and "kv_ok (view (bt_tx r))"
  defines "E \<equiv> ran (g_rels (kv_graph (view (bt_tx r))))"
  shows "enumerates (badger_IterateChildren T r n) {e \<in> E. is_pc e \<and> prefix n (R_from e @ sep # R_id e)}"
    and "enumerates (badger_IterateParents T r n) {e \<in> E. is_pc e \<and> prefix n (R_to e @ sep # R_id e)}"
    and "snd (badger_IterateMarriages T r n) = None \<and>
      set (fst (badger_IterateMarriages T r n)) = {e \<in> E. R_type e = RelTypeMarriage \<and>
        (prefix n (R_from e @ sep # R_id e) \<or> prefix n (R_to e @ sep # R_id e))}"
proof -
  note S = scanRelIndex_all [OF assms(1,2), folded E_def]
  have one: "k = k'" if "k \<in> rel_index e" "k' \<in> rel_index e" "prefix p k" "prefix p k'"
    "p = pcFromPrefix n \<or> p = pcToPrefix n" for e k k' p
    using that by (auto simp: rel_index_def split: if_splits)
  show "enumerates (badger_IterateChildren T r n) {e \<in> E. is_pc e \<and> prefix n (R_from e @ sep # R_id e)}"
    using S [of "pcFromPrefix n" n] one [of _ _ _ "pcFromPrefix n"]
    by (simp add: enumerates_def badger_IterateChildren_def ID_String_def)
  show "enumerates (badger_IterateParents T r n) {e \<in> E. is_pc e \<and> prefix n (R_to e @ sep # R_id e)}"
    using S [of "pcToPrefix n" n] one [of _ _ _ "pcToPrefix n"]
    by (simp add: enumerates_def badger_IterateParents_def ID_String_def)
  show "snd (badger_IterateMarriages T r n) = None \<and>
      set (fst (badger_IterateMarriages T r n)) = {e \<in> E. R_type e = RelTypeMarriage \<and>
        (prefix n (R_from e @ sep # R_id e) \<or> prefix n (R_to e @ sep # R_id e))}"
    using S(1,2) [of "marriagePrefix n" n] by (simp add: badger_IterateMarriages_def ID_String_def)
qed

end
