(* ===== verification/BadgerWrites.thy ===== *)
theory BadgerWrites
  imports BadgerGraph
begin

text \<open>
  The write operations of the persistent adapter (src/store/badger/writetx.go) on a good database:
  \<open>kv_acts\<close> composes the writes of the keys, \<open>acts\<close> is the same on the graph, and each operation
  keeps the invariant of the layout and refines its operation on the graph.
\<close>

section \<open>Composing writes\<close>

text \<open>
  Where a run ends: if it returns a transaction, that shows \<open>m\<close> and has the version of \<open>w\<close>; and it
  does return one when no write of the library fails.
\<close>

definition kv_acts ::
    "'t Txn \<Rightarrow> ('t \<Rightarrow> kv) \<Rightarrow> 't badgerTx \<Rightarrow> error + 't badgerTx \<Rightarrow> kv \<Rightarrow> bool" where
  "kv_acts T view w res m \<longleftrightarrow>
     (\<forall>w'. res = Inr w' \<longrightarrow> view (bt_tx w') = m \<and> bt_version w' = bt_version w) \<and>
     (txn_total T \<longrightarrow> (\<exists>w'. res = Inr w'))"

definition acts ::
    "'t Txn \<Rightarrow> ('t \<Rightarrow> kv) \<Rightarrow> 't badgerTx \<Rightarrow> error + 't badgerTx \<Rightarrow> Graph \<Rightarrow> bool" where
  "acts T view w res G \<longleftrightarrow>
     (\<forall>w'. res = Inr w' \<longrightarrow> kv_ok (view (bt_tx w')) \<and> kv_graph (view (bt_tx w')) = G \<and>
        bt_version w' = bt_version w) \<and>
     (txn_total T \<longrightarrow> (\<exists>w'. res = Inr w'))"

lemma kv_acts_acts: "kv_acts T view w res m \<Longrightarrow> kv_ok m \<Longrightarrow> kv_graph m = G \<Longrightarrow> acts T view w res G"
  by (auto simp: kv_acts_def acts_def)

lemma kv_acts_here: "kv_acts T view w (Inr w) (view (bt_tx w))"
  by (simp add: kv_acts_def)

lemma kv_acts_bind:
  assumes "kv_acts T view w res m"
    and "\<And>w'. view (bt_tx w') = m \<Longrightarrow> kv_acts T view w' (f w') m'"
  shows "kv_acts T view w (bindE res f) m'"
  using assms unfolding kv_acts_def bindE_eq_Inr by (metis bindE_eq_Inr)

lemma kv_acts_set:
  assumes "txn_laws T view" and "k \<noteq> []"
  shows "kv_acts T view w (set_key T k v w) ((view (bt_tx w))(k \<mapsto> v))"
  using assms by (auto simp: kv_acts_def set_key_def bindE_eq_Inr txn_laws_def txn_total_def)

lemma kv_acts_delete:
  assumes "txn_laws T view" and "k \<noteq> []"
  shows "kv_acts T view w (delete_key T k w) ((view (bt_tx w))(k := None))"
  using assms by (auto simp: kv_acts_def delete_key_def bindE_eq_Inr txn_laws_def txn_total_def)

lemma keys_nonempty [simp]:
  "personKey i \<noteq> []" "relKey i \<noteq> []" "sourceKey i \<noteq> []" "proposalKey i \<noteq> []"
  "pcFromIndexKey i j \<noteq> []" "pcToIndexKey i j \<noteq> []" "marriageIndexKey i j \<noteq> []"
  by (simp_all add: key_defs index_key_defs)

lemma require_key_eq:
  assumes "txn_laws T view"
  shows "require_key T w k c l = (if view (bt_tx w) k = None then Inl (New c l) else Inr ())"
  by (simp add: require_key_def tx_Get_eq [OF assms] split: option.split)

text \<open>The index entries of a relationship are written, and removed, together.\<close>

lemma writeRelIndices_acts:
  fixes w :: "'t badgerTx"
  assumes "txn_laws T view"
  shows "kv_acts T view w (writeRelIndices T r w)
    (\<lambda>k. if k \<in> rel_index r then Some '''' else view (bt_tx w) k)"
proof -
  have two: "kv_acts T view w (bindE (set_key T a '''' w) (\<lambda>w. set_key T b '''' w))
      (\<lambda>k. if k \<in> {a, b} then Some '''' else view (bt_tx w) k)" if "a \<noteq> []" "b \<noteq> []" for a b
  proof (rule kv_acts_bind [OF kv_acts_set [OF assms that(1)]])
    fix w' :: "'t badgerTx" assume "view (bt_tx w') = (view (bt_tx w))(a \<mapsto> '''')"
    then have "(\<lambda>k. if k \<in> {a, b} then Some '''' else view (bt_tx w) k) = (view (bt_tx w'))(b \<mapsto> '''')"
      by (auto simp: fun_eq_iff)
    then show "kv_acts T view w' (set_key T b '''' w')
        (\<lambda>k. if k \<in> {a, b} then Some '''' else view (bt_tx w) k)"
      using kv_acts_set [OF assms that(2)] by simp
  qed
  show ?thesis
    unfolding writeRelIndices_def rel_index_def Let_def ID_String_def
    using two by (simp add: kv_acts_here split: if_split)
qed

lemma removeRelIndices_acts:
  fixes w :: "'t badgerTx"
  assumes "txn_laws T view"
  shows "kv_acts T view w (removeRelIndices T r w)
    (\<lambda>k. if k \<in> rel_index r then None else view (bt_tx w) k)"
proof -
  have two: "kv_acts T view w (bindE (delete_key T a w) (\<lambda>w. delete_key T b w))
      (\<lambda>k. if k \<in> {a, b} then None else view (bt_tx w) k)" if "a \<noteq> []" "b \<noteq> []" for a b
  proof (rule kv_acts_bind [OF kv_acts_delete [OF assms that(1)]])
    fix w' :: "'t badgerTx" assume "view (bt_tx w') = (view (bt_tx w))(a := None)"
    then have "(\<lambda>k. if k \<in> {a, b} then None else view (bt_tx w) k) = (view (bt_tx w'))(b := None)"
      by (auto simp: fun_eq_iff)
    then show "kv_acts T view w' (delete_key T b w')
        (\<lambda>k. if k \<in> {a, b} then None else view (bt_tx w) k)"
      using kv_acts_delete [OF assms that(2)] by simp
  qed
  show ?thesis
    unfolding removeRelIndices_def rel_index_def Let_def ID_String_def
    using two by (simp add: kv_acts_here split: if_split)
qed


section \<open>The layout after a write\<close>

lemma kv_graph_cong: "(\<And>k. \<not> is_index_key k \<Longrightarrow> m k = m' k) \<Longrightarrow> kv_graph m = kv_graph m'"
  by (simp add: kv_graph_def)

lemma kv_graph_upd [simp]:
  "kv_graph (m(personKey i := v)) =
     (kv_graph m)\<lparr>g_persons := (g_persons (kv_graph m))(i := entity_of decodePerson v)\<rparr>"
  "kv_graph (m(relKey i := v)) =
     (kv_graph m)\<lparr>g_rels := (g_rels (kv_graph m))(i := entity_of decodeRelationship v)\<rparr>"
  "kv_graph (m(sourceKey i := v)) =
     (kv_graph m)\<lparr>g_sources := (g_sources (kv_graph m))(i := entity_of decodeSource v)\<rparr>"
  "kv_graph (m(proposalKey i := v)) =
     (kv_graph m)\<lparr>g_props := (g_props (kv_graph m))(i := entity_of decodeProposal v)\<rparr>"
  "kv_graph (m(metaVersionKey := v)) = kv_graph m"
  by (auto simp: kv_graph_def fun_eq_iff)

lemma stored_upd [simp]:
  "stored dec idf key m \<Longrightarrow> (\<And>j. key j \<noteq> k) \<Longrightarrow> stored dec idf key (m(k := v))"
  by (simp add: stored_def)

lemma stored_put:
  "stored dec idf key m \<Longrightarrow> (\<And>i j. key i = key j \<Longrightarrow> i = j) \<Longrightarrow> dec buf = Inr x \<Longrightarrow>
   stored dec idf key (m(key (idf x) \<mapsto> buf))"
  by (auto simp: stored_def)

lemma stored_delete: "stored dec idf key m \<Longrightarrow> stored dec idf key (m(key i := None))"
  by (simp add: stored_def)

text \<open>A write below \<open>p/\<close>, \<open>s/\<close>, \<open>q/\<close> or \<open>m/\<close> leaves the relationships and their index.\<close>

lemma kv_ok_upd:
  assumes "kv_ok m" and "\<And>i. relKey i \<noteq> k" and "\<not> is_index_key k"
    and "stored decodePerson P_id personKey (m(k := v))"
    and "stored decodeSource S_id sourceKey (m(k := v))"
    and "stored decodeProposal Q_id proposalKey (m(k := v))"
  shows "kv_ok (m(k := v))"
proof -
  have "g_rels (kv_graph (m(k := v))) = g_rels (kv_graph m)"
    using assms(2) by (simp add: fun_eq_iff)
  moreover have "(m(k := v)) j = m j" if "is_index_key j" for j using assms(3) that by auto
  moreover have "(m(k := v)) (relKey i) = m (relKey i)" for i using assms(2) by auto
  ultimately show ?thesis using assms unfolding kv_ok_def by (simp add: stored_def)
qed

lemma kv_ok_put:
  assumes "kv_ok m"
  shows "decodePerson buf = Inr p \<Longrightarrow> kv_ok (m(personKey (P_id p) \<mapsto> buf))"
    and "decodeSource buf = Inr s \<Longrightarrow> kv_ok (m(sourceKey (S_id s) \<mapsto> buf))"
    and "decodeProposal buf = Inr q \<Longrightarrow> kv_ok (m(proposalKey (Q_id q) \<mapsto> buf))"
    and "kv_ok (m(personKey i := None))" and "kv_ok (m(sourceKey i := None))"
    and "kv_ok (m(metaVersionKey := v))"
  using kv_okD(1-4) [OF assms]
  by (auto intro!: kv_ok_upd [OF assms] stored_put stored_delete)

text \<open>The relationship and its index entries change together.\<close>

lemma kv_ok_put_rel:
  assumes ok: "kv_ok m" and r: "decodeRelationship buf = Inr r" "sep \<notin> set (R_id r)"
    and old: "old = (case g_rels (kv_graph m) (R_id r) of None \<Rightarrow> {} | Some prev \<Rightarrow> rel_index prev)"
    and m': "m' = (\<lambda>k. if k \<in> rel_index r then Some ''''
      else ((\<lambda>k. if k \<in> old then None else m k)(relKey (R_id r) \<mapsto> buf)) k)"
  shows "kv_ok m'" and "kv_graph m' =
    (kv_graph m)\<lparr>g_rels := (g_rels (kv_graph m))(R_id r \<mapsto> r)\<rparr>"
proof -
  have off: "m' k = (m(relKey (R_id r) \<mapsto> buf)) k" if "\<not> is_index_key k" for k
    using that rel_index_key [of k] by (auto simp: m' old split: option.splits)
  then have "kv_graph m' = kv_graph (m(relKey (R_id r) \<mapsto> buf))" by (rule kv_graph_cong)
  also have "\<dots> = (kv_graph m)\<lparr>g_rels := (g_rels (kv_graph m))(R_id r \<mapsto> r)\<rparr>" using r(1) by simp
  finally show G: "kv_graph m' = (kv_graph m)\<lparr>g_rels := (g_rels (kv_graph m))(R_id r \<mapsto> r)\<rparr>" .
  have st: "stored decodePerson P_id personKey m'" "stored decodeRelationship R_id relKey m'"
    "stored decodeSource S_id sourceKey m'" "stored decodeProposal Q_id proposalKey m'"
    using kv_okD(1-4) [OF ok] r(1) by (auto simp: stored_def off)
  have "m' (relKey i) \<noteq> None \<longrightarrow> sep \<notin> set i" for i
    using ok r(2) by (auto simp: off kv_ok_def)
  moreover have "m' k \<noteq> None \<longleftrightarrow> k \<in> rels_index (g_rels (kv_graph m'))" if k: "is_index_key k" for k
  proof -
    have "k \<noteq> relKey (R_id r)" using k by auto
    then have "m' k \<noteq> None \<longleftrightarrow> k \<in> rel_index r \<or> k \<notin> old \<and> m k \<noteq> None" by (simp add: m')
    also have "\<dots> \<longleftrightarrow> k \<in> rels_index (g_rels (kv_graph m)) - old \<union> rel_index r"
      using kv_okD(5) [OF ok k] by blast
    finally show ?thesis
      using rels_index_put [OF kv_rels_ok [OF ok] r(2)] by (simp add: G old)
  qed
  ultimately show "kv_ok m'" using st unfolding kv_ok_def by blast
qed

lemma kv_ok_delete_rel:
  assumes ok: "kv_ok m" and prev: "g_rels (kv_graph m) i = Some prev"
    and m': "m' = (\<lambda>k. if k \<in> rel_index prev then None else m k)(relKey i := None)"
  shows "kv_ok m'" and "kv_graph m' = (kv_graph m)\<lparr>g_rels := (g_rels (kv_graph m))(i := None)\<rparr>"
proof -
  have off: "m' k = (m(relKey i := None)) k" if "\<not> is_index_key k" for k
    using that rel_index_key [of k] by (auto simp: m')
  then have "kv_graph m' = kv_graph (m(relKey i := None))" by (rule kv_graph_cong)
  then show G: "kv_graph m' = (kv_graph m)\<lparr>g_rels := (g_rels (kv_graph m))(i := None)\<rparr>" by simp
  have st: "stored decodePerson P_id personKey m'" "stored decodeRelationship R_id relKey m'"
    "stored decodeSource S_id sourceKey m'" "stored decodeProposal Q_id proposalKey m'"
    using kv_okD(1-4) [OF ok] by (auto simp: stored_def off)
  have "m' (relKey i) \<noteq> None \<longrightarrow> sep \<notin> set i" for i
    using ok by (auto simp: off kv_ok_def)
  moreover have "m' k \<noteq> None \<longleftrightarrow> k \<in> rels_index (g_rels (kv_graph m'))" if k: "is_index_key k" for k
  proof -
    have "k \<noteq> relKey i" using k by auto
    then have "m' k \<noteq> None \<longleftrightarrow> k \<notin> rel_index prev \<and> m k \<noteq> None" by (simp add: m')
    also have "\<dots> \<longleftrightarrow> k \<in> rels_index (g_rels (kv_graph m)) - rel_index prev"
      using kv_okD(5) [OF ok k] by blast
    also have "rels_index (g_rels (kv_graph m)) - rel_index prev =
        rels_index ((g_rels (kv_graph m))(i := None))"
      by (rule rels_index_delete [OF kv_rels_ok [OF ok] prev, symmetric])
    finally show ?thesis by (simp add: G)
  qed
  ultimately show "kv_ok m'" using st unfolding kv_ok_def by blast
qed



section \<open>The operations\<close>

lemma encode_buf:
  "bindE r dec = Inr x \<Longrightarrow> (\<And>buf. r = Inr buf \<Longrightarrow> dec buf = Inr x \<Longrightarrow> P) \<Longrightarrow> P"
  by (auto simp: bindE_eq_Inr)

lemma put_person_acts:
  assumes "txn_laws T view" and "kv_ok (view (bt_tx w))" and "Person_wf p" "Person_stable p"
  defines "G \<equiv> kv_graph (view (bt_tx w))"
  shows "acts T view w (badger_PutPerson T p w) (G\<lparr>g_persons := (g_persons G)(P_id p \<mapsto> p)\<rparr>)"
proof -
  obtain buf where buf: "encodePerson p = Inr buf" "decodePerson buf = Inr p"
    using decodePerson_encode [OF assms(3,4)] by (rule encode_buf)
  have "badger_PutPerson T p w = set_key T (personKey (P_id p)) buf w"
    using assms(3) buf by (simp add: badger_PutPerson_def ID_String_def Person_wf_def)
  with buf show ?thesis
    using kv_acts_set [OF assms(1), of "personKey (P_id p)" w buf]
    by (auto simp: G_def intro!: kv_acts_acts kv_ok_put(1) [OF assms(2)])
qed

lemma put_source_acts:
  assumes "txn_laws T view" and "kv_ok (view (bt_tx w))" and "Source_wf s" "Source_stable s"
  defines "G \<equiv> kv_graph (view (bt_tx w))"
  shows "acts T view w (badger_PutSource T s w) (G\<lparr>g_sources := (g_sources G)(S_id s \<mapsto> s)\<rparr>)"
proof -
  obtain buf where buf: "encodeSource s = Inr buf" "decodeSource buf = Inr s"
    using decodeSource_encode [OF assms(3,4)] by (rule encode_buf)
  have "badger_PutSource T s w = set_key T (sourceKey (S_id s)) buf w"
    using assms(3) buf by (simp add: badger_PutSource_def ID_String_def Source_wf_def)
  with buf show ?thesis
    using kv_acts_set [OF assms(1), of "sourceKey (S_id s)" w buf]
    by (auto simp: G_def intro!: kv_acts_acts kv_ok_put(2) [OF assms(2)])
qed

text \<open>A key is there exactly when the graph has the entity.\<close>

lemma key_present:
  assumes "stored dec idf key m"
  shows "m (key i) = None \<longleftrightarrow> entity_of dec (m (key i)) = None"
  using assms by (cases "m (key i)") (fastforce simp: stored_def)+

lemma delete_person_acts:
  assumes "txn_laws T view" and "kv_ok (view (bt_tx w))"
  defines "G \<equiv> kv_graph (view (bt_tx w))"
  shows "if g_persons G i = None
    then \<exists>e. badger_DeletePerson T i w = Inl e \<and> HasCode e CodePersonNotFound
    else acts T view w (badger_DeletePerson T i w) (G\<lparr>g_persons := (g_persons G)(i := None)\<rparr>)"
proof -
  have "acts T view w (delete_key T (personKey i) w) (G\<lparr>g_persons := (g_persons G)(i := None)\<rparr>)"
    unfolding G_def
    by (rule kv_acts_acts [OF kv_acts_delete [OF assms(1)] kv_ok_put(4) [OF assms(2)]]) simp_all
  then show ?thesis
    using key_present [OF kv_okD(1) [OF assms(2)], of i]
    by (simp add: badger_DeletePerson_def Let_def ID_String_def require_key_eq [OF assms(1)] G_def)
qed

lemma delete_source_acts:
  assumes "txn_laws T view" and "kv_ok (view (bt_tx w))"
  defines "G \<equiv> kv_graph (view (bt_tx w))"
  shows "if g_sources G i = None
    then \<exists>e. badger_DeleteSource T i w = Inl e \<and> HasCode e CodeSourceNotFound
    else acts T view w (badger_DeleteSource T i w) (G\<lparr>g_sources := (g_sources G)(i := None)\<rparr>)"
proof -
  have "acts T view w (delete_key T (sourceKey i) w) (G\<lparr>g_sources := (g_sources G)(i := None)\<rparr>)"
    unfolding G_def
    by (rule kv_acts_acts [OF kv_acts_delete [OF assms(1)] kv_ok_put(5) [OF assms(2)]]) simp_all
  then show ?thesis
    using key_present [OF kv_okD(3) [OF assms(2)], of i]
    by (simp add: badger_DeleteSource_def Let_def ID_String_def require_key_eq [OF assms(1)] G_def)
qed

lemma get_relationship_eq:
  assumes "txn_laws T view" and "kv_ok (view (bt_tx w))"
  shows "badger_GetRelationship T w i =
    (case g_rels (kv_graph (view (bt_tx w))) i of
       None \<Rightarrow> Inl (New CodeRelationshipNotFound (''relationship '' @ i)) | Some r \<Rightarrow> Inr r)"
  by (simp add: badger_GetRelationship_def ID_String_def fetch_stored [OF assms(1) kv_okD(2) [OF assms(2)]]
      split: option.split)

lemma get_proposal_eq:
  assumes "txn_laws T view" and "kv_ok (view (bt_tx w))"
  shows "badger_GetProposal T w i =
    (case g_props (kv_graph (view (bt_tx w))) i of
       None \<Rightarrow> Inl (New CodeProposalNotFound (''proposal '' @ i)) | Some q \<Rightarrow> Inr q)"
  by (simp add: badger_GetProposal_def ID_String_def fetch_stored [OF assms(1) kv_okD(4) [OF assms(2)]]
      split: option.split)

lemma delete_relationship_acts:
  fixes w :: "'t badgerTx"
  assumes "txn_laws T view" and "kv_ok (view (bt_tx w))"
  defines "G \<equiv> kv_graph (view (bt_tx w))"
  shows "if g_rels G i = None
    then \<exists>e. badger_DeleteRelationship T i w = Inl e \<and> HasCode e CodeRelationshipNotFound
    else acts T view w (badger_DeleteRelationship T i w) (G\<lparr>g_rels := (g_rels G)(i := None)\<rparr>)"
proof (cases "g_rels G i")
  case None
  then show ?thesis
    by (simp add: badger_DeleteRelationship_def Let_def get_relationship_eq [OF assms(1,2)] G_def)
next
  case (Some prev)
  let ?m' = "(\<lambda>k. if k \<in> rel_index prev then None else view (bt_tx w) k)(relKey i := None)"
  have "badger_DeleteRelationship T i w =
      bindE (removeRelIndices T prev w) (\<lambda>w. delete_key T (relKey i) w)"
    using Some by (simp add: badger_DeleteRelationship_def Let_def get_relationship_eq [OF assms(1,2)]
        G_def ID_String_def)
  moreover have "kv_acts T view w (bindE (removeRelIndices T prev w) (\<lambda>w. delete_key T (relKey i) w)) ?m'"
  proof (rule kv_acts_bind [OF removeRelIndices_acts [OF assms(1)]])
    fix w' :: "'t badgerTx"
    assume "view (bt_tx w') = (\<lambda>k. if k \<in> rel_index prev then None else view (bt_tx w) k)"
    then show "kv_acts T view w' (delete_key T (relKey i) w') ?m'"
      using kv_acts_delete [OF assms(1), of "relKey i" w'] by simp
  qed
  ultimately have "kv_acts T view w (badger_DeleteRelationship T i w) ?m'" by simp
  then have "acts T view w (badger_DeleteRelationship T i w) (G\<lparr>g_rels := (g_rels G)(i := None)\<rparr>)"
    using kv_ok_delete_rel [OF assms(2) Some [unfolded G_def] refl] unfolding G_def by (rule kv_acts_acts)
  with Some show ?thesis by simp
qed

lemma put_relationship_acts:
  fixes w :: "'t badgerTx"
  assumes "txn_laws T view" and "kv_ok (view (bt_tx w))"
    and "Relationship_wf r" "Relationship_stable r" and "sep \<notin> set (R_id r)"
  defines "G \<equiv> kv_graph (view (bt_tx w))"
  shows "if g_persons G (R_from r) = None \<or> g_persons G (R_to r) = None
    then \<exists>e. badger_PutRelationship T r w = Inl e \<and> HasCode e CodePersonNotFound
    else acts T view w (badger_PutRelationship T r w) (G\<lparr>g_rels := (g_rels G)(R_id r \<mapsto> r)\<rparr>)"
proof -
  have person: "view (bt_tx w) (personKey i) = None \<longleftrightarrow> g_persons G i = None" for i
    using key_present [OF kv_okD(1) [OF assms(2)]] by (simp add: G_def)
  obtain buf where buf: "encodeRelationship r = Inr buf" "decodeRelationship buf = Inr r"
    using decodeRelationship_encode [OF assms(3,4)] by (rule encode_buf)
  define old where "old = (case g_rels G (R_id r) of None \<Rightarrow> {} | Some prev \<Rightarrow> rel_index prev)"
  define m1 where "m1 = (\<lambda>k. if k \<in> old then None else view (bt_tx w) k)"
  define m2 where "m2 = (\<lambda>k. if k \<in> rel_index r then Some '''' else (m1(relKey (R_id r) \<mapsto> buf)) k)"
  let ?clear = "case badger_GetRelationship T w (R_id r) of Inl _ \<Rightarrow> Inr w | Inr prev \<Rightarrow> removeRelIndices T prev w"
  let ?rest = "\<lambda>w. bindE (set_key T (relKey (R_id r)) buf w) (\<lambda>w. writeRelIndices T r w)"
  have "kv_acts T view w ?clear m1"
    using removeRelIndices_acts [OF assms(1)] kv_acts_here [of T view w]
    by (simp add: get_relationship_eq [OF assms(1,2)] old_def m1_def G_def split: option.split)
  then have "kv_acts T view w (bindE ?clear ?rest) m2"
  proof (rule kv_acts_bind)
    fix w1 :: "'t badgerTx" assume w1: "view (bt_tx w1) = m1"
    have "kv_acts T view w1 (set_key T (relKey (R_id r)) buf w1) (m1(relKey (R_id r) \<mapsto> buf))"
      using kv_acts_set [OF assms(1), of "relKey (R_id r)" w1 buf] w1 by simp
    then show "kv_acts T view w1 (?rest w1) m2"
    proof (rule kv_acts_bind)
      fix w2 :: "'t badgerTx" assume "view (bt_tx w2) = m1(relKey (R_id r) \<mapsto> buf)"
      then show "kv_acts T view w2 (writeRelIndices T r w2) m2"
        using writeRelIndices_acts [OF assms(1), of w2 r] unfolding m2_def by (simp only:)
    qed
  qed
  then have "acts T view w (bindE ?clear ?rest) (G\<lparr>g_rels := (g_rels G)(R_id r \<mapsto> r)\<rparr>)"
    using kv_ok_put_rel [OF assms(2) buf(2) assms(5) old_def [unfolded G_def] m2_def [unfolded m1_def]]
    unfolding G_def by (rule kv_acts_acts)
  moreover have "R_id r \<noteq> ''''" using assms(3) by (rule wf_dests)
  ultimately show ?thesis
    by (simp add: badger_PutRelationship_def requirePersonExists_def require_key_eq [OF assms(1)]
        ID_String_def person buf)
qed

lemma put_proposal_acts:
  assumes "txn_laws T view" and "kv_ok (view (bt_tx w))"
    and "intent_ok q" "replayed q" "Proposal_stable q"
  defines "G \<equiv> kv_graph (view (bt_tx w))"
  shows "if \<exists>old. g_props G (Q_id q) = Some old \<and> IsTerminal (Q_state old) \<and> Q_state old \<noteq> Q_state q
    then \<exists>e. badger_PutProposal T q w = Inl e \<and> HasCode e CodeImmutableTerminalProposal
    else acts T view w (badger_PutProposal T q w) (G\<lparr>g_props := (g_props G)(Q_id q \<mapsto> q)\<rparr>)"
proof -
  obtain buf where buf: "encodeProposal q = Inr buf" "decodeProposal buf = Inr q"
    using decodeProposal_encode [OF assms(3-5)] by (rule encode_buf)
  have "acts T view w (set_key T (proposalKey (Q_id q)) buf w) (G\<lparr>g_props := (g_props G)(Q_id q \<mapsto> q)\<rparr>)"
    using kv_acts_set [OF assms(1), of "proposalKey (Q_id q)" w buf] buf
    by (auto simp: G_def intro!: kv_acts_acts kv_ok_put(3) [OF assms(2)])
  with buf assms(3) show ?thesis
    by (cases "g_props G (Q_id q)")
      (auto simp: badger_PutProposal_def get_proposal_eq [OF assms(1,2)] ID_String_def G_def intent_ok_def)
qed

end
