(* ===== verification/Paths.thy ===== *)
theory Paths
  imports MemoryStore "HOL-Library.List_Lexorder" "HOL-Library.Product_Lexorder"
begin

text \<open>
  Paths and their ranking (src/query/path.go, src/query/rank.go): the steps of a path, the
  aggregates that \<open>computeAggregate\<close> folds over them, and the order \<open>Less\<close>, which is the order of
  a lexicographic key (\<open>rank_key\<close>). Node ids compare as Go compares strings, byte by byte, which
  is the lexicographic order on lists of characters.
\<close>

section \<open>Steps and paths\<close>

type_synonym EdgeDirection = "8 word"

definition EdgeForward :: EdgeDirection where [go_consts]: "EdgeForward = 1"
definition EdgeReverse :: EdgeDirection where [go_consts]: "EdgeReverse = 2"

definition EdgeDirection_String :: "EdgeDirection \<Rightarrow> string" where
  "EdgeDirection_String d =
     (if d = EdgeForward then ''->'' else if d = EdgeReverse then ''<-'' else ''?'')"

record Step =
  St_Relationship :: Relationship
  St_Direction :: EdgeDirection
  St_FromPerson :: ID
  St_ToPerson :: ID

type_synonym Kind = "8 word"

definition KindLineage :: Kind where [go_consts]: "KindLineage = 1"
definition KindAffinal :: Kind where [go_consts]: "KindAffinal = 2"

definition Step_Kind :: "Step \<Rightarrow> Kind" where
  "Step_Kind s =
     (if R_type (St_Relationship s) = RelTypeMarriage then KindAffinal else KindLineage)"

type_synonym PathClassification = "8 word"

definition PathLineage :: PathClassification where [go_consts]: "PathLineage = 1"
definition PathAffinal :: PathClassification where [go_consts]: "PathAffinal = 2"

definition PathClassification_String :: "PathClassification \<Rightarrow> string" where
  "PathClassification_String c =
     (if c = PathLineage then ''lineage'' else if c = PathAffinal then ''affinal'' else ''unknown'')"

record Path =
  Pa_Steps :: "Step list"
  Pa_Certainty :: Certainty
  Pa_TotalGap :: int
  Pa_GapEdges :: int
  Pa_Length :: int
  Pa_Classification :: PathClassification
  Pa_GraphVersion :: Version

definition Path_From :: "Path \<Rightarrow> ID" where
  "Path_From p = (case Pa_Steps p of [] \<Rightarrow> '''' | s # _ \<Rightarrow> St_FromPerson s)"

definition Path_To :: "Path \<Rightarrow> ID" where
  "Path_To p = (if Pa_Steps p = [] then '''' else St_ToPerson (last (Pa_Steps p)))"

definition PassesThrough :: "Path \<Rightarrow> ID \<Rightarrow> bool" where
  "PassesThrough p i = (case Pa_Steps p of
     [] \<Rightarrow> False
   | s # _ \<Rightarrow> if St_FromPerson s = i then True
       else list_ex (\<lambda>s. St_ToPerson s = i) (Pa_Steps p))"

definition Path_String :: "Path \<Rightarrow> string" where
  "Path_String p =
     (if Pa_Steps p = [] then ''Path<empty>''
      else ''Path<'' @ Path_From p @ ''..'' @ Path_To p @ '', len='' @ show_int (Pa_Length p)
        @ '', cert='' @ Certainty_String (Pa_Certainty p) @ '', gap='' @ show_int (Pa_TotalGap p)
        @ ''/'' @ show_int (Pa_GapEdges p) @ '', ''
        @ PathClassification_String (Pa_Classification p)
        @ '', v='' @ show_int (uint (Pa_GraphVersion p)) @ ''>'')"


section \<open>Ranking\<close>

definition nodeSignature :: "Path \<Rightarrow> ID list" where
  "nodeSignature p = (case Pa_Steps p of
     [] \<Rightarrow> []
   | s # _ \<Rightarrow> St_FromPerson s # map St_ToPerson (Pa_Steps p))"

text \<open>The loop of the tiebreaker, and the comparison of the lengths after it.\<close>

fun signature_less :: "ID list \<Rightarrow> ID list \<Rightarrow> bool" where
  "signature_less (a # as) (b # bs) = (if a \<noteq> b then a < b else signature_less as bs)"
| "signature_less as bs = (length as < length bs)"

definition Less :: "Path \<Rightarrow> Path \<Rightarrow> bool" where
  "Less a b =
     (if Certainty_Rank (Pa_Certainty a) \<noteq> Certainty_Rank (Pa_Certainty b)
      then Certainty_Rank (Pa_Certainty a) > Certainty_Rank (Pa_Certainty b)
      else if Pa_TotalGap a \<noteq> Pa_TotalGap b then Pa_TotalGap a < Pa_TotalGap b
      else if Pa_GapEdges a \<noteq> Pa_GapEdges b then Pa_GapEdges a < Pa_GapEdges b
      else if Pa_Length a \<noteq> Pa_Length b then Pa_Length a < Pa_Length b
      else signature_less (nodeSignature a) (nodeSignature b))"

text \<open>The loop of \<open>computeAggregate\<close> over the steps, with its four accumulators.\<close>

fun aggregate_loop ::
    "Step list \<Rightarrow> Certainty \<Rightarrow> int \<Rightarrow> int \<Rightarrow> PathClassification \<Rightarrow>
     Certainty \<times> int \<times> int \<times> PathClassification" where
  "aggregate_loop [] cert totalGap gapEdges classification =
     (cert, totalGap, gapEdges, classification)"
| "aggregate_loop (s # steps) cert totalGap gapEdges classification =
     (let r = St_Relationship s;
          c = R_certainty r;
          cert' = (if Certainty_Rank c < Certainty_Rank cert then c else cert);
          gapEdges' = (if Continuity_IsGapped (R_continuity r) then gapEdges + 1 else gapEdges);
          weight = GapWeight r;
          totalGap' = (if R_type r = RelTypeParentChild \<and> weight > 1
                       then wrap64 (totalGap + (weight - 1)) else totalGap);
          classification' = (if R_type r = RelTypeMarriage then PathAffinal else classification)
      in aggregate_loop steps cert' totalGap' gapEdges' classification')"

definition computeAggregate ::
    "Step list \<Rightarrow> Certainty \<times> int \<times> int \<times> int \<times> PathClassification" where
  "computeAggregate steps = (case steps of
     [] \<Rightarrow> (CertaintyCertain, 0, 0, 0, PathLineage)
   | s # _ \<Rightarrow>
       (case aggregate_loop steps (R_certainty (St_Relationship s)) 0 0 PathLineage of
          (cert, totalGap, gapEdges, classification) \<Rightarrow>
            (cert, totalGap, gapEdges, int (length steps), classification)))"


section \<open>The order as a key\<close>

text \<open>The criteria of \<open>Less\<close>, first to last; a higher certainty sorts first.\<close>

datatype rank_key = Rank_Key (rank_tuple: "int \<times> int \<times> int \<times> int \<times> ID list")

instantiation rank_key :: linorder
begin

definition less_eq_rank_key :: "rank_key \<Rightarrow> rank_key \<Rightarrow> bool" where
  "less_eq_rank_key a b \<longleftrightarrow> rank_tuple a \<le> rank_tuple b"

definition less_rank_key :: "rank_key \<Rightarrow> rank_key \<Rightarrow> bool" where
  "less_rank_key a b \<longleftrightarrow> rank_tuple a < rank_tuple b"

instance
  by standard (auto simp: less_eq_rank_key_def less_rank_key_def less_le_not_le
      intro: rank_key.expand)

end

definition path_key :: "Path \<Rightarrow> rank_key" where
  "path_key p = Rank_Key (- Certainty_Rank (Pa_Certainty p), Pa_TotalGap p, Pa_GapEdges p,
     Pa_Length p, nodeSignature p)"

lemma signature_less_iff: "signature_less as bs \<longleftrightarrow> as < bs"
proof (induction as arbitrary: bs)
  case Nil
  then show ?case by (cases bs) auto
next
  case (Cons x xs)
  then show ?case by (cases bs) auto
qed

text \<open>One criterion of a lexicographic comparison.\<close>

lemma lex_step:
  "(if (x :: 'a :: linorder) \<noteq> y then x < y else P) \<longleftrightarrow> x < y \<or> x \<le> y \<and> P"
  by (cases x y rule: linorder_cases) auto

lemma Less_iff_key: "Less a b \<longleftrightarrow> path_key a < path_key b"
proof -
  have "Less a b =
     (if - Certainty_Rank (Pa_Certainty a) \<noteq> - Certainty_Rank (Pa_Certainty b)
      then - Certainty_Rank (Pa_Certainty a) < - Certainty_Rank (Pa_Certainty b)
      else if Pa_TotalGap a \<noteq> Pa_TotalGap b then Pa_TotalGap a < Pa_TotalGap b
      else if Pa_GapEdges a \<noteq> Pa_GapEdges b then Pa_GapEdges a < Pa_GapEdges b
      else if Pa_Length a \<noteq> Pa_Length b then Pa_Length a < Pa_Length b
      else nodeSignature a < nodeSignature b)"
    by (simp add: Less_def signature_less_iff)
  then show ?thesis
    unfolding lex_step by (simp only: path_key_def less_rank_key_def rank_key.sel less_prod_simp)
qed


section \<open>The aggregates\<close>

text \<open>What one step adds to the total gap; a marriage and a continuous edge add nothing.\<close>

definition gap_part :: "Step \<Rightarrow> int" where
  "gap_part s =
     (let w = GapWeight (St_Relationship s)
      in if is_pc (St_Relationship s) \<and> w > 1 then w - 1 else 0)"

definition step_gapped :: "Step \<Rightarrow> bool" where
  "step_gapped s \<longleftrightarrow> Continuity_IsGapped (R_continuity (St_Relationship s))"

definition step_marriage :: "Step \<Rightarrow> bool" where
  "step_marriage s \<longleftrightarrow> R_type (St_Relationship s) = RelTypeMarriage"

lemma wrap64_add: "wrap64 (wrap64 a + b) = wrap64 (a + b)"
  by (simp add: wrap64_def mod_simps algebra_simps)

lemma aggregate_loop_eq:
  assumes "int64 t"
  shows "aggregate_loop steps c t g k =
    (Min (insert c (set (map (R_certainty \<circ> St_Relationship) steps))),
     wrap64 (t + sum_list (map gap_part steps)),
     g + int (length (filter step_gapped steps)),
     if list_ex step_marriage steps then PathAffinal else k)"
  using assms
proof (induction steps arbitrary: c t g k)
  case Nil
  then show ?case by (simp add: wrap64_id)
next
  case (Cons s steps)
  let ?r = "St_Relationship s"
  have cert: "Min (insert c (set (map (R_certainty \<circ> St_Relationship) (s # steps)))) =
      Min (insert (min c (R_certainty ?r)) (set (map (R_certainty \<circ> St_Relationship) steps)))"
    by (cases "steps = []") (simp_all add: Min_insert min.assoc)
  have min: "(if Certainty_Rank (R_certainty ?r) < Certainty_Rank c then R_certainty ?r else c) =
      min c (R_certainty ?r)"
    using Certainty_Min_eq [of c "R_certainty ?r"] by (simp add: Certainty_Min_def)
  have gap: "(if R_type ?r = RelTypeParentChild \<and> GapWeight ?r > 1
      then wrap64 (t + (GapWeight ?r - 1)) else t) = wrap64 (t + gap_part s)"
    using Cons.prems by (simp add: gap_part_def is_pc_def Let_def wrap64_id)
  show ?case
    unfolding aggregate_loop.simps Let_def min gap cert
    by (subst Cons.IH [OF wrap64_int64])
      (simp add: wrap64_add add.assoc step_gapped_def step_marriage_def)
qed

lemma computeAggregate_eq:
  assumes "steps \<noteq> []"
  shows "computeAggregate steps =
    (Min (set (map (R_certainty \<circ> St_Relationship) steps)),
     wrap64 (sum_list (map gap_part steps)), int (length (filter step_gapped steps)),
     int (length steps), if list_ex step_marriage steps then PathAffinal else PathLineage)"
proof -
  obtain s ss where s: "steps = s # ss" using assms by (cases steps) auto
  have "int64 0" by (simp add: int64_def)
  from aggregate_loop_eq [OF this, of steps "R_certainty (St_Relationship s)" 0 PathLineage]
  show ?thesis by (simp add: computeAggregate_def s insert_absorb)
qed


section \<open>Properties\<close>

text \<open>
  \<open>Less\<close> is the lexicographic order of the five criteria (certainty downwards, then total gap,
  gap edges, length and the sequence of node ids upwards), so it is a strict weak order, which is
  what the sort needs: it is irreflexive and transitive, and two paths that it leaves unordered
  are exactly those that agree on all five criteria.
\<close>

theorem Less_strict_weak_order:
  "(\<forall>a b. Less a b = (path_key a < path_key b)) \<and> irreflp Less \<and> transp Less \<and>
   (\<forall>a b. (\<not> Less a b \<and> \<not> Less b a) = (path_key a = path_key b))"
  unfolding irreflp_def transp_def by (auto simp: Less_iff_key)

text \<open>Two paths over one step each, which differ in the id of the edge only.\<close>

definition twin_path :: "ID \<Rightarrow> Path" where
  "twin_path i = (let r = gap2_edge\<lparr>R_id := i\<rparr> in
     \<lparr>Pa_Steps = [\<lparr>St_Relationship = r, St_Direction = EdgeForward, St_FromPerson = R_from r,
        St_ToPerson = R_to r\<rparr>], Pa_Certainty = R_certainty r, Pa_TotalGap = 2, Pa_GapEdges = 1,
      Pa_Length = 1, Pa_Classification = PathLineage, Pa_GraphVersion = 0\<rparr>)"

text \<open>
  The tiebreaker of \<open>Less\<close> is not total on paths: two paths over different edges between the
  same persons (here one parent and child under two edge ids) are distinct and unordered, so
  their relative order is the order in which the store offered the edges.
\<close>

theorem Less_ties_parallel_edges:
  "twin_path ''e'' \<noteq> twin_path ''f'' \<and> \<not> Less (twin_path ''e'') (twin_path ''f'') \<and>
   \<not> Less (twin_path ''f'') (twin_path ''e'')"
  by (simp add: Less_iff_key path_key_def twin_path_def Let_def nodeSignature_def gap2_edge_def)

text \<open>
  The aggregates of a path. For a non-empty path the certainty is that of the weakest edge,
  the total gap is the sum of the gaps of its edges reduced to 64 bits, and the path is affinal
  exactly when it has a marriage.
\<close>

theorem computeAggregate_exact:
  assumes "steps \<noteq> []"
  shows "computeAggregate steps =
    (Min (set (map (R_certainty \<circ> St_Relationship) steps)),
     wrap64 (sum_list (map gap_part steps)), int (length (filter step_gapped steps)),
     int (length steps), if list_ex step_marriage steps then PathAffinal else PathLineage)"
  using assms by (rule computeAggregate_eq)

theorem computeAggregate_exact_witness:
  "computeAggregate (Pa_Steps (twin_path ''e'')) = (CertaintyProbable, 2, 1, 1, PathLineage)"
  using computeAggregate_exact [of "Pa_Steps (twin_path ''e'')"]
  by (simp add: twin_path_def Let_def gap2_edge_def gap_part_def GapWeight_def is_pc_def
      step_gapped_def step_marriage_def NewGapped_def Continuity_IsGapped_def wrap64_def go_consts)

end
