(* ===== verification/Engine.thy ===== *)
theory Engine
  imports Paths "HOL-Library.Multiset"
begin

text \<open>
  Path enumeration (\<open>FindPaths\<close> of src/query/engine.go). The closure \<open>dfs\<close> and its three callbacks
  share the variables \<open>visited\<close>, \<open>steps\<close> and \<open>found\<close>, which are the record \<open>DfsState\<close>; the recursion
  is cut by \<open>len(steps) >= maxDepth\<close>, so fuel of one more than \<open>maxDepth\<close> is enough
  (\<open>dfs_correct\<close>: the fuel is never exhausted).

  Against any reader that keeps the contract \<open>graph_reader\<close>, the search finds exactly the simple
  paths of the graph, each once (\<open>simple_path\<close> below is that specification).
\<close>

section \<open>The code\<close>

record Options =
  Opt_MaxDepth :: int
  Opt_MaxPaths :: int
  Opt_IncludeAffinal :: bool

definition DefaultMaxDepth :: int where
  "DefaultMaxDepth = 16"

definition maxDepth :: "Options \<Rightarrow> int" where
  "maxDepth o' = (if Opt_MaxDepth o' \<le> 0 then DefaultMaxDepth else Opt_MaxDepth o')"

definition makePath :: "ReadTx \<Rightarrow> Step list \<Rightarrow> Path" where
  "makePath rtx steps =
     (case computeAggregate steps of
        (cert, gap, gaps, len, class) \<Rightarrow>
          \<lparr>Pa_Steps = steps, Pa_Certainty = cert, Pa_TotalGap = gap, Pa_GapEdges = gaps,
           Pa_Length = len, Pa_Classification = class, Pa_GraphVersion = rt_Version rtx\<rparr>)"

record DfsState =
  D_visited :: "ID set"
  D_steps :: "Step list"
  D_found :: "Path list"

text \<open>
  The body that the three callbacks share, after each has chosen the direction and the next
  person; \<open>rec\<close> is the call \<open>dfs(next)\<close>, and \<open>None\<close> is fuel that has run out.
\<close>

definition dfs_visit ::
    "ReadTx \<Rightarrow> ID \<Rightarrow> (ID \<Rightarrow> DfsState \<Rightarrow> DfsState option) \<Rightarrow> ID \<Rightarrow>
     Relationship \<times> EdgeDirection \<times> ID \<Rightarrow> DfsState \<Rightarrow> DfsState option" where
  "dfs_visit rtx to rec node m s =
     (case m of (rel, dir, nxt) \<Rightarrow>
        if nxt \<in> D_visited s then Some s
        else
          let step = \<lparr>St_Relationship = rel, St_Direction = dir, St_FromPerson = node,
                      St_ToPerson = nxt\<rparr>;
              s1 = s\<lparr>D_steps := D_steps s @ [step], D_visited := insert nxt (D_visited s)\<rparr>;
              s2 = (if nxt = to
                    then Some (s1\<lparr>D_found := D_found s1 @ [makePath rtx (D_steps s1)]\<rparr>)
                    else rec nxt s1)
          in map_option (\<lambda>s2. s2\<lparr>D_visited := D_visited s2 - {nxt},
                                 D_steps := butlast (D_steps s2)\<rparr>) s2)"

definition child_move :: "Relationship \<Rightarrow> Relationship \<times> EdgeDirection \<times> ID" where
  "child_move rel = (rel, EdgeForward, R_to rel)"

definition parent_move :: "Relationship \<Rightarrow> Relationship \<times> EdgeDirection \<times> ID" where
  "parent_move rel = (rel, EdgeReverse, R_from rel)"

definition marriage_move :: "ID \<Rightarrow> Relationship \<Rightarrow> Relationship \<times> EdgeDirection \<times> ID" where
  "marriage_move node rel =
     (if R_to rel = node then (rel, EdgeReverse, R_from rel) else (rel, EdgeForward, R_to rel))"

text \<open>
  A callback never stops the iteration by itself; running out of fuel does, as nothing after it
  counts. The error of an iterator is dropped, as in the code.
\<close>

definition dfs_iter ::
    "(Relationship \<Rightarrow> 's \<Rightarrow> 's option) \<Rightarrow> Relationship iter \<Rightarrow> 's option \<Rightarrow> 's option" where
  "dfs_iter f it c =
     fst (run_iter it (\<lambda>rel c. case c of None \<Rightarrow> (None, False) | Some s \<Rightarrow> (f rel s, True)) c)"

primrec dfs ::
    "nat \<Rightarrow> ReadTx \<Rightarrow> Options \<Rightarrow> ID \<Rightarrow> ID \<Rightarrow> DfsState \<Rightarrow> DfsState option" where
  "dfs 0 rtx opts to node s = None"
| "dfs (Suc fuel) rtx opts to node s =
     (if int (length (D_steps s)) \<ge> maxDepth opts then Some s
      else
        let visit = dfs_visit rtx to (dfs fuel rtx opts to) node;
            s1 = dfs_iter (\<lambda>rel. visit (child_move rel)) (rt_IterateChildren rtx node) (Some s);
            s2 = dfs_iter (\<lambda>rel. visit (parent_move rel)) (rt_IterateParents rtx node) s1
        in if Opt_IncludeAffinal opts
           then dfs_iter (\<lambda>rel. visit (marriage_move node rel)) (rt_IterateMarriages rtx node) s2
           else s2)"

text \<open>
  \<open>sort.SliceStable\<close>: for a strict weak order its result is the only sorted permutation that keeps
  equal elements in order; insertion before the first larger element computes it.
\<close>

fun insert_before :: "('a \<Rightarrow> 'a \<Rightarrow> bool) \<Rightarrow> 'a \<Rightarrow> 'a list \<Rightarrow> 'a list" where
  "insert_before lt x [] = [x]"
| "insert_before lt x (y # ys) = (if lt y x then y # insert_before lt x ys else x # y # ys)"

definition SliceStable :: "('a \<Rightarrow> 'a \<Rightarrow> bool) \<Rightarrow> 'a list \<Rightarrow> 'a list" where
  "SliceStable lt xs = foldr (insert_before lt) xs []"

definition found_less :: "Path \<Rightarrow> Path \<Rightarrow> bool" where
  "found_less a b =
     (if Pa_Classification a \<noteq> Pa_Classification b then Pa_Classification a = PathLineage
      else Less a b)"

definition FindPaths ::
    "ReadTx \<Rightarrow> ID \<Rightarrow> ID \<Rightarrow> Options \<Rightarrow> (error, Path list) partial_res" where
  "FindPaths rtx from to opts =
     (if ID_IsZero from \<or> ID_IsZero to
      then Some (Inl (New CodeInvalidArgument ''from/to required''))
      else if from = to
      then Some (Inl (New CodeInvalidArgument ''from and to must differ''))
      else case rt_GetPerson rtx from of Inl e \<Rightarrow> Some (Inl e) | Inr _ \<Rightarrow>
        (case rt_GetPerson rtx to of Inl e \<Rightarrow> Some (Inl e) | Inr _ \<Rightarrow>
          (case dfs (nat (maxDepth opts) + 1) rtx opts to from
                  \<lparr>D_visited = {from}, D_steps = [], D_found = []\<rparr> of
             None \<Rightarrow> None
           | Some s \<Rightarrow>
               (if D_found s = [] then Some (Inl ErrNoKnownConnection)
                else
                  let found = SliceStable found_less (D_found s)
                  in if Opt_MaxPaths opts > 0 \<and> int (length found) > Opt_MaxPaths opts
                     then Some (Inr (take (nat (Opt_MaxPaths opts)) found))
                     else Some (Inr found)))))"


section \<open>The simple paths of a graph\<close>

text \<open>One step of a path: an edge of the graph walked along or against its direction.\<close>

definition step_in :: "Graph \<Rightarrow> bool \<Rightarrow> Step \<Rightarrow> bool" where
  "step_in G affinal s \<longleftrightarrow>
     (let r = St_Relationship s; a = St_FromPerson s; b = St_ToPerson s; d = St_Direction s in
      r \<in> ran (g_rels G) \<and>
      (is_pc r \<and> d = EdgeForward \<and> a = R_from r \<and> b = R_to r \<or>
       is_pc r \<and> d = EdgeReverse \<and> a = R_to r \<and> b = R_from r \<or>
       affinal \<and> R_type r = RelTypeMarriage \<and> d = EdgeForward \<and> a = R_from r \<and> b = R_to r \<and> a \<noteq> b \<or>
       affinal \<and> R_type r = RelTypeMarriage \<and> d = EdgeReverse \<and> a = R_to r \<and> b = R_from r))"

fun chained :: "ID \<Rightarrow> Step list \<Rightarrow> ID \<Rightarrow> bool" where
  "chained a [] b \<longleftrightarrow> a = b"
| "chained a (s # ss) b \<longleftrightarrow> St_FromPerson s = a \<and> chained (St_ToPerson s) ss b"

definition simple_path :: "Graph \<Rightarrow> bool \<Rightarrow> ID \<Rightarrow> ID \<Rightarrow> Step list \<Rightarrow> bool" where
  "simple_path G affinal a b ss \<longleftrightarrow>
     list_all (step_in G affinal) ss \<and> chained a ss b \<and> distinct (a # map St_ToPerson ss)"


section \<open>The search as an enumeration\<close>

definition moves :: "ReadTx \<Rightarrow> Options \<Rightarrow> ID \<Rightarrow> (Relationship \<times> EdgeDirection \<times> ID) list" where
  "moves rtx opts node =
     map child_move (fst (rt_IterateChildren rtx node)) @
     map parent_move (fst (rt_IterateParents rtx node)) @
     (if Opt_IncludeAffinal opts
      then map (marriage_move node) (fst (rt_IterateMarriages rtx node)) else [])"

definition move_step :: "ID \<Rightarrow> Relationship \<times> EdgeDirection \<times> ID \<Rightarrow> Step" where
  "move_step node m = \<lparr>St_Relationship = fst m, St_Direction = fst (snd m), St_FromPerson = node,
     St_ToPerson = snd (snd m)\<rparr>"

lemma move_step_simps [simp]:
  "St_FromPerson (move_step node m) = node" "St_ToPerson (move_step node m) = snd (snd m)"
  by (simp_all add: move_step_def)

primrec paths :: "nat \<Rightarrow> ReadTx \<Rightarrow> Options \<Rightarrow> ID \<Rightarrow> ID \<Rightarrow> ID set \<Rightarrow> Step list list" where
  "paths 0 rtx opts to node vis = []"
| "paths (Suc d) rtx opts to node vis =
     concat (map (\<lambda>m.
       let nxt = snd (snd m) in
       if nxt \<in> vis then []
       else map ((#) (move_step node m))
              (if nxt = to then [[]] else paths d rtx opts to nxt (insert nxt vis)))
     (moves rtx opts node))"

abbreviation add_found :: "DfsState \<Rightarrow> Path list \<Rightarrow> DfsState" where
  "add_found s ps \<equiv> s\<lparr>D_found := D_found s @ ps\<rparr>"

lemma dfs_iter_append:
  assumes "\<And>x ps. x \<in> set (fst it) \<Longrightarrow> f x (add_found s ps) = Some (add_found (add_found s ps) (g x))"
  shows "dfs_iter f it (Some s) = Some (add_found s (concat (map g (fst it))))"
proof -
  let ?cb = "\<lambda>rel c. case c of None \<Rightarrow> (None, False) | Some s \<Rightarrow> (f rel s, True)"
  have "fst (iterate ?cb xs err (Some (add_found s ps))) = Some (add_found s (ps @ concat (map g xs)))"
    if "set xs \<subseteq> set (fst it)" for xs err ps
    using that
  proof (induction xs arbitrary: ps)
    case (Cons x xs)
    have "f x (add_found s ps) = Some (add_found s (ps @ g x))"
      using assms [of x ps] Cons.prems by simp
    with Cons.IH [of "ps @ g x"] Cons.prems show ?case by simp
  qed simp
  from this [of "fst it" "snd it" "[]"] show ?thesis by (simp add: dfs_iter_def run_iter_def)
qed

text \<open>
  With fuel above the remaining depth, \<open>dfs\<close> returns, restores \<open>visited\<close> and \<open>steps\<close>, and appends
  the enumerated paths, each behind the steps that led to its start.
\<close>

lemma dfs_correct:
  "nat (maxDepth opts) - length (D_steps s) < fuel \<Longrightarrow>
   dfs fuel rtx opts to node s =
     Some (add_found s (map (\<lambda>p. makePath rtx (D_steps s @ p))
       (paths (nat (maxDepth opts) - length (D_steps s)) rtx opts to node (D_visited s))))"
proof (induction fuel arbitrary: node s)
  case (Suc fuel)
  let ?d = "nat (maxDepth opts) - length (D_steps s)"
  show ?case
  proof (cases "int (length (D_steps s)) \<ge> maxDepth opts")
    case True
    then have "?d = 0" by linarith
    with True show ?thesis by simp
  next
    case False
    then obtain d where d: "?d = Suc d" by (cases ?d) auto
    let ?visit = "dfs_visit rtx to (dfs fuel rtx opts to) node"
    let ?g = "\<lambda>m. map (\<lambda>p. makePath rtx (D_steps s @ p))
       (if snd (snd m) \<in> D_visited s then []
        else map ((#) (move_step node m)) (if snd (snd m) = to then [[]]
          else paths d rtx opts to (snd (snd m)) (insert (snd (snd m)) (D_visited s))))"
    have visit: "?visit m (add_found s ps) = Some (add_found (add_found s ps) (?g m))" for m ps
    proof (cases m)
      case (fields rel dir nxt)
      let ?s1 = "(add_found s ps)\<lparr>D_steps := D_steps s @ [move_step node m],
         D_visited := insert nxt (D_visited s)\<rparr>"
      from d Suc.prems have fuel: "nat (maxDepth opts) - length (D_steps ?s1) < fuel"
        "nat (maxDepth opts) - length (D_steps ?s1) = d" by simp_all
      from Suc.IH [OF fuel(1), of nxt] fuel(2)
      have rec: "dfs fuel rtx opts to nxt ?s1 = Some (add_found ?s1
          (map (\<lambda>p. makePath rtx ((D_steps s @ [move_step node m]) @ p))
             (paths d rtx opts to nxt (insert nxt (D_visited s)))))"
        by simp
      show ?thesis
        using rec unfolding fields
        by (simp add: dfs_visit_def move_step_def Let_def comp_def insert_Diff_if)
    qed
    have iter: "dfs_iter (\<lambda>rel. ?visit (h rel)) it (Some (add_found s ps)) =
        Some (add_found s (ps @ concat (map (?g \<circ> h) (fst it))))" for h it ps
      by (subst dfs_iter_append [where g = "?g \<circ> h"]) (use visit [of _ "ps @ _"] in simp_all)
    show ?thesis
      using False iter [of _ _ "[]"] iter
      by (simp add: d Let_def moves_def map_concat comp_def)
  qed
qed simp

text \<open>The answer of any reader, from the paths that the search enumerates.\<close>

lemma FindPaths_answer:
  assumes "rt_GetPerson rtx a = Inr pa" and "rt_GetPerson rtx b = Inr pb"
    and "a \<noteq> b" and "a \<noteq> []" and "b \<noteq> []"
  shows "FindPaths rtx a b opts = Some (
    let ps = map (makePath rtx) (paths (nat (maxDepth opts)) rtx opts b a {a});
        qs = SliceStable found_less ps
    in if ps = [] then Inl ErrNoKnownConnection
       else if Opt_MaxPaths opts > 0 \<and> int (length qs) > Opt_MaxPaths opts
         then Inr (take (nat (Opt_MaxPaths opts)) qs) else Inr qs)"
  using assms dfs_correct [of opts "\<lparr>D_visited = {a}, D_steps = [], D_found = []\<rparr>"
      "nat (maxDepth opts) + 1" rtx b a]
  by (simp add: FindPaths_def ID_IsZero_def Let_def)


section \<open>The enumeration is exactly the simple paths\<close>

lemma chained_last: "chained a ss b \<Longrightarrow> ss \<noteq> [] \<Longrightarrow> b = St_ToPerson (last ss)"
  by (induction ss arbitrary: a) auto

lemma chained_in: "chained a ss b \<Longrightarrow> ss \<noteq> [] \<Longrightarrow> b \<in> St_ToPerson ` set ss"
  by (metis chained_last imageI last_in_set)

lemma distinct_map_inverse: "distinct xs \<Longrightarrow> (\<And>e. g (h e) = e) \<Longrightarrow> distinct (map h xs)"
  by (metis distinct_map inj_on_def)

lemma distinct_concat_heads:
  assumes "distinct (map h xs)" and "\<And>x. x \<in> set xs \<Longrightarrow> distinct (f x)"
  shows "distinct (concat (map (\<lambda>x. map ((#) (h x)) (f x)) xs))"
  using assms
proof (induction xs)
  case (Cons x xs)
  then have "distinct (concat (map (\<lambda>x. map ((#) (h x)) (f x)) xs))" by simp
  moreover have "distinct (map ((#) (h x)) (f x))"
    using Cons.prems(2) [of x] by (simp add: distinct_map inj_on_def)
  moreover have "set (map ((#) (h x)) (f x)) \<inter> set (concat (map (\<lambda>x. map ((#) (h x)) (f x)) xs)) = {}"
    using Cons.prems(1) by (auto simp: image_iff)
  ultimately show ?case by simp
qed simp

lemma pc_not_marriage: "is_pc e \<Longrightarrow> R_type e \<noteq> RelTypeMarriage"
  by (simp add: is_pc_def go_consts)

text \<open>A step that leaves a node is one of the moves that the three iterators offer there.\<close>

lemma step_in_cases:
  "step_in G affinal s \<and> St_FromPerson s = node \<longleftrightarrow>
     (\<exists>e \<in> children_of G node. s = move_step node (child_move e)) \<or>
     (\<exists>e \<in> parents_of G node. s = move_step node (parent_move e)) \<or>
     affinal \<and> (\<exists>e \<in> marriages_of G node. s = move_step node (marriage_move node e))"
proof -
  have eq: "s = move_step node m \<longleftrightarrow> St_Relationship s = fst m \<and> St_Direction s = fst (snd m) \<and>
      St_FromPerson s = node \<and> St_ToPerson s = snd (snd m)" for m
    by (cases s) (auto simp: move_step_def)
  have m: "s = move_step node (marriage_move node e) \<longleftrightarrow> St_Relationship s = e \<and>
      St_FromPerson s = node \<and>
      (if R_to e = node then St_Direction s = EdgeReverse \<and> St_ToPerson s = R_from e
       else St_Direction s = EdgeForward \<and> St_ToPerson s = R_to e)" for e
    unfolding eq by (auto simp: marriage_move_def)
  let ?e = "St_Relationship s"
  have c: "(\<exists>e \<in> children_of G node. s = move_step node (child_move e)) \<longleftrightarrow>
      ?e \<in> ran (g_rels G) \<and> is_pc ?e \<and> R_from ?e = node \<and> St_FromPerson s = node \<and>
      St_Direction s = EdgeForward \<and> St_ToPerson s = R_to ?e"
    unfolding eq by (auto simp: children_of_def child_move_def)
  have p: "(\<exists>e \<in> parents_of G node. s = move_step node (parent_move e)) \<longleftrightarrow>
      ?e \<in> ran (g_rels G) \<and> is_pc ?e \<and> R_to ?e = node \<and> St_FromPerson s = node \<and>
      St_Direction s = EdgeReverse \<and> St_ToPerson s = R_from ?e"
    unfolding eq by (auto simp: parents_of_def parent_move_def)
  have w: "(\<exists>e \<in> marriages_of G node. s = move_step node (marriage_move node e)) \<longleftrightarrow>
      ?e \<in> ran (g_rels G) \<and> R_type ?e = RelTypeMarriage \<and> St_FromPerson s = node \<and>
      (if R_to ?e = node then St_Direction s = EdgeReverse \<and> St_ToPerson s = R_from ?e
       else St_Direction s = EdgeForward \<and> R_from ?e = node \<and> St_ToPerson s = R_to ?e)"
    unfolding m by (auto simp: marriages_of_def split: if_splits)
  show ?thesis unfolding c p w step_in_def Let_def by auto
qed

context graph_reader
begin

lemma moves_steps:
  assumes "ok r"
  shows "move_step node ` set (moves (rd r) opts node) =
    {s. step_in (gr r) (Opt_IncludeAffinal opts) s \<and> St_FromPerson s = node}"
proof -
  have c: "set (fst (rt_IterateChildren (rd r) node)) = children_of (gr r) node"
    "set (fst (rt_IterateParents (rd r) node)) = parents_of (gr r) node"
    "set (fst (rt_IterateMarriages (rd r) node)) = marriages_of (gr r) node"
    using IterateChildren [OF assms, of node] IterateParents [OF assms, of node]
      IterateMarriages [OF assms, of node] by (simp_all add: enumerates_def)
  have "move_step node ` set (moves (rd r) opts node) =
      (\<lambda>e. move_step node (child_move e)) ` children_of (gr r) node \<union>
      (\<lambda>e. move_step node (parent_move e)) ` parents_of (gr r) node \<union>
      (if Opt_IncludeAffinal opts
       then (\<lambda>e. move_step node (marriage_move node e)) ` marriages_of (gr r) node else {})"
    by (simp add: moves_def c image_Un image_image Un_assoc)
  then show ?thesis
    using step_in_cases [of "gr r" "Opt_IncludeAffinal opts" _ node] by (auto split: if_splits)
qed

lemma moves_distinct:
  assumes "ok r"
  shows "distinct (map (move_step node) (moves (rd r) opts node))"
proof -
  have c: "set (fst (rt_IterateChildren (rd r) node)) = children_of (gr r) node"
    "set (fst (rt_IterateParents (rd r) node)) = parents_of (gr r) node"
    "set (fst (rt_IterateMarriages (rd r) node)) = marriages_of (gr r) node"
    "distinct (fst (rt_IterateChildren (rd r) node))"
    "distinct (fst (rt_IterateParents (rd r) node))"
    "distinct (fst (rt_IterateMarriages (rd r) node))"
    using IterateChildren [OF assms, of node] IterateParents [OF assms, of node]
      IterateMarriages [OF assms, of node] by (simp_all add: enumerates_def)
  let ?c = "\<lambda>e. move_step node (child_move e)" and ?p = "\<lambda>e. move_step node (parent_move e)"
  let ?m = "\<lambda>e. move_step node (marriage_move node e)"
  have rel: "St_Relationship (?c e) = e" "St_Relationship (?p e) = e" "St_Relationship (?m e) = e" for e
    by (simp_all add: move_step_def child_move_def parent_move_def marriage_move_def)
  have dirs: "?c e \<noteq> ?p e'" for e e'
    by (simp add: move_step_def child_move_def parent_move_def go_consts)
  have types: "?c e \<noteq> ?m e'" "?p e \<noteq> ?m e'" if "is_pc e" "e' \<in> marriages_of (gr r) node" for e e'
  proof -
    from that have "e \<noteq> e'" using pc_not_marriage by (auto simp: marriages_of_def)
    then show "?c e \<noteq> ?m e'" "?p e \<noteq> ?m e'" using rel by metis+
  qed
  have "?c ` children_of (gr r) node \<inter> ?p ` parents_of (gr r) node = {}"
    using dirs by blast
  moreover have "?c ` children_of (gr r) node \<inter> ?m ` marriages_of (gr r) node = {}"
    "?p ` parents_of (gr r) node \<inter> ?m ` marriages_of (gr r) node = {}"
    using types by (fastforce simp: children_of_def parents_of_def)+
  moreover note distinct_map_inverse [where h = ?c, OF c(4) rel(1)]
    distinct_map_inverse [where h = ?p, OF c(5) rel(2)]
    distinct_map_inverse [where h = ?m, OF c(6) rel(3)]
  ultimately show ?thesis
    by (simp add: moves_def comp_def c(1-3) Int_Un_distrib image_image)
qed

text \<open>The enumeration below a node, for a set of nodes that are not to be met again.\<close>

lemma paths_set:
  assumes "ok r" and "node \<in> vis"
  shows "ss \<in> set (paths d (rd r) opts to node vis) \<longleftrightarrow>
    ss \<noteq> [] \<and> length ss \<le> d \<and> list_all (step_in (gr r) (Opt_IncludeAffinal opts)) ss \<and>
    chained node ss to \<and> distinct (map St_ToPerson ss) \<and> St_ToPerson ` set ss \<inter> vis = {}"
  using assms(2)
proof (induction d arbitrary: node vis ss)
  case (Suc d)
  show ?case
  proof (cases ss)
    case (Cons s ss')
    have "ss \<in> set (paths (Suc d) (rd r) opts to node vis) \<longleftrightarrow>
      (\<exists>m \<in> set (moves (rd r) opts node). s = move_step node m \<and> St_ToPerson s \<notin> vis \<and>
         (if St_ToPerson s = to then ss' = []
          else ss' \<in> set (paths d (rd r) opts to (St_ToPerson s) (insert (St_ToPerson s) vis))))"
      by (auto simp: Cons Let_def image_iff split: if_splits)
    also have "\<dots> \<longleftrightarrow> step_in (gr r) (Opt_IncludeAffinal opts) s \<and> St_FromPerson s = node \<and>
        St_ToPerson s \<notin> vis \<and> (if St_ToPerson s = to then ss' = []
          else ss' \<in> set (paths d (rd r) opts to (St_ToPerson s) (insert (St_ToPerson s) vis)))"
      using moves_steps [OF assms(1), of node opts] by blast
    also have "\<dots> \<longleftrightarrow> step_in (gr r) (Opt_IncludeAffinal opts) s \<and> St_FromPerson s = node \<and>
        St_ToPerson s \<notin> vis \<and> length ss' \<le> d \<and>
        list_all (step_in (gr r) (Opt_IncludeAffinal opts)) ss' \<and> chained (St_ToPerson s) ss' to \<and>
        distinct (St_ToPerson s # map St_ToPerson ss') \<and> St_ToPerson ` set ss' \<inter> vis = {}"
      using Suc.IH [of "St_ToPerson s" "insert (St_ToPerson s) vis" ss']
        chained_in [of "St_ToPerson s" ss' to]
      by (cases "St_ToPerson s = to"; cases "ss' = []") auto
    finally show ?thesis by (auto simp: Cons)
  qed (auto simp: Let_def)
qed simp

lemma paths_distinct:
  assumes "ok r"
  shows "distinct (paths d (rd r) opts to node vis)"
proof (induction d arbitrary: node vis)
  case (Suc d)
  let ?f = "\<lambda>m. if snd (snd m) \<in> vis then [] else if snd (snd m) = to then [[]]
    else paths d (rd r) opts to (snd (snd m)) (insert (snd (snd m)) vis)"
  have "paths (Suc d) (rd r) opts to node vis =
      concat (map (\<lambda>m. map ((#) (move_step node m)) (?f m)) (moves (rd r) opts node))"
    by (auto simp: Let_def intro!: arg_cong [where f = concat])
  also have "distinct \<dots>"
    by (rule distinct_concat_heads [OF moves_distinct [OF assms]]) (simp add: Suc)
  finally show ?case .
qed simp

text \<open>From the start of a query: the simple paths that are no longer than the depth allows.\<close>

lemma paths_simple:
  assumes "ok r" and "from \<noteq> to"
  shows "set (paths d (rd r) opts to from {from}) =
    {ss. simple_path (gr r) (Opt_IncludeAffinal opts) from to ss \<and> length ss \<le> d}"
  using paths_set [OF assms(1), of "from" "{from}"] assms(2)
  by (auto simp: simple_path_def)

text \<open>
  What \<open>FindPaths\<close> computes: on two known and distinct persons it returns the enumerated simple
  paths, sorted and cut, and the error when there is none.
\<close>

lemma FindPaths_eq:
  assumes "ok r" and "g_persons (gr r) a \<noteq> None" and "g_persons (gr r) b \<noteq> None"
    and "a \<noteq> b" and "a \<noteq> ''''" and "b \<noteq> ''''"
  shows "FindPaths (rd r) a b opts = Some (
    let ps = map (makePath (rd r)) (paths (nat (maxDepth opts)) (rd r) opts b a {a});
        qs = SliceStable found_less ps
    in if ps = [] then Inl ErrNoKnownConnection
       else if Opt_MaxPaths opts > 0 \<and> int (length qs) > Opt_MaxPaths opts
         then Inr (take (nat (Opt_MaxPaths opts)) qs) else Inr qs)"
proof -
  obtain pa pb where "rt_GetPerson (rd r) a = Inr pa" "rt_GetPerson (rd r) b = Inr pb"
    using assms(1-3) GetPerson_Inr by (metis not_None_eq)
  then show ?thesis using assms(4-6) by (rule FindPaths_answer)
qed

end


section \<open>The stable sort\<close>

lemma insert_before_set: "set (insert_before lt x ys) = insert x (set ys)"
  by (induction ys) auto

lemma SliceStable_set [simp]: "set (SliceStable lt xs) = set xs"
  by (induction xs) (simp_all add: SliceStable_def insert_before_set)

lemma insert_before_mset: "mset (insert_before lt x ys) = add_mset x (mset ys)"
  by (induction ys) auto

lemma SliceStable_mset [simp]: "mset (SliceStable lt xs) = mset xs"
  by (induction xs) (simp_all add: SliceStable_def insert_before_mset)

lemma SliceStable_length [simp]: "length (SliceStable lt xs) = length xs"
  by (metis SliceStable_mset size_mset)

text \<open>When the comparison is that of a linear key, the result is the stable sort by the key.\<close>

lemma insert_before_key:
  "(\<And>a b. a \<in> insert x (set ys) \<Longrightarrow> b \<in> insert x (set ys) \<Longrightarrow>
     lt a b \<longleftrightarrow> key a < (key b :: 'k :: linorder)) \<Longrightarrow>
   insert_before lt x ys = insort_key key x ys"
  by (induction ys) (auto simp: not_less)

lemma SliceStable_sort_key:
  assumes "\<And>a b. a \<in> set xs \<Longrightarrow> b \<in> set xs \<Longrightarrow> lt a b \<longleftrightarrow> key a < (key b :: 'k :: linorder)"
  shows "SliceStable lt xs = sort_key key xs"
  using assms
proof (induction xs)
  case (Cons x xs)
  then have "SliceStable lt xs = sort_key key xs" by simp
  moreover have "insert_before lt x (sort_key key xs) = insort_key key x (sort_key key xs)"
    by (rule insert_before_key) (simp add: Cons.prems)
  ultimately show ?case by (simp add: SliceStable_def)
qed (simp add: SliceStable_def)

text \<open>Lineage paths first, then the rank.\<close>

definition found_key :: "Path \<Rightarrow> bool \<times> rank_key" where
  "found_key p = (Pa_Classification p \<noteq> PathLineage, path_key p)"

definition classified :: "Path \<Rightarrow> bool" where
  "classified p \<longleftrightarrow> Pa_Classification p \<in> {PathLineage, PathAffinal}"

lemma found_less_key:
  "classified a \<Longrightarrow> classified b \<Longrightarrow> found_less a b \<longleftrightarrow> found_key a < found_key b"
  by (auto simp: classified_def found_less_def found_key_def Less_iff_key go_consts)

lemma makePath_steps [simp]: "Pa_Steps (makePath rtx ss) = ss"
  by (simp add: makePath_def split: prod.split)

lemma makePath_classified: "classified (makePath rtx ss)"
  by (cases "ss = []")
    (auto simp: makePath_def computeAggregate_eq classified_def, simp add: computeAggregate_def)

lemma SliceStable_found:
  "SliceStable found_less (map (makePath rtx) sss) = sort_key found_key (map (makePath rtx) sss)"
  by (rule SliceStable_sort_key) (auto simp: found_less_key makePath_classified)


section \<open>Walking a path the other way\<close>

definition flip_step :: "Step \<Rightarrow> Step" where
  "flip_step s = s\<lparr>St_Direction := (if St_Direction s = EdgeForward then EdgeReverse else EdgeForward),
     St_FromPerson := St_ToPerson s, St_ToPerson := St_FromPerson s\<rparr>"

definition flip_path :: "Step list \<Rightarrow> Step list" where
  "flip_path ss = rev (map flip_step ss)"

lemma step_in_flip:
  "step_in G affinal s \<Longrightarrow> St_FromPerson s \<noteq> St_ToPerson s \<Longrightarrow> step_in G affinal (flip_step s)"
  by (auto simp: step_in_def flip_step_def Let_def go_consts)

lemma chained_append: "chained a (ss @ ts) b \<longleftrightarrow> (\<exists>c. chained a ss c \<and> chained c ts b)"
  by (induction ss arbitrary: a) auto

lemma chained_flip: "chained a ss b \<Longrightarrow> chained b (flip_path ss) a"
  by (induction ss arbitrary: a) (auto simp: flip_path_def chained_append flip_step_def)

lemma chained_nodes:
  "chained a ss b \<Longrightarrow> a # map St_ToPerson ss = map St_FromPerson ss @ [b]"
  by (induction ss arbitrary: a) auto

lemma simple_path_flip:
  assumes p: "simple_path G affinal a b ss"
  shows "simple_path G affinal b a (flip_path ss)"
proof -
  from p have ch: "chained a ss b" and d: "distinct (a # map St_ToPerson ss)"
    and st: "list_all (step_in G affinal) ss" by (auto simp: simple_path_def)
  note nodes = chained_nodes [OF ch]
  have "St_FromPerson s \<noteq> St_ToPerson s" if "s \<in> set ss" for s
    using that ch d
  proof (induction ss arbitrary: a)
    case (Cons t ss)
    then show ?case by (cases "s = t") (auto dest: Cons.IH [of "St_ToPerson t"])
  qed simp
  then have "list_all (step_in G affinal) (flip_path ss)"
    using st by (auto simp: flip_path_def list_all_iff intro: step_in_flip)
  moreover have "b # map St_ToPerson (flip_path ss) = rev (map St_FromPerson ss @ [b])"
    by (simp add: flip_path_def rev_map flip_step_def comp_def)
  then have "distinct (b # map St_ToPerson (flip_path ss))"
    using d by (simp flip: nodes)
  ultimately show ?thesis using chained_flip [OF ch] by (simp add: simple_path_def)
qed

lemma flip_path_length [simp]: "length (flip_path ss) = length ss"
  by (simp add: flip_path_def)


section \<open>The whole query\<close>

lemma maxDepth_pos: "0 < maxDepth opts"
  by (simp add: maxDepth_def DefaultMaxDepth_def)

context graph_reader
begin

text \<open>
  The answer on two distinct persons: the simple paths within the depth, each once, or the error
  when there is none.
\<close>

lemma FindPaths_exact:
  assumes "ok r" and "g_persons (gr r) a \<noteq> None" and "g_persons (gr r) b \<noteq> None"
    and "a \<noteq> b" and "a \<noteq> ''''" and "b \<noteq> ''''" and "Opt_MaxPaths opts \<le> 0"
  defines "B \<equiv> {ss. simple_path (gr r) (Opt_IncludeAffinal opts) a b ss \<and> int (length ss) \<le> maxDepth opts}"
  shows "case FindPaths (rd r) a b opts of
      None \<Rightarrow> False
    | Some (Inl e) \<Rightarrow> e = ErrNoKnownConnection \<and> B = {}
    | Some (Inr ps) \<Rightarrow> set (map Pa_Steps ps) = B \<and> distinct (map Pa_Steps ps) \<and> ps \<noteq> [] \<and>
        ps = map (makePath (rd r)) (map Pa_Steps ps)"
proof -
  let ?xs = "paths (nat (maxDepth opts)) (rd r) opts b a {a}"
  let ?ps = "map (makePath (rd r)) ?xs"
  let ?qs = "sort_key found_key ?ps"
  have xs: "set ?xs = B" "distinct ?xs"
    using paths_simple [OF assms(1,4)] paths_distinct [OF assms(1)] maxDepth_pos [of opts]
    by (auto simp: B_def le_nat_iff)
  have "makePath (rd r) (Pa_Steps p) = p" if "p \<in> set ?qs" for p
    using that by auto
  then have "map (\<lambda>p. makePath (rd r) (Pa_Steps p)) ?qs = ?qs"
    by (rule map_idI)
  then have "?qs = map (makePath (rd r)) (map Pa_Steps ?qs)"
    by (simp only: map_map comp_def)
  moreover have "mset (map Pa_Steps ?qs) = mset ?xs"
    by (simp only: mset_map mset_sort) (simp add: multiset.map_comp comp_def)
  then have "set (map Pa_Steps ?qs) = B" "distinct (map Pa_Steps ?qs)"
    using xs by (metis mset_eq_setD, metis mset_eq_imp_distinct_iff)
  moreover have "?qs = [] \<longleftrightarrow> ?ps = []" by (metis length_0_conv length_sort)
  ultimately show ?thesis
    using FindPaths_eq [OF assms(1-6), of opts] xs(1) assms(7)
    by (cases "?ps = []") (simp_all add: Let_def SliceStable_found)
qed

end

text \<open>Two readers that agree on a set of persons that no edge leaves give the same answer.\<close>

lemma FindPaths_cong:
  assumes "\<And>n. n \<in> D \<Longrightarrow> moves rtx opts n = moves rtx' opts n"
    and "\<And>n m. n \<in> D \<Longrightarrow> m \<in> set (moves rtx opts n) \<Longrightarrow> snd (snd m) \<in> D"
    and "rt_GetPerson rtx = rt_GetPerson rtx'" and "rt_Version rtx = rt_Version rtx'" and "a \<in> D"
  shows "FindPaths rtx a b opts = FindPaths rtx' a b opts"
proof -
  have "paths d rtx opts b n vis = paths d rtx' opts b n vis" if "n \<in> D" for d n vis
    using that
  proof (induction d arbitrary: n vis)
    case (Suc d)
    have "(if snd (snd m) \<in> vis then [] else map ((#) (move_step n m))
          (if snd (snd m) = b then [[]] else paths d rtx opts b (snd (snd m)) (insert (snd (snd m)) vis))) =
        (if snd (snd m) \<in> vis then [] else map ((#) (move_step n m))
          (if snd (snd m) = b then [[]] else paths d rtx' opts b (snd (snd m)) (insert (snd (snd m)) vis)))"
      if "m \<in> set (moves rtx opts n)" for m
      using Suc.IH [OF assms(2) [OF Suc.prems that]] by simp
    then show ?case
      unfolding paths.simps Let_def assms(1) [OF Suc.prems, symmetric]
      by (intro arg_cong [where f = concat] map_cong) simp_all
  qed simp
  moreover have "makePath rtx = makePath rtx'" by (simp add: makePath_def fun_eq_iff assms(4))
  ultimately have "dfs (nat (maxDepth opts) + 1) rtx opts b a \<lparr>D_visited = {a}, D_steps = [], D_found = []\<rparr> =
      dfs (nat (maxDepth opts) + 1) rtx' opts b a \<lparr>D_visited = {a}, D_steps = [], D_found = []\<rparr>"
    using assms(5) by (subst (1 2) dfs_correct) simp_all
  then show ?thesis unfolding FindPaths_def assms(3) by (simp only:)
qed

end
