(* ===== verification/BadgerQuery.thy ===== *)
theory BadgerQuery
  imports BadgerWrites Engine
begin

text \<open>
  Queries on the persistent adapter. The index scans of src/store/badger/readtx.go match every owner
  whose id starts with the one asked for, so the adapter keeps the contract \<open>graph_reader\<close> only
  where ids are \<open>separated\<close>; there its search for paths is exact. The contract itself is discharged
  by \<open>exact_reader\<close>, the reader that drops the foreign matches.
\<close>

section \<open>The exact reader\<close>

definition exact_reader :: "'t Txn \<Rightarrow> 't badgerTx \<Rightarrow> ReadTx" where
  "exact_reader T r = (badger_ReadTx T r)
     \<lparr>rt_IterateChildren := (\<lambda>n. (filter (\<lambda>e. R_from e = n) (fst (badger_IterateChildren T r n)), None)),
      rt_IterateParents := (\<lambda>n. (filter (\<lambda>e. R_to e = n) (fst (badger_IterateParents T r n)), None)),
      rt_IterateMarriages := (\<lambda>n. (remdups (filter (\<lambda>e. R_from e = n \<or> R_to e = n)
         (fst (badger_IterateMarriages T r n))), None))\<rparr>"

lemma exact_reader_get:
  assumes laws: "txn_laws T view" and ok: "kv_ok (view (bt_tx r))"
  defines "G \<equiv> kv_graph (view (bt_tx r))"
  shows "lookup_spec CodePersonNotFound (g_persons G) (rt_GetPerson (exact_reader T r))"
    and "lookup_spec CodeRelationshipNotFound (g_rels G) (rt_GetRelationship (exact_reader T r))"
    and "lookup_spec CodeSourceNotFound (g_sources G) (rt_GetSource (exact_reader T r))"
    and "lookup_spec CodeProposalNotFound (g_props G) (rt_GetProposal (exact_reader T r))"
proof -
  note L = fetch_lookup [OF laws kv_okD(1) [OF ok]] fetch_lookup [OF laws kv_okD(2) [OF ok]]
    fetch_lookup [OF laws kv_okD(3) [OF ok]] fetch_lookup [OF laws kv_okD(4) [OF ok]]
  show "lookup_spec CodePersonNotFound (g_persons G) (rt_GetPerson (exact_reader T r))"
    "lookup_spec CodeRelationshipNotFound (g_rels G) (rt_GetRelationship (exact_reader T r))"
    "lookup_spec CodeSourceNotFound (g_sources G) (rt_GetSource (exact_reader T r))"
    "lookup_spec CodeProposalNotFound (g_props G) (rt_GetProposal (exact_reader T r))"
    by (simp_all add: exact_reader_def badger_ReadTx_def G_def kv_graph_def ID_String_def
        badger_GetPerson_def [abs_def] badger_GetRelationship_def [abs_def]
        badger_GetSource_def [abs_def] badger_GetProposal_def [abs_def] L)
qed

lemma exact_reader_class:
  assumes laws: "txn_laws T view" and ok: "kv_ok (view (bt_tx r))"
  defines "G \<equiv> kv_graph (view (bt_tx r))"
  shows "enumerates (rt_IteratePersons (exact_reader T r)) (ran (g_persons G))"
    and "enumerates (rt_IterateRelationships (exact_reader T r)) (ran (g_rels G))"
    and "enumerates (rt_IterateSources (exact_reader T r)) (ran (g_sources G))"
    and "enumerates (rt_IterateProposals (exact_reader T r)) (ran (g_props G))"
proof -
  note S = scanByPrefix_all [OF laws kv_okD(1) [OF ok, unfolded personKey_def [abs_def]]]
    scanByPrefix_all [OF laws kv_okD(2) [OF ok, unfolded relKey_def [abs_def]]]
    scanByPrefix_all [OF laws kv_okD(3) [OF ok, unfolded sourceKey_def [abs_def]]]
    scanByPrefix_all [OF laws kv_okD(4) [OF ok, unfolded proposalKey_def [abs_def]]]
  show "enumerates (rt_IteratePersons (exact_reader T r)) (ran (g_persons G))"
    "enumerates (rt_IterateRelationships (exact_reader T r)) (ran (g_rels G))"
    "enumerates (rt_IterateSources (exact_reader T r)) (ran (g_sources G))"
    "enumerates (rt_IterateProposals (exact_reader T r)) (ran (g_props G))"
    using S by (simp_all add: exact_reader_def badger_ReadTx_def G_def kv_graph_def personKey_def
        relKey_def sourceKey_def proposalKey_def)
qed

lemma exact_reader_edges:
  assumes laws: "txn_laws T view" and ok: "kv_ok (view (bt_tx r))"
  defines "G \<equiv> kv_graph (view (bt_tx r))"
  shows "enumerates (rt_IterateChildren (exact_reader T r) n) (children_of G n)"
    and "enumerates (rt_IterateParents (exact_reader T r) n) (parents_of G n)"
    and "enumerates (rt_IterateMarriages (exact_reader T r) n) (marriages_of G n)"
proof -
  note S = badger_scans [OF laws ok, of n, folded G_def, unfolded enumerates_def]
  have "{e. (e \<in> ran (g_rels G) \<and> is_pc e \<and> prefix n (R_from e @ sep # R_id e)) \<and> R_from e = n} =
      children_of G n"
    "{e. (e \<in> ran (g_rels G) \<and> is_pc e \<and> prefix n (R_to e @ sep # R_id e)) \<and> R_to e = n} =
      parents_of G n"
    "{e. (e \<in> ran (g_rels G) \<and> R_type e = RelTypeMarriage \<and>
      (prefix n (R_from e @ sep # R_id e) \<or> prefix n (R_to e @ sep # R_id e))) \<and>
      (R_from e = n \<or> R_to e = n)} = marriages_of G n"
    unfolding children_of_def parents_of_def marriages_of_def by (rule Collect_cong, auto)+
  then show "enumerates (rt_IterateChildren (exact_reader T r) n) (children_of G n)"
    "enumerates (rt_IterateParents (exact_reader T r) n) (parents_of G n)"
    "enumerates (rt_IterateMarriages (exact_reader T r) n) (marriages_of G n)"
    unfolding enumerates_def exact_reader_def using S by simp_all
qed

interpretation badger: graph_reader
  "\<lambda>(T, view, r). exact_reader T r" "\<lambda>(T, view, r). kv_graph (view (bt_tx r))"
  "\<lambda>(T, view, r). txn_laws T view \<and> kv_ok (view (bt_tx r))"
proof (unfold_locales, goal_cases)
  case (1 x)
  then show ?case using exact_reader_get(1) [of "fst x" "fst (snd x)" "snd (snd x)"] by (simp add: case_prod_unfold)
next
  case (2 x)
  then show ?case using exact_reader_get(2) [of "fst x" "fst (snd x)" "snd (snd x)"] by (simp add: case_prod_unfold)
next
  case (3 x)
  then show ?case using exact_reader_get(3) [of "fst x" "fst (snd x)" "snd (snd x)"] by (simp add: case_prod_unfold)
next
  case (4 x)
  then show ?case using exact_reader_get(4) [of "fst x" "fst (snd x)" "snd (snd x)"] by (simp add: case_prod_unfold)
next
  case (5 x n)
  then show ?case using exact_reader_edges(1) [of "fst x" "fst (snd x)" "snd (snd x)"] by (simp add: case_prod_unfold)
next
  case (6 x n)
  then show ?case using exact_reader_edges(2) [of "fst x" "fst (snd x)" "snd (snd x)"] by (simp add: case_prod_unfold)
next
  case (7 x n)
  then show ?case using exact_reader_edges(3) [of "fst x" "fst (snd x)" "snd (snd x)"] by (simp add: case_prod_unfold)
next
  case (8 x)
  then show ?case using exact_reader_class(1) [of "fst x" "fst (snd x)" "snd (snd x)"] by (simp add: case_prod_unfold)
next
  case (9 x)
  then show ?case using exact_reader_class(2) [of "fst x" "fst (snd x)" "snd (snd x)"] by (simp add: case_prod_unfold)
next
  case (10 x)
  then show ?case using exact_reader_class(3) [of "fst x" "fst (snd x)" "snd (snd x)"] by (simp add: case_prod_unfold)
next
  case (11 x)
  then show ?case using exact_reader_class(4) [of "fst x" "fst (snd x)" "snd (snd x)"] by (simp add: case_prod_unfold)
qed


section \<open>Separated ids\<close>

text \<open>The persons of the database are separated, and every edge ends in persons.\<close>

definition scannable :: "kv \<Rightarrow> bool" where
  "scannable m \<longleftrightarrow> separated (dom (g_persons (kv_graph m))) \<and>
     (\<forall>e \<in> ran (g_rels (kv_graph m)). {R_from e, R_to e} \<subseteq> dom (g_persons (kv_graph m)))"

lemma scannable_prefix:
  assumes "scannable m" and "e \<in> ran (g_rels (kv_graph m))" and "n \<in> dom (g_persons (kv_graph m))"
  shows "prefix n (R_from e @ sep # rid) \<longleftrightarrow> R_from e = n"
    and "prefix n (R_to e @ sep # rid) \<longleftrightarrow> R_to e = n"
proof -
  have sep: "separated (dom (g_persons (kv_graph m)))"
    and ends: "R_from e \<in> dom (g_persons (kv_graph m))" "R_to e \<in> dom (g_persons (kv_graph m))"
    using assms(1,2) by (auto simp: scannable_def)
  show "prefix n (R_from e @ sep # rid) \<longleftrightarrow> R_from e = n"
    by (subst separated_scan [OF sep assms(3) ends(1)]) (rule eq_commute)
  show "prefix n (R_to e @ sep # rid) \<longleftrightarrow> R_to e = n"
    by (subst separated_scan [OF sep assms(3) ends(2)]) (rule eq_commute)
qed

lemma badger_iterators:
  assumes laws: "txn_laws T view" and ok: "kv_ok (view (bt_tx r))" and sc: "scannable (view (bt_tx r))"
    and n: "n \<in> dom (g_persons (kv_graph (view (bt_tx r))))"
  defines "G \<equiv> kv_graph (view (bt_tx r))"
  shows "enumerates (badger_IterateChildren T r n) (children_of G n)"
    and "enumerates (badger_IterateParents T r n) (parents_of G n)"
    and "enumerates (badger_IterateMarriages T r n) (marriages_of G n)"
proof -
  note P = scannable_prefix [OF sc _ n, folded G_def]
  have eq: "{e \<in> ran (g_rels G). is_pc e \<and> prefix n (R_from e @ sep # R_id e)} = children_of G n"
    "{e \<in> ran (g_rels G). is_pc e \<and> prefix n (R_to e @ sep # R_id e)} = parents_of G n"
    "{e \<in> ran (g_rels G). R_type e = RelTypeMarriage \<and>
       (prefix n (R_from e @ sep # R_id e) \<or> prefix n (R_to e @ sep # R_id e))} = marriages_of G n"
    by (simp_all add: children_of_def parents_of_def marriages_of_def P cong: conj_cong)
  note scans = badger_scans [OF laws ok, of n, folded G_def, unfolded eq]
  show "enumerates (badger_IterateChildren T r n) (children_of G n)"
    "enumerates (badger_IterateParents T r n) (parents_of G n)"
    by (rule scans)+
  have "distinct (fst (badger_IterateMarriages T r n))"
  proof -
    have "k = k'" if e: "e \<in> ran (g_rels G)" and k: "k \<in> rel_index e" "k' \<in> rel_index e"
      "prefix (marriagePrefix n) k" "prefix (marriagePrefix n) k'" for e k k'
    proof -
      have "R_from e \<noteq> R_to e" using rels_ok_ran [OF kv_rels_ok [OF ok]] e by (simp add: G_def)
      with k P [OF e, of "R_id e"] show ?thesis by (auto simp: rel_index_def split: if_splits)
    qed
    then show ?thesis
      using scanRelIndex_all(3) [OF laws ok, of "marriagePrefix n" n]
      by (simp add: badger_IterateMarriages_def ID_String_def G_def)
  qed
  then show "enumerates (badger_IterateMarriages T r n) (marriages_of G n)"
    using scans(3) by (simp add: enumerates_def)
qed

end
