(* ===== verification/BadgerStore.thy ===== *)
theory BadgerStore
  imports BadgerWrites
begin

text \<open>
  The persistent \<open>Store\<close> (src/store/badger/badger.go): opening, the version counter, snapshots and
  \<open>Update\<close>. The database library is again a parameter, the record \<open>DB\<close>; \<open>db_laws\<close> is what it
  documents, against the map of the committed keys: \<open>View\<close> and \<open>NewTransaction\<close> show it, and
  \<open>Update\<close> runs its callback on it and either commits all of the writes or none.
\<close>

section \<open>The library's database\<close>

record ('d, 't, 'v, 'o) DB =
  db_NewTransaction :: "bool \<Rightarrow> 'd \<Rightarrow> 't"
  db_View :: "('t \<Rightarrow> error + 'v) \<Rightarrow> 'd \<Rightarrow> error + 'v"
  db_Update :: "('t \<Rightarrow> (error, 't \<times> 'o) partial_res) \<Rightarrow> 'd \<Rightarrow> ((error + 'o) \<times> 'd) option"

definition db_laws :: "('d, 't, 'v, 'o) DB \<Rightarrow> ('t \<Rightarrow> kv) \<Rightarrow> ('d \<Rightarrow> kv) \<Rightarrow> bool" where
  "db_laws D view contents \<longleftrightarrow>
     (\<forall>u d. view (db_NewTransaction D u d) = contents d) \<and>
     (\<forall>f d. db_View D f d = f (db_NewTransaction D False d)) \<and>
     (\<forall>f d. case f (db_NewTransaction D True d) of
         None \<Rightarrow> db_Update D f d = None
       | Some (Inl e) \<Rightarrow> \<exists>d'. db_Update D f d = Some (Inl e, d') \<and> contents d' = contents d
       | Some (Inr (t, out)) \<Rightarrow>
           (\<exists>d'. db_Update D f d = Some (Inr out, d') \<and> contents d' = view t) \<or>
           (\<exists>e d'. db_Update D f d = Some (Inl e, d') \<and> contents d' = contents d))"

text \<open>A database on which no commit fails (there is no conflict and no I/O error).\<close>

definition db_commits :: "('d, 't, 'v, 'o) DB \<Rightarrow> bool" where
  "db_commits D \<longleftrightarrow>
     (\<forall>f d t out. f (db_NewTransaction D True d) = Some (Inr (t, out)) \<longrightarrow>
        (\<exists>d'. db_Update D f d = Some (Inr out, d')))"

lemma db_commitsD:
  "db_commits D \<Longrightarrow> f (db_NewTransaction D True d) = Some (Inr (t, out)) \<Longrightarrow>
   \<exists>d'. db_Update D f d = Some (Inr out, d')"
  by (simp add: db_commits_def)

text \<open>The library's options and its \<open>Open\<close>; \<open>silentLogger\<close> is the adapter's own logger.\<close>

datatype 'l logger = silentLogger | Logger 'l

record ('b, 'l, 'd) Lib =
  lib_DefaultOptions :: "string \<Rightarrow> 'b"
  lib_WithInMemory :: "bool \<Rightarrow> 'b \<Rightarrow> 'b"
  lib_SetLogger :: "'l logger \<Rightarrow> 'b \<Rightarrow> 'b"
  lib_Open :: "'b \<Rightarrow> error + 'd"


section \<open>The store\<close>

definition WithLogger :: "('b, 'l, 'd) Lib \<Rightarrow> 'l logger \<Rightarrow> 'b \<Rightarrow> 'b" where
  "WithLogger L l = lib_SetLogger L l"

definition Silent :: "('b, 'l, 'd) Lib \<Rightarrow> 'b \<Rightarrow> 'b" where
  "Silent L = WithLogger L silentLogger"

definition initIfEmpty ::
    "('d, 't, 'v, unit) DB \<Rightarrow> 't Txn \<Rightarrow> 'd \<Rightarrow> ((error + unit) \<times> 'd) option" where
  "initIfEmpty D T =
     db_Update D (\<lambda>tx. Some
       (case tx_Get T metaVersionKey tx of
          Inr _ \<Rightarrow> Inr (tx, ())
        | Inl err \<Rightarrow>
            if err \<noteq> tx_ErrKeyNotFound T then Inl err
            else bindE (tx_Set T metaVersionKey (PutUint64 0) tx) (\<lambda>tx. Inr (tx, ()))))"

definition badger_Open ::
    "('b, 'l, 'd) Lib \<Rightarrow> ('d, 't, 'v, unit) DB \<Rightarrow> 't Txn \<Rightarrow> string \<Rightarrow> ('b \<Rightarrow> 'b) list \<Rightarrow>
     (error, 'd) partial_res" where
  "badger_Open L D T path opts =
     (let bo = (if path = '''' then lib_WithInMemory L True (lib_DefaultOptions L '''')
                else lib_DefaultOptions L path);
          bo = lib_SetLogger L silentLogger bo;
          bo = fold (\<lambda>f b. f b) opts bo
      in case lib_Open L bo of
           Inl err \<Rightarrow> Some (Inl (Errorf_wrap ''badger: open: '' err))
         | Inr db \<Rightarrow>
             (case initIfEmpty D T db of
                None \<Rightarrow> None
              | Some (Inl err, _) \<Rightarrow> Some (Inl err)
              | Some (Inr _, db') \<Rightarrow> Some (Inr db')))"

text \<open>The callback of \<open>item.Value\<close>, in \<open>CurrentVersion\<close> and in \<open>readVersion\<close>.\<close>

definition version_value :: "string \<Rightarrow> error + Version" where
  "version_value buf =
     (if length buf \<noteq> 8
      then Inl (Errorf (''badger: corrupt version key (len='' @ show_int (int (length buf)) @ '')''))
      else Inr (Uint64 buf))"

definition badger_CurrentVersion :: "('d, 't, Version, 'o) DB \<Rightarrow> 't Txn \<Rightarrow> 'd \<Rightarrow> error + Version" where
  "badger_CurrentVersion D T =
     db_View D (\<lambda>tx. bindE (tx_Get T metaVersionKey tx) (\<lambda>item. bindE item version_value))"

definition readVersion :: "'t Txn \<Rightarrow> 't \<Rightarrow> error + Version" where
  "readVersion T tx =
     (case tx_Get T metaVersionKey tx of
        Inl err \<Rightarrow> Inl (Errorf_wrap ''badger: read version: '' err)
      | Inr item \<Rightarrow> bindE item version_value)"

definition badger_View :: "('d, 't, 'v, 'o) DB \<Rightarrow> 't Txn \<Rightarrow> 'd \<Rightarrow> error + 't badgerTx" where
  "badger_View D T d =
     (let tx = db_NewTransaction D False d in
      bindE (readVersion T tx) (\<lambda>v. Inr \<lparr>bt_tx = tx, bt_version = v\<rparr>))"

definition badger_ViewAt ::
    "('d, 't, Version, 'o) DB \<Rightarrow> 't Txn \<Rightarrow> Version \<Rightarrow> 'd \<Rightarrow> error + 't badgerTx" where
  "badger_ViewAt D T want d =
     bindE (badger_CurrentVersion D T d) (\<lambda>cur.
       if want \<noteq> cur
       then Inl (New CodeVersionNotFound
              (''badger adapter only retains current version (have '' @ show_int (uint cur)
               @ '', want '' @ show_int (uint want) @ '')''))
       else badger_View D T d)"

definition badger_Update ::
    "('d, 't, 'v, Version \<times> 'o) DB \<Rightarrow> 't Txn \<Rightarrow>
     ('t badgerTx \<Rightarrow> (error, 't badgerTx \<times> 'o) partial_res) \<Rightarrow> 'd \<Rightarrow>
     ((error + Version \<times> 'o) \<times> 'd) option" where
  "badger_Update D T f =
     db_Update D (\<lambda>btx.
       bindP (Some (readVersion T btx)) (\<lambda>curVer.
       bindP (f \<lparr>bt_tx = btx, bt_version = curVer\<rparr>) (\<lambda>(w, out).
         let newVer = curVer + 1 in
         Some (bindE (tx_Set T metaVersionKey (PutUint64 newVer) (bt_tx w))
           (\<lambda>btx. Inr (btx, (newVer, out)))))))"

text \<open>The handle is nil after \<open>Close\<close>; closing again does nothing.\<close>

definition badger_Close :: "('d \<Rightarrow> error option) \<Rightarrow> 'd option \<Rightarrow> error option \<times> 'd option" where
  "badger_Close close db =
     (case db of None \<Rightarrow> (None, None) | Some d \<Rightarrow> (close d, None))"

text \<open>\<open>Close\<close> of a snapshot gives the library's transaction back (\<open>discard\<close>), once.\<close>

definition badger_readTx_Close :: "('t \<Rightarrow> 'd \<Rightarrow> 'd) \<Rightarrow> 't option \<Rightarrow> 'd \<Rightarrow> 't option \<times> 'd" where
  "badger_readTx_Close discard tx d =
     (case tx of None \<Rightarrow> (None, d) | Some t \<Rightarrow> (None, discard t d))"

lemma badger_readTx_Close_once:
  "badger_readTx_Close discard tx d = (tx', d') \<Longrightarrow> badger_readTx_Close discard tx' d' = (tx', d')"
  by (auto simp: badger_readTx_Close_def split: option.splits)


section \<open>The version counter\<close>

definition holds_version :: "kv \<Rightarrow> Version \<Rightarrow> bool" where
  "holds_version m v \<longleftrightarrow> (\<exists>buf. m metaVersionKey = Some buf \<and> version_value buf = Inr v)"

lemma version_value_Put [simp]: "version_value (PutUint64 v) = Inr v"
  by (simp add: version_value_def)

lemma holds_version_put [simp]: "holds_version (m(metaVersionKey \<mapsto> PutUint64 v)) u \<longleftrightarrow> u = v"
  by (auto simp: holds_version_def)

lemma readVersion_eq:
  assumes "txn_laws T view" and "holds_version (view tx) v"
  shows "readVersion T tx = Inr v"
  using assms(2) by (auto simp: readVersion_def tx_Get_eq [OF assms(1)] holds_version_def)

text \<open>What a store with version \<open>v\<close> and keys \<open>m\<close> answers.\<close>

definition shows_version ::
    "('d, 't, Version, 'o) DB \<Rightarrow> 't Txn \<Rightarrow> ('t \<Rightarrow> kv) \<Rightarrow> 'd \<Rightarrow> kv \<Rightarrow> Version \<Rightarrow> bool" where
  "shows_version D T view d m v \<longleftrightarrow>
     badger_CurrentVersion D T d = Inr v \<and>
     (\<exists>r. badger_View D T d = Inr r \<and> view (bt_tx r) = m \<and> bt_version r = v) \<and>
     (\<forall>u. case badger_ViewAt D T u d of
         Inr r \<Rightarrow> u = v \<and> view (bt_tx r) = m \<and> bt_version r = v
       | Inl e \<Rightarrow> u \<noteq> v \<and> HasCode e CodeVersionNotFound)"

lemma shows_contents:
  assumes laws: "txn_laws T view" "db_laws D view contents" and v: "holds_version (contents d) v"
  shows "shows_version D T view d (contents d) v"
proof -
  have view: "view (db_NewTransaction D u d) = contents d" for u
    using laws(2) by (simp add: db_laws_def)
  have "db_View D f d = f (db_NewTransaction D False d)" for f
    using laws(2) by (simp add: db_laws_def)
  then have "badger_CurrentVersion D T d = Inr v"
    using v view [of False]
    by (auto simp: badger_CurrentVersion_def tx_Get_eq [OF laws(1)] holds_version_def)
  moreover have "badger_View D T d = Inr \<lparr>bt_tx = db_NewTransaction D False d, bt_version = v\<rparr>"
    using readVersion_eq [OF laws(1), of "db_NewTransaction D False d" v] v view [of False]
    by (simp add: badger_View_def)
  ultimately show ?thesis using view [of False] by (simp add: shows_version_def badger_ViewAt_def)
qed

text \<open>The callback that \<open>Update\<close> hands to the library.\<close>

lemma badger_Update_run:
  fixes f :: "'t badgerTx \<Rightarrow> (error, 't badgerTx \<times> 'o) partial_res"
  assumes laws: "txn_laws T view" "db_laws D view contents" and v: "holds_version (contents d) v"
  defines "t \<equiv> db_NewTransaction D True d"
  defines "run \<equiv> case f \<lparr>bt_tx = t, bt_version = v\<rparr> of None \<Rightarrow> None | Some (Inl e) \<Rightarrow> Some (Inl e)
    | Some (Inr (w, out)) \<Rightarrow> Some (bindE (tx_Set T metaVersionKey (PutUint64 (v + 1)) (bt_tx w))
        (\<lambda>btx. Inr (btx, (v + 1, out))))"
  shows "case run of
      None \<Rightarrow> badger_Update D T f d = None
    | Some (Inl e) \<Rightarrow> \<exists>d'. badger_Update D T f d = Some (Inl e, d') \<and> contents d' = contents d
    | Some (Inr (t', out)) \<Rightarrow>
        (\<exists>d'. badger_Update D T f d = Some (Inr out, d') \<and> contents d' = view t') \<or>
        (\<exists>e d'. badger_Update D T f d = Some (Inl e, d') \<and> contents d' = contents d)"
    and "db_commits D \<Longrightarrow> run = Some (Inr (t', out)) \<Longrightarrow> \<exists>d'. badger_Update D T f d = Some (Inr out, d')"
proof -
  let ?f = "\<lambda>btx. bindP (Some (readVersion T btx)) (\<lambda>curVer.
       bindP (f \<lparr>bt_tx = btx, bt_version = curVer\<rparr>) (\<lambda>(w, out).
         let newVer = curVer + 1 in
         Some (bindE (tx_Set T metaVersionKey (PutUint64 newVer) (bt_tx w))
           (\<lambda>btx. Inr (btx, (newVer, out))))))"
  have "view t = contents d" using laws(2) by (simp add: db_laws_def t_def)
  with readVersion_eq [OF laws(1), of t v] v have "readVersion T t = Inr v" by simp
  then have run: "?f t = run"
    by (simp add: run_def bindP_def Let_def split: option.split sum.split)
  have upd: "badger_Update D T f = db_Update D ?f" by (simp add: badger_Update_def)
  have "case ?f t of
      None \<Rightarrow> db_Update D ?f d = None
    | Some (Inl e) \<Rightarrow> \<exists>d'. db_Update D ?f d = Some (Inl e, d') \<and> contents d' = contents d
    | Some (Inr (t', out)) \<Rightarrow>
        (\<exists>d'. db_Update D ?f d = Some (Inr out, d') \<and> contents d' = view t') \<or>
        (\<exists>e d'. db_Update D ?f d = Some (Inl e, d') \<and> contents d' = contents d)"
    using laws(2) unfolding db_laws_def t_def by blast
  then show "case run of
      None \<Rightarrow> badger_Update D T f d = None
    | Some (Inl e) \<Rightarrow> \<exists>d'. badger_Update D T f d = Some (Inl e, d') \<and> contents d' = contents d
    | Some (Inr (t', out)) \<Rightarrow>
        (\<exists>d'. badger_Update D T f d = Some (Inr out, d') \<and> contents d' = view t') \<or>
        (\<exists>e d'. badger_Update D T f d = Some (Inl e, d') \<and> contents d' = contents d)"
    unfolding run upd .
  assume c: "db_commits D" and "run = Some (Inr (t', out))"
  then have "?f (db_NewTransaction D True d) = Some (Inr (t', out))" using run by (simp only: t_def)
  with c show "\<exists>d'. badger_Update D T f d = Some (Inr out, d')" unfolding upd by (rule db_commitsD)
qed

text \<open>A store that opens holds a version: 0 when the database was new, the one it had otherwise.\<close>

lemma badger_Open_version:
  assumes laws: "txn_laws T view" "db_laws D view contents"
    and db: "lib_Open L (fold (\<lambda>f b. f b) opts (lib_SetLogger L silentLogger
      (if path = '''' then lib_WithInMemory L True (lib_DefaultOptions L '''')
       else lib_DefaultOptions L path))) = Inr db"
    and o': "badger_Open L D T path opts = Some (Inr d)"
  shows "contents d = (if contents db metaVersionKey = None
    then (contents db)(metaVersionKey \<mapsto> PutUint64 0) else contents db)"
proof -
  define t where "t = db_NewTransaction D True db"
  let ?init = "\<lambda>tx. Some (case tx_Get T metaVersionKey tx of
          Inr _ \<Rightarrow> Inr (tx, ())
        | Inl err \<Rightarrow>
            if err \<noteq> tx_ErrKeyNotFound T then Inl err
            else bindE (tx_Set T metaVersionKey (PutUint64 0) tx) (\<lambda>tx. Inr (tx, ())))"
  have view: "view t = contents db" using laws(2) by (simp add: db_laws_def t_def)
  from o' obtain u where d: "db_Update D ?init db = Some (Inr u, d)"
    by (auto simp: badger_Open_def db initIfEmpty_def split: option.splits sum.splits)
  have "case ?init t of
         None \<Rightarrow> db_Update D ?init db = None
       | Some (Inl e) \<Rightarrow> \<exists>d'. db_Update D ?init db = Some (Inl e, d') \<and> contents d' = contents db
       | Some (Inr (t', out)) \<Rightarrow>
           (\<exists>d'. db_Update D ?init db = Some (Inr out, d') \<and> contents d' = view t') \<or>
           (\<exists>e d'. db_Update D ?init db = Some (Inl e, d') \<and> contents d' = contents db)"
    using laws(2) unfolding db_laws_def t_def by blast
  then obtain t' where t': "?init t = Some (Inr (t', ()))" "contents d = view t'"
    using d by (auto split: sum.splits)
  show ?thesis
  proof (cases "contents db metaVersionKey")
    case None
    then have "tx_Set T metaVersionKey (PutUint64 0) t = Inr t'"
      using t'(1) by (auto simp: tx_Get_eq [OF laws(1)] view bindE_eq_Inr)
    then have "view t' = (view t)(metaVersionKey \<mapsto> PutUint64 0)"
      using laws(1) unfolding txn_laws_def by blast
    with None show ?thesis by (simp add: t'(2) view)
  next
    case (Some buf)
    with t' show ?thesis using view by (simp add: tx_Get_eq [OF laws(1)])
  qed
qed

end
