(* ===== verification/BadgerProps.thy ===== *)
theory BadgerProps
  imports BadgerQuery BadgerStore
begin

text \<open>
  The properties of the persistent adapter, and a small database over an association list on which
  their hypotheses hold.
\<close>

section \<open>A database over an association list\<close>

definition alist_txn :: "(string \<times> string) list Txn" where
  "alist_txn =
     \<lparr>tx_ErrKeyNotFound = ForeignError ''Key not found'',
      tx_Get = (\<lambda>k t. case map_of t k of
         None \<Rightarrow> Inl (ForeignError ''Key not found'') | Some v \<Rightarrow> Inr (Inr v)),
      tx_Set = (\<lambda>k v t. Inr ((k, v) # t)),
      tx_Delete = (\<lambda>k t. Inr (filter (\<lambda>kv. fst kv \<noteq> k) t)),
      tx_Scan = (\<lambda>p t. map (\<lambda>k. (k, Inr (the (map_of t k))))
         (filter (prefix p) (remdups (map fst t))))\<rparr>"

lemma map_of_filter_key: "map_of (filter (\<lambda>kv. fst kv \<noteq> k) t) = (map_of t)(k := None)"
  by (induction t) (auto simp: fun_eq_iff)

lemma alist_txn_laws: "txn_laws alist_txn map_of"
proof -
  have "\<exists>ks. tx_Scan alist_txn p t = map (\<lambda>k. (k, Inr (the (map_of t k)))) ks \<and> distinct ks \<and>
      set ks = {k \<in> dom (map_of t). prefix p k}" for p t
    by (rule exI [of _ "filter (prefix p) (remdups (map fst t))"])
      (auto simp: alist_txn_def dom_map_of_conv_image_fst)
  then show ?thesis
    by (simp add: txn_laws_def) (auto simp: alist_txn_def map_of_filter_key split: option.split)
qed

lemma alist_txn_total: "txn_total alist_txn"
  by (simp add: txn_total_def alist_txn_def)

definition alist_db :: "((string \<times> string) list, (string \<times> string) list, 'v, 'o) DB" where
  "alist_db =
     \<lparr>db_NewTransaction = (\<lambda>_ d. d),
      db_View = (\<lambda>f d. f d),
      db_Update = (\<lambda>f d. case f d of
         None \<Rightarrow> None
       | Some (Inl e) \<Rightarrow> Some (Inl e, d)
       | Some (Inr (t, out)) \<Rightarrow> Some (Inr out, t))\<rparr>"

lemma alist_db_laws: "db_laws alist_db map_of map_of" "db_commits alist_db"
  by (auto simp: db_laws_def db_commits_def alist_db_def split: option.split sum.split prod.split)

text \<open>The sample: the persons \<open>p1\<close>, \<open>p10\<close> and \<open>c\<close>, then an edge \<open>e\<close> from \<open>p10\<close> to \<open>c\<close>.\<close>

definition named :: "ID \<Rightarrow> Person" where
  "named i = sample_person\<lparr>P_id := i\<rparr>"

definition stored_edge :: "ID \<Rightarrow> ID \<Rightarrow> ID \<Rightarrow> Relationship" where
  "stored_edge i a b = gap2_edge\<lparr>R_id := i, R_from := a, R_to := b\<rparr>"

definition new_tx :: "(string \<times> string) list badgerTx" where
  "new_tx = \<lparr>bt_tx = [(metaVersionKey, PutUint64 0)], bt_version = 0\<rparr>"

lemma named_ok: "id_stable i \<Longrightarrow> Person_wf (named i) \<and> Person_stable (named i)"
  using sample_person_ok by (simp add: named_def Person_wf_def Person_stable_def id_stable_def)

lemma stored_edge_ok:
  "id_stable i \<Longrightarrow> id_stable a \<Longrightarrow> id_stable b \<Longrightarrow> a \<noteq> b \<Longrightarrow>
   Relationship_wf (stored_edge i a b) \<and> Relationship_stable (stored_edge i a b)"
  using gap2_edge_wf gap2_edge_stable
  by (auto simp: stored_edge_def Relationship_wf_def edge_ok_def Relationship_stable_def id_stable_def)

lemma sample_ids: "id_stable ''p1''" "id_stable ''p10''" "id_stable ''c''" "id_stable ''e''" "id_stable ''f''"
  by (simp_all add: id_stable_def sample_simps)

lemma new_tx_ok: "kv_ok (map_of (bt_tx new_tx))" "kv_graph (map_of (bt_tx new_tx)) = empty_graph"
proof -
  have eq: "map_of (bt_tx new_tx) = Map.empty(metaVersionKey \<mapsto> PutUint64 0)"
    by (simp add: new_tx_def)
  have none: "kv_graph Map.empty = empty_graph"
    by (simp add: kv_graph_def empty_graph_def fun_eq_iff)
  have "kv_ok Map.empty"
    by (simp add: kv_ok_def stored_def none rels_index_def) (simp add: empty_graph_def)
  then show "kv_ok (map_of (bt_tx new_tx))" "kv_graph (map_of (bt_tx new_tx)) = empty_graph"
    unfolding eq by (simp_all add: kv_ok_put(6) none)
qed

text \<open>What a run on the sample database keeps.\<close>

definition family_at :: "Graph \<Rightarrow> (string \<times> string) list badgerTx \<Rightarrow> bool" where
  "family_at G w \<longleftrightarrow> kv_ok (map_of (bt_tx w)) \<and> kv_graph (map_of (bt_tx w)) = G \<and> bt_version w = 0"

lemma acts_step: "acts alist_txn map_of w res G' \<Longrightarrow> family_at G w \<Longrightarrow> \<exists>w'. res = Inr w' \<and> family_at G' w'"
  using alist_txn_total by (auto simp: acts_def family_at_def)

lemma put_named:
  assumes "family_at G w" and "id_stable i"
  shows "\<exists>w'. badger_PutPerson alist_txn (named i) w = Inr w' \<and>
    family_at (G\<lparr>g_persons := (g_persons G)(i \<mapsto> named i)\<rparr>) w'"
  using put_person_acts [OF alist_txn_laws, of w "named i"] named_ok [OF assms(2)] assms(1)
  by (intro acts_step [OF _ assms(1)]) (simp add: family_at_def named_def)

lemma new_tx_at: "family_at empty_graph new_tx"
  using new_tx_ok by (simp add: family_at_def) (simp add: new_tx_def)

definition persons_graph :: Graph where
  "persons_graph = empty_graph
     \<lparr>g_persons := [''p1'' \<mapsto> named ''p1'', ''p10'' \<mapsto> named ''p10'', ''c'' \<mapsto> named ''c'']\<rparr>"

definition family_graph :: Graph where
  "family_graph = persons_graph\<lparr>g_rels := [''e'' \<mapsto> stored_edge ''e'' ''p10'' ''c'']\<rparr>"

lemma persons_run:
  "\<exists>w. bindE (badger_PutPerson alist_txn (named ''p1'') new_tx) (\<lambda>w.
     bindE (badger_PutPerson alist_txn (named ''p10'') w) (\<lambda>w.
       badger_PutPerson alist_txn (named ''c'') w)) = Inr w \<and> family_at persons_graph w"
proof -
  obtain w1 where 1: "badger_PutPerson alist_txn (named ''p1'') new_tx = Inr w1"
    "family_at (empty_graph\<lparr>g_persons := [''p1'' \<mapsto> named ''p1'']\<rparr>) w1"
    using put_named [OF new_tx_at sample_ids(1)] by (auto simp: empty_graph_def)
  obtain w2 where 2: "badger_PutPerson alist_txn (named ''p10'') w1 = Inr w2"
    "family_at (empty_graph\<lparr>g_persons := [''p1'' \<mapsto> named ''p1'', ''p10'' \<mapsto> named ''p10'']\<rparr>) w2"
    using put_named [OF 1(2) sample_ids(2)] by (auto simp: empty_graph_def)
  obtain w3 where 3: "badger_PutPerson alist_txn (named ''c'') w2 = Inr w3" "family_at persons_graph w3"
    using put_named [OF 2(2) sample_ids(3)] by (auto simp: empty_graph_def persons_graph_def)
  from 1(1) 2(1) 3 show ?thesis by simp
qed

definition persons_tx :: "(string \<times> string) list badgerTx" where
  "persons_tx = (case bindE (badger_PutPerson alist_txn (named ''p1'') new_tx) (\<lambda>w.
     bindE (badger_PutPerson alist_txn (named ''p10'') w) (\<lambda>w.
       badger_PutPerson alist_txn (named ''c'') w)) of Inr w \<Rightarrow> w | Inl _ \<Rightarrow> new_tx)"

lemma persons_tx_at: "family_at persons_graph persons_tx"
  using persons_run by (auto simp: persons_tx_def)

lemma edge_e_ok:
  "Relationship_wf (stored_edge ''e'' ''p10'' ''c'')" "Relationship_stable (stored_edge ''e'' ''p10'' ''c'')"
  "sep \<notin> set (R_id (stored_edge ''e'' ''p10'' ''c''))"
  using stored_edge_ok [OF sample_ids(4,2,3)] by (simp_all add: stored_edge_def sep_def)

lemma family_run:
  "\<exists>w. badger_PutRelationship alist_txn (stored_edge ''e'' ''p10'' ''c'') persons_tx = Inr w \<and>
     family_at family_graph w"
  using persons_tx_at
    put_relationship_acts [OF alist_txn_laws, of persons_tx "stored_edge ''e'' ''p10'' ''c''"] edge_e_ok
  by (intro acts_step [OF _ persons_tx_at])
    (simp add: family_at_def family_graph_def persons_graph_def empty_graph_def stored_edge_def)

definition family :: "(string \<times> string) list badgerTx" where
  "family = (case badger_PutRelationship alist_txn (stored_edge ''e'' ''p10'' ''c'') persons_tx of
     Inr w \<Rightarrow> w | Inl _ \<Rightarrow> new_tx)"

lemma family_ok:
  "kv_ok (map_of (bt_tx family))" "kv_graph (map_of (bt_tx family)) = family_graph"
  using family_run by (auto simp: family_def family_at_def)



section \<open>Writes\<close>



lemma audited_intent: "audited q \<Longrightarrow> intent_ok q"
  by (simp add: audited_def)

text \<open>
  The other writes refine their operations on the graph. On a good database, putting a person,
  a source or a proposal that its codec keeps, and deleting a known person or source, ends in a
  good database with exactly that change, and returns when no write of the library fails. Deleting
  an unknown one fails with its NOT_FOUND code, and a proposal in a terminal state is not replaced
  by one in another state.
\<close>

theorem badger_entity_writes:
  assumes "txn_laws T view" and "kv_ok (view (bt_tx w))"
  shows "let G = kv_graph (view (bt_tx w)) in
    (Person_wf p \<and> Person_stable p \<longrightarrow>
       acts T view w (badger_PutPerson T p w) (G\<lparr>g_persons := (g_persons G)(P_id p \<mapsto> p)\<rparr>)) \<and>
    (if g_persons G i = None
     then \<exists>e. badger_DeletePerson T i w = Inl e \<and> HasCode e CodePersonNotFound
     else acts T view w (badger_DeletePerson T i w) (G\<lparr>g_persons := (g_persons G)(i := None)\<rparr>)) \<and>
    (Source_wf s \<and> Source_stable s \<longrightarrow>
       acts T view w (badger_PutSource T s w) (G\<lparr>g_sources := (g_sources G)(S_id s \<mapsto> s)\<rparr>)) \<and>
    (if g_sources G i = None
     then \<exists>e. badger_DeleteSource T i w = Inl e \<and> HasCode e CodeSourceNotFound
     else acts T view w (badger_DeleteSource T i w) (G\<lparr>g_sources := (g_sources G)(i := None)\<rparr>)) \<and>
    (audited q \<and> Proposal_stable q \<longrightarrow>
       (if \<exists>old. g_props G (Q_id q) = Some old \<and> IsTerminal (Q_state old) \<and> Q_state old \<noteq> Q_state q
        then \<exists>e. badger_PutProposal T q w = Inl e \<and> HasCode e CodeImmutableTerminalProposal
        else acts T view w (badger_PutProposal T q w) (G\<lparr>g_props := (g_props G)(Q_id q \<mapsto> q)\<rparr>)))"
  unfolding Let_def
  by (intro conjI impI; (elim conjE)?;
      rule put_person_acts [OF assms] put_source_acts [OF assms] delete_person_acts [OF assms]
        delete_source_acts [OF assms] put_proposal_acts [OF assms audited_intent audited_replayed];
      assumption)

theorem badger_entity_writes_witness:
  "(\<exists>w. badger_PutPerson alist_txn (named ''p1'') new_tx = Inr w \<and> kv_ok (map_of (bt_tx w))) \<and>
   (\<exists>w. badger_PutSource alist_txn sample_source new_tx = Inr w \<and> kv_ok (map_of (bt_tx w))) \<and>
   (\<exists>w. badger_PutProposal alist_txn sample_review new_tx = Inr w \<and> kv_ok (map_of (bt_tx w))) \<and>
   (\<exists>e. badger_DeletePerson alist_txn ''c'' new_tx = Inl e \<and> HasCode e CodePersonNotFound)"
  using badger_entity_writes [OF alist_txn_laws new_tx_ok(1), of "named ''p1''" "''c''" sample_source sample_review]
    named_ok [OF sample_ids(1)] sample_source_ok lifecycle_audited [OF sample_review_lifecycle(1)]
    sample_review_stable alist_txn_total
  by (simp add: new_tx_ok(2) Let_def acts_def empty_graph_def) blast


section \<open>Index scans\<close>

text \<open>
  What the index scans offer. On a good database \<open>IterateChildren\<close> offers exactly the
  parent-child edges whose parent id, followed by the separator and the edge id, starts with the id
  asked for; \<open>IterateParents\<close> and \<open>IterateMarriages\<close> likewise. When the ids of the persons hold no
  separator and none is the start of another, these are exactly the edges of the person, each once.
\<close>

theorem badger_scan_prefix:
  assumes "txn_laws T view" and "kv_ok (view (bt_tx r))"
  shows "let G = kv_graph (view (bt_tx r)); E = ran (g_rels G) in
    enumerates (badger_IterateChildren T r n) {e \<in> E. is_pc e \<and> prefix n (R_from e @ sep # R_id e)} \<and>
    enumerates (badger_IterateParents T r n) {e \<in> E. is_pc e \<and> prefix n (R_to e @ sep # R_id e)} \<and>
    set (fst (badger_IterateMarriages T r n)) = {e \<in> E. R_type e = RelTypeMarriage \<and>
      (prefix n (R_from e @ sep # R_id e) \<or> prefix n (R_to e @ sep # R_id e))} \<and>
    (scannable (view (bt_tx r)) \<and> n \<in> dom (g_persons G) \<longrightarrow>
       enumerates (badger_IterateChildren T r n) (children_of G n) \<and>
       enumerates (badger_IterateParents T r n) (parents_of G n) \<and>
       enumerates (badger_IterateMarriages T r n) (marriages_of G n))"
  unfolding Let_def
  using badger_scans [OF assms] badger_iterators [OF assms] by (intro conjI impI) simp_all

text \<open>In the sample database, \<open>p1\<close> has a child in the index that it does not have in the graph.\<close>

theorem badger_scan_prefix_witness:
  "stored_edge ''e'' ''p10'' ''c'' \<in> set (fst (badger_IterateChildren alist_txn family ''p1'')) \<and>
   children_of family_graph ''p1'' = {}"
proof -
  have edges: "ran (g_rels family_graph) = {stored_edge ''e'' ''p10'' ''c''}"
    by (simp add: family_graph_def)
  have "set (fst (badger_IterateChildren alist_txn family ''p1'')) =
      {e \<in> ran (g_rels family_graph). is_pc e \<and> prefix ''p1'' (R_from e @ sep # R_id e)}"
    using badger_scan_prefix [OF alist_txn_laws family_ok(1), of "''p1''"]
    by (simp add: Let_def family_ok(2) enumerates_def)
  then show ?thesis
    by (simp add: edges children_of_def) (simp add: stored_edge_def gap2_edge_def is_pc_def)
qed


section \<open>Paths\<close>

lemma filter_all: "(\<And>x. x \<in> set xs \<Longrightarrow> P x) \<Longrightarrow> filter P xs = xs"
  by (induction xs) auto

lemma badger_moves:
  assumes laws: "txn_laws T view" and ok: "kv_ok (view (bt_tx r))" and sc: "scannable (view (bt_tx r))"
    and n: "n \<in> dom (g_persons (kv_graph (view (bt_tx r))))"
  shows "moves (badger_ReadTx T r) opts n = moves (exact_reader T r) opts n"
proof -
  note I = badger_iterators [OF assms, unfolded enumerates_def children_of_def parents_of_def marriages_of_def]
  have "filter (\<lambda>e. R_from e = n) (fst (badger_IterateChildren T r n)) = fst (badger_IterateChildren T r n)"
    "filter (\<lambda>e. R_to e = n) (fst (badger_IterateParents T r n)) = fst (badger_IterateParents T r n)"
    "remdups (filter (\<lambda>e. R_from e = n \<or> R_to e = n) (fst (badger_IterateMarriages T r n))) =
       fst (badger_IterateMarriages T r n)"
    using I by (simp_all add: filter_all)
  then show ?thesis by (simp add: moves_def exact_reader_def badger_ReadTx_def)
qed

lemma badger_moves_closed:
  assumes laws: "txn_laws T view" and ok: "kv_ok (view (bt_tx r))" and sc: "scannable (view (bt_tx r))"
    and n: "n \<in> dom (g_persons (kv_graph (view (bt_tx r))))"
    and m: "m \<in> set (moves (badger_ReadTx T r) opts n)"
  shows "snd (snd m) \<in> dom (g_persons (kv_graph (view (bt_tx r))))"
proof -
  note I = badger_iterators [OF laws ok sc n, unfolded enumerates_def children_of_def parents_of_def marriages_of_def]
  have "fst m \<in> ran (g_rels (kv_graph (view (bt_tx r)))) \<and> snd (snd m) \<in> {R_from (fst m), R_to (fst m)}"
    using m I by (auto simp: moves_def badger_ReadTx_def child_move_def parent_move_def
        marriage_move_def split: if_splits)
  with sc show ?thesis by (auto simp: scannable_def)
qed

lemma badger_FindPaths:
  assumes "txn_laws T view" and "kv_ok (view (bt_tx r))" and "scannable (view (bt_tx r))"
    and "a \<in> dom (g_persons (kv_graph (view (bt_tx r))))"
  shows "FindPaths (badger_ReadTx T r) a b opts = FindPaths (exact_reader T r) a b opts"
  by (rule FindPaths_cong [OF badger_moves [OF assms(1-3)] badger_moves_closed [OF assms(1-3)] _ _ assms(4)])
    (simp_all add: exact_reader_def badger_ReadTx_def)

text \<open>
  C24: \<open>FindPaths\<close> is exact on the persistent adapter when ids are separated. On a good database whose
  edges end in persons, and whose person ids hold no separator and none is the start of another, it
  returns between two distinct persons every simple path within the depth, each once and with its
  aggregates, or NO_KNOWN_CONNECTION when there is none.
\<close>

theorem badger_FindPaths_exact:
  assumes "txn_laws T view" and "kv_ok (view (bt_tx r))" and "scannable (view (bt_tx r))"
    and "g_persons (kv_graph (view (bt_tx r))) a \<noteq> None"
    and "g_persons (kv_graph (view (bt_tx r))) b \<noteq> None" and "a \<noteq> b" and "Opt_MaxPaths opts \<le> 0"
  shows "let B = {ss. simple_path (kv_graph (view (bt_tx r))) (Opt_IncludeAffinal opts) a b ss \<and>
      int (length ss) \<le> maxDepth opts} in
    case FindPaths (badger_ReadTx T r) a b opts of
      None \<Rightarrow> False
    | Some (Inl e) \<Rightarrow> e = ErrNoKnownConnection \<and> B = {}
    | Some (Inr ps) \<Rightarrow> set (map Pa_Steps ps) = B \<and> distinct (map Pa_Steps ps) \<and> ps \<noteq> [] \<and>
        ps = map (makePath (badger_ReadTx T r)) (map Pa_Steps ps)"
proof -
  have ids: "a \<noteq> ''''" "b \<noteq> ''''"
    using assms(4,5) decodePerson_stable stored_entity [OF kv_okD(1) [OF assms(2)]]
    by (fastforce simp: entity_of_Some Person_wf_def)+
  have same: "makePath (exact_reader T r) = makePath (badger_ReadTx T r)"
    by (simp add: makePath_def exact_reader_def fun_eq_iff)
  have a: "a \<in> dom (g_persons (kv_graph (view (bt_tx r))))" using assms(4) by (simp add: dom_def)
  show ?thesis
    unfolding Let_def badger_FindPaths [OF assms(1-3) a]
    using badger.FindPaths_exact [of "(T, view, r)" a b opts, unfolded prod.case] assms(1,2,4-7) ids
    by (simp only: same simp_thms)
qed


text \<open>The sample database without \<open>p1\<close>: its ids are separated.\<close>

definition pair_graph :: Graph where
  "pair_graph = family_graph\<lparr>g_persons := [''p10'' \<mapsto> named ''p10'', ''c'' \<mapsto> named ''c'']\<rparr>"

definition pair :: "(string \<times> string) list badgerTx" where
  "pair = (case badger_DeletePerson alist_txn ''p1'' family of Inr w \<Rightarrow> w | Inl _ \<Rightarrow> new_tx)"

lemma family_persons:
  "g_persons family_graph = [''p1'' \<mapsto> named ''p1'', ''p10'' \<mapsto> named ''p10'', ''c'' \<mapsto> named ''c'']"
  "ran (g_rels family_graph) = {stored_edge ''e'' ''p10'' ''c''}"
  by (simp_all add: family_graph_def persons_graph_def)

lemma pair_ok: "kv_ok (map_of (bt_tx pair))" "kv_graph (map_of (bt_tx pair)) = pair_graph"
proof -
  have "g_persons family_graph ''p1'' \<noteq> None" by (simp add: family_persons)
  moreover have "(g_persons family_graph)(''p1'' := None) = g_persons pair_graph"
    by (auto simp: family_persons pair_graph_def fun_eq_iff)
  then have "family_graph\<lparr>g_persons := (g_persons family_graph)(''p1'' := None)\<rparr> = pair_graph"
    by (simp add: pair_graph_def)
  ultimately have "acts alist_txn map_of family (badger_DeletePerson alist_txn ''p1'' family) pair_graph"
    using delete_person_acts [OF alist_txn_laws family_ok(1), of "''p1''"] by (simp only: family_ok(2) if_False)
  then show "kv_ok (map_of (bt_tx pair))" "kv_graph (map_of (bt_tx pair)) = pair_graph"
    using alist_txn_total by (auto simp: acts_def pair_def)
qed

lemma pair_scannable: "scannable (map_of (bt_tx pair))"
proof -
  have "dom (g_persons pair_graph) = {''c'', ''p10''}" by (auto simp: pair_graph_def)
  then show ?thesis
    by (simp add: scannable_def pair_ok(2)) (simp add: separated_def sep_def pair_graph_def family_persons(2)
      [unfolded family_graph_def] family_graph_def persons_graph_def stored_edge_def)
qed

definition all_opts :: Options where
  "all_opts = \<lparr>Opt_MaxDepth = 0, Opt_MaxPaths = 0, Opt_IncludeAffinal = False\<rparr>"

definition edge_step :: "Relationship \<Rightarrow> ID \<Rightarrow> Step" where
  "edge_step e a = \<lparr>St_Relationship = e, St_Direction = EdgeForward, St_FromPerson = a, St_ToPerson = R_to e\<rparr>"

theorem badger_FindPaths_exact_witness:
  "\<exists>ps. FindPaths (badger_ReadTx alist_txn pair) ''p10'' ''c'' all_opts = Some (Inr ps) \<and>
     [edge_step (stored_edge ''e'' ''p10'' ''c'') ''p10''] \<in> set (map Pa_Steps ps)"
proof -
  let ?B = "{ss. simple_path pair_graph (Opt_IncludeAffinal all_opts) ''p10'' ''c'' ss \<and>
    int (length ss) \<le> maxDepth all_opts}"
  have b: "[edge_step (stored_edge ''e'' ''p10'' ''c'') ''p10''] \<in> ?B"
    by (simp add: simple_path_def edge_step_def step_in_def Let_def pair_graph_def family_graph_def
        persons_graph_def stored_edge_def gap2_edge_def is_pc_def all_opts_def maxDepth_def DefaultMaxDepth_def)
  have "g_persons pair_graph ''p10'' \<noteq> None" "g_persons pair_graph ''c'' \<noteq> None" "''p10'' \<noteq> ''c''"
    "Opt_MaxPaths all_opts \<le> 0"
    by (simp_all add: pair_graph_def all_opts_def)
  with badger_FindPaths_exact [OF alist_txn_laws pair_ok(1) pair_scannable, of "''p10''" "''c''" all_opts,
      unfolded pair_ok(2) Let_def] b
  show ?thesis by (auto split: option.splits sum.splits)
qed

text \<open>
  C28: the prefix scan makes up connections. If the id of a person is the start of the id of a parent
  (or of the parent's id, the separator and the edge's), then \<open>FindPaths\<close> from that person to the
  child of the parent answers with a path over the parent's edge, though no edge joins the two and
  the path is none of the graph.
\<close>

theorem badger_prefix_path:
  assumes "txn_laws T view" and "kv_ok (view (bt_tx r))"
    and "e \<in> ran (g_rels (kv_graph (view (bt_tx r))))" and "is_pc e"
    and "prefix a (R_from e @ sep # R_id e)" and "a \<noteq> R_from e" and "a \<noteq> R_to e"
    and "g_persons (kv_graph (view (bt_tx r))) a \<noteq> None"
    and "g_persons (kv_graph (view (bt_tx r))) (R_to e) \<noteq> None" and "Opt_MaxPaths opts \<le> 0"
  shows "\<exists>ps. FindPaths (badger_ReadTx T r) a (R_to e) opts = Some (Inr ps) \<and>
    [edge_step e a] \<in> set (map Pa_Steps ps) \<and>
    \<not> simple_path (kv_graph (view (bt_tx r))) affinal a (R_to e) [edge_step e a]"
proof -
  have ids: "a \<noteq> []" "R_to e \<noteq> []"
    using assms(8,9) decodePerson_stable stored_entity [OF kv_okD(1) [OF assms(2)]]
    by (fastforce simp: entity_of_Some Person_wf_def)+
  have get: "rt_GetPerson (badger_ReadTx T r) i = Inr p" if "g_persons (kv_graph (view (bt_tx r))) i = Some p" for i p
    using that by (simp add: badger_ReadTx_def badger_GetPerson_def ID_String_def
        fetch_stored [OF assms(1) kv_okD(1) [OF assms(2)]])
  obtain pa pb where "rt_GetPerson (badger_ReadTx T r) a = Inr pa"
    "rt_GetPerson (badger_ReadTx T r) (R_to e) = Inr pb"
    using assms(8,9) get by blast
  note answer = FindPaths_answer [OF this assms(7) ids, of opts]
  let ?xs = "paths (nat (maxDepth opts)) (badger_ReadTx T r) opts (R_to e) a {a}"
  let ?qs = "SliceStable found_less (map (makePath (badger_ReadTx T r)) ?xs)"
  have "e \<in> set (fst (badger_IterateChildren T r a))"
    using badger_scans(1) [OF assms(1,2), of a] assms(3-5) by (simp add: enumerates_def)
  then have m: "child_move e \<in> set (moves (badger_ReadTx T r) opts a)"
    by (simp add: moves_def badger_ReadTx_def)
  obtain d where d: "nat (maxDepth opts) = Suc d"
    using maxDepth_pos [of opts] by (cases "nat (maxDepth opts)") auto
  have "snd (snd (child_move e)) = R_to e" "move_step a (child_move e) = edge_step e a"
    by (simp_all add: child_move_def move_step_def edge_step_def)
  then have "[edge_step e a] \<in> set ?xs"
    using m assms(7) unfolding d paths.simps Let_def set_concat set_map image_image
    by (intro UN_I [OF m]) simp
  moreover have "set (map Pa_Steps ?qs) = set ?xs"
    unfolding SliceStable_found by (simp add: image_image)
  ultimately have "?xs \<noteq> []" "[edge_step e a] \<in> set (map Pa_Steps ?qs)" by auto
  moreover have "\<not> simple_path (kv_graph (view (bt_tx r))) affinal a (R_to e) [edge_step e a]"
    using assms(4,6) by (simp add: simple_path_def step_in_def edge_step_def Let_def is_pc_def go_consts)
  ultimately show ?thesis using answer assms(10) by (simp add: Let_def)
qed

theorem badger_prefix_path_witness:
  "\<exists>ps. FindPaths (badger_ReadTx alist_txn family) ''p1'' ''c'' all_opts = Some (Inr ps) \<and>
     [edge_step (stored_edge ''e'' ''p10'' ''c'') ''p1''] \<in> set (map Pa_Steps ps) \<and>
     (\<nexists>ss. simple_path family_graph True ''p1'' ''c'' ss)"
proof -
  let ?e = "stored_edge ''e'' ''p10'' ''c''"
  have e: "?e \<in> ran (g_rels family_graph)" "is_pc ?e" "prefix ''p1'' (R_from ?e @ sep # R_id ?e)"
    "''p1'' \<noteq> R_from ?e" "''p1'' \<noteq> R_to ?e" "R_to ?e = ''c''" "Opt_MaxPaths all_opts \<le> 0"
    "g_persons family_graph ''p1'' \<noteq> None" "g_persons family_graph ''c'' \<noteq> None"
    by (simp_all add: family_persons) (simp_all add: stored_edge_def gap2_edge_def is_pc_def all_opts_def)
  have "\<not> simple_path family_graph True ''p1'' ''c'' ss" for ss
  proof (cases ss)
    case (Cons s ss')
    have "\<not> step_in family_graph True s" if "St_FromPerson s = ''p1''"
      using that by (auto simp: step_in_def Let_def family_persons(2))
        (simp_all add: stored_edge_def)
    with Cons show ?thesis by (auto simp: simple_path_def)
  qed (simp add: simple_path_def)
  with badger_prefix_path [OF alist_txn_laws family_ok(1), unfolded family_ok(2), of ?e "''p1''" all_opts True] e
  show ?thesis by auto
qed



section \<open>Commits\<close>

lemma Update_after_success:
  fixes D :: "('d, 't, Version, Version \<times> 'o) DB"
  assumes laws: "txn_laws T view" "db_laws D view contents" and v: "holds_version (contents d) v"
    and f: "f \<lparr>bt_tx = db_NewTransaction D True d, bt_version = v\<rparr> = Some (Inr (w, out))"
  shows "\<exists>res d'. badger_Update D T f d = Some (res, d') \<and>
          (txn_total T \<and> db_commits D \<longrightarrow> res = Inr (v + 1, out)) \<and>
          (case res of
             Inl e \<Rightarrow> contents d' = contents d
           | Inr x \<Rightarrow> x = (v + 1, out) \<and> shows_version D T view d' (contents d') (v + 1) \<and>
               kv_graph (contents d') = kv_graph (view (bt_tx w)) \<and>
               (kv_ok (view (bt_tx w)) \<longrightarrow> kv_ok (contents d')))"
proof -
  note R = badger_Update_run [OF laws v, of f, unfolded f option.case sum.case prod.case]
  show ?thesis
  proof (cases "tx_Set T metaVersionKey (PutUint64 (v + 1)) (bt_tx w)")
    case (Inl e)
    have "metaVersionKey \<noteq> []" by (simp add: metaVersionKey_def)
    with Inl have "\<not> txn_total T" unfolding txn_total_def by (metis Inl_Inr_False)
    moreover obtain d' where "badger_Update D T f d = Some (Inl e, d')" "contents d' = contents d"
      using R(1) Inl by auto
    ultimately show ?thesis by simp
  next
    case (Inr t)
    have t: "view t = (view (bt_tx w))(metaVersionKey \<mapsto> PutUint64 (v + 1))"
      using laws(1) Inr unfolding txn_laws_def by blast
    have com: "shows_version D T view d' (contents d') (v + 1) \<and>
        kv_graph (contents d') = kv_graph (view (bt_tx w)) \<and>
        (kv_ok (view (bt_tx w)) \<longrightarrow> kv_ok (contents d'))" if "contents d' = view t" for d'
      using that shows_contents [OF laws, of d' "v + 1"] kv_ok_put(6) by (simp add: t)
    from R(1) Inr consider (ok) d' where "badger_Update D T f d = Some (Inr (v + 1, out), d')"
        "contents d' = view t"
      | (fail) e d' where "badger_Update D T f d = Some (Inl e, d')" "contents d' = contents d"
      by auto
    then show ?thesis
    proof cases
      case ok
      with com show ?thesis by simp
    next
      case fail
      have "\<not> db_commits D" using R(2) Inr fail(1) by fastforce
      with fail show ?thesis by simp
    qed
  qed
qed

text \<open>
  C29: \<open>Update\<close> commits all or nothing, under the next version. On a store whose version is \<open>v\<close>, a
  callback that does not return or fails is passed on, and nothing changes. After a callback that
  succeeds either the version and the keys that its transaction shows are committed together, or
  an error is returned and nothing changes; when no write and no commit of the library fails, they
  are committed. The store then shows that graph under version \<open>v + 1\<close> to every new snapshot, and
  \<open>ViewAt\<close> opens no other version (VERSION_NOT_FOUND), the one before included.
\<close>

theorem badger_Update_commits:
  fixes D :: "('d, 't, Version, Version \<times> 'o) DB"
  assumes "txn_laws T view" and "db_laws D view contents" and "holds_version (contents d) v"
  shows "case f \<lparr>bt_tx = db_NewTransaction D True d, bt_version = v\<rparr> of
      None \<Rightarrow> badger_Update D T f d = None
    | Some (Inl e) \<Rightarrow> \<exists>d'. badger_Update D T f d = Some (Inl e, d') \<and> contents d' = contents d
    | Some (Inr (w, out)) \<Rightarrow>
        \<exists>res d'. badger_Update D T f d = Some (res, d') \<and>
          (txn_total T \<and> db_commits D \<longrightarrow> res = Inr (v + 1, out)) \<and>
          (case res of
             Inl e \<Rightarrow> contents d' = contents d
           | Inr x \<Rightarrow> x = (v + 1, out) \<and> shows_version D T view d' (contents d') (v + 1) \<and>
               kv_graph (contents d') = kv_graph (view (bt_tx w)) \<and>
               (kv_ok (view (bt_tx w)) \<longrightarrow> kv_ok (contents d')))"
proof (cases "f \<lparr>bt_tx = db_NewTransaction D True d, bt_version = v\<rparr>")
  case None
  with badger_Update_run(1) [OF assms, of f] show ?thesis by simp
next
  case (Some r)
  show ?thesis
  proof (cases r)
    case (Inl e)
    with Some badger_Update_run(1) [OF assms, of f] show ?thesis by simp
  next
    case (Inr x)
    obtain w out where x: "x = (w, out)" by (cases x)
    from Update_after_success [where f = f, OF assms Some [unfolded Inr x]] show ?thesis
      by (simp only: Some Inr x option.case sum.case prod.case)
  qed
qed

text \<open>The callback that deletes \<open>p1\<close>, on the sample database.\<close>

theorem badger_Update_commits_witness:
  "(\<exists>d'. badger_Update (alist_db :: (_, _, Version, Version \<times> unit) DB) alist_txn
      (\<lambda>w. Some (bindE (badger_DeletePerson alist_txn ''c'' w) (\<lambda>w. Inr (w, ())))) (bt_tx new_tx) =
      Some (Inl (New CodePersonNotFound ''person c''), d') \<and> map_of d' = map_of (bt_tx new_tx)) \<and>
   (\<exists>d'. badger_Update (alist_db :: (_, _, Version, Version \<times> unit) DB) alist_txn
      (\<lambda>w. Some (Inr (w, ()))) (bt_tx new_tx) = Some (Inr (1, ()), d') \<and>
      badger_CurrentVersion (alist_db :: (_, _, Version, Version \<times> unit) DB) alist_txn d' = Inr 1)"
proof
  let ?D = "alist_db :: ((string \<times> string) list, _, Version, Version \<times> unit) DB"
  let ?d = "bt_tx new_tx" and ?w = "\<lparr>bt_tx = bt_tx new_tx, bt_version = 0\<rparr>"
  let ?del = "\<lambda>w. Some (bindE (badger_DeletePerson alist_txn ''c'' w) (\<lambda>w. Inr (w, ())))"
  let ?nop = "\<lambda>w. Some (Inr (w, ()))"
  have v: "holds_version (map_of ?d) 0" by (simp add: new_tx_def holds_version_def)
  have tx: "db_NewTransaction ?D True ?d = ?d" by (simp add: alist_db_def)
  note U = badger_Update_commits [where D = ?D, OF alist_txn_laws alist_db_laws(1) v, unfolded tx]
  have "badger_DeletePerson alist_txn ''c'' ?w = Inl (New CodePersonNotFound ''person c'')"
    by (simp add: badger_DeletePerson_def require_key_eq [OF alist_txn_laws] ID_String_def new_tx_def)
  then have "?del ?w = Some (Inl (New CodePersonNotFound ''person c''))" by simp
  with U [of ?del] show "\<exists>d'. badger_Update ?D alist_txn ?del ?d =
      Some (Inl (New CodePersonNotFound ''person c''), d') \<and> map_of d' = map_of ?d"
    by (simp only: option.case sum.case)
  have c: "txn_total alist_txn \<and> db_commits ?D" by (simp add: alist_txn_total alist_db_laws(2))
  from U [of ?nop, unfolded option.case sum.case prod.case] c obtain res d'
    where r: "badger_Update ?D alist_txn ?nop ?d = Some (res, d')" "res = Inr (0 + 1, ())"
      and "case res of Inl e \<Rightarrow> map_of d' = map_of ?d
        | Inr x \<Rightarrow> x = (0 + 1, ()) \<and> shows_version ?D alist_txn map_of d' (map_of d') (0 + 1) \<and>
            kv_graph (map_of d') = kv_graph (map_of ?d) \<and> (kv_ok (map_of ?d) \<longrightarrow> kv_ok (map_of d'))"
    unfolding badgerTx.select_convs by blast
  then show "\<exists>d'. badger_Update ?D alist_txn ?nop ?d = Some (Inr (1, ()), d') \<and>
      badger_CurrentVersion ?D alist_txn d' = Inr 1"
    by (simp add: shows_version_def)
qed

end
