(* ===== verification/AdapterTests.thy ===== *)
theory AdapterTests
  imports Conformance MemoryStore BadgerProps
begin

text \<open>
  The two adapters under the conformance suite: each keeps the contract \<open>conforming_store\<close>, hence
  passes all sixteen tests. For the persistent adapter the contract needs ids that the index scans
  can tell apart, and a database on which no write and no commit fails.
\<close>

section \<open>The in-memory adapter\<close>

definition mem_at :: "MemStore \<Rightarrow> Version \<Rightarrow> Graph \<Rightarrow> bool" where
  "mem_at s v G \<longleftrightarrow> store_ok s \<and> st_version (ms_current s) = v \<and> state_graph (ms_current s) = G"

definition mem_tx_at :: "Graph \<Rightarrow> writeTx \<Rightarrow> Graph \<Rightarrow> bool" where
  "mem_tx_at B w G \<longleftrightarrow> tx_inv w \<and> tx_base w = B \<and> tx_view w = G"

lemma mem_steps:
  "P_id p \<noteq> '''' \<Longrightarrow> steps_to mem_tx_at B (writeTx_PutPerson p) G (add_person p G)"
  "S_id x \<noteq> '''' \<Longrightarrow> steps_to mem_tx_at B (writeTx_PutSource x) G (add_source x G)"
  "R_id r \<noteq> '''' \<Longrightarrow> g_persons G (R_from r) \<noteq> None \<Longrightarrow> g_persons G (R_to r) \<noteq> None \<Longrightarrow>
     steps_to mem_tx_at B (writeTx_PutRelationship r) G (add_rel r G)"
  "R_id r \<noteq> '''' \<Longrightarrow> g_persons G (R_from r) = None \<or> g_persons G (R_to r) = None \<Longrightarrow>
     fails_as mem_tx_at B (writeTx_PutRelationship r) G CodePersonNotFound"
  "g_rels G i \<noteq> None \<Longrightarrow> steps_to mem_tx_at B (writeTx_DeleteRelationship i) G (drop_rel i G)"
  "g_rels G i = None \<Longrightarrow> fails_as mem_tx_at B (writeTx_DeleteRelationship i) G CodeRelationshipNotFound"
  by (auto simp: steps_to_def fails_as_def mem_tx_at_def writeTx_puts writeTx_deletes add_person_def
      add_source_def add_rel_def drop_rel_def)

lemma mem_put_prop:
  "Q_id q \<noteq> '''' \<Longrightarrow> (\<And>old. g_props B (Q_id q) = Some old \<Longrightarrow> \<not> IsTerminal (Q_state old)) \<Longrightarrow>
     steps_to mem_tx_at B (writeTx_PutProposal q) B (add_prop q B)"
  "Q_id q \<noteq> '''' \<Longrightarrow> g_props B (Q_id q) = Some old \<Longrightarrow> IsTerminal (Q_state old) \<Longrightarrow> Q_state old \<noteq> Q_state q \<Longrightarrow>
     fails_as mem_tx_at B (writeTx_PutProposal q) B CodeImmutableTerminalProposal"
proof -
  assume id: "Q_id q \<noteq> ''''"
  { assume "\<And>old. g_props B (Q_id q) = Some old \<Longrightarrow> \<not> IsTerminal (Q_state old)"
    then have "terminal_clash (g_props B (Q_id q)) q = None" by (auto simp: terminal_clash_None)
    with id show "steps_to mem_tx_at B (writeTx_PutProposal q) B (add_prop q B)"
      by (auto simp: steps_to_def mem_tx_at_def writeTx_PutProposal_base add_prop_def) }
  { assume "g_props B (Q_id q) = Some old" "IsTerminal (Q_state old)" "Q_state old \<noteq> Q_state q"
    then obtain e where e: "terminal_clash (g_props B (Q_id q)) q = Some e" by (simp add: terminal_clash_def)
    with id terminal_clash_Some [OF e] show "fails_as mem_tx_at B (writeTx_PutProposal q) B CodeImmutableTerminalProposal"
      by (auto simp: fails_as_def mem_tx_at_def writeTx_PutProposal_base) }
qed

lemma mem_view:
  assumes "mem_at s v G"
  shows "\<exists>r. sto_View mem_store s = Inr r \<and> rt_Version r = v \<and> reads_graph r G"
proof -
  let ?r = "\<lparr>rx_state = ms_current s, rx_closed = False\<rparr>"
  have ok: "\<not> ms_closed s" "read_ok ?r" "read_graph ?r = G" "st_version (ms_current s) = v"
    using assms by (auto simp: mem_at_def store_ok_def read_ok_def read_graph_def)
  then have "reads_graph (mem_ReadTx ?r) G"
    using mem_reader.GetPerson [OF ok(2)] mem_reader.GetRelationship [OF ok(2)] mem_reader.GetSource [OF ok(2)]
      mem_reader.GetProposal [OF ok(2)] mem_reader.IteratePersons [OF ok(2)] mem_reader.IterateSources [OF ok(2)]
      mem_reader.IterateChildren [OF ok(2)] mem_reader.IterateParents [OF ok(2)] mem_reader.IterateMarriages [OF ok(2)]
    by (simp add: reads_graph_def)
  then show ?thesis using ok by (simp add: mem_store_def View_def) (simp add: mem_ReadTx_def)
qed

lemma mem_commit:
  assumes "mem_at s v G" and "v \<noteq> - 1"
    and f: "\<And>w. mem_tx_at G w G \<Longrightarrow> \<exists>w'. f w = Some (Inr (w', ())) \<and> mem_tx_at G w' G'"
  shows "\<exists>s'. Update f s = Some (Inr (v + 1, ()), s') \<and> mem_at s' (v + 1) G'"
proof -
  have s: "store_ok s" "st_version (ms_current s) = v" "state_graph (ms_current s) = G" "\<not> ms_closed s"
    using assms(1) by (auto simp: mem_at_def store_ok_def)
  then have "mem_tx_at G (newWriteTx (ms_current s)) G" by (simp add: mem_tx_at_def store_okD(3))
  from f [OF this] obtain w where w: "f (newWriteTx (ms_current s)) = Some (Inr (w, ()))" "tx_inv w" "tx_view w = G'"
    by (auto simp: mem_tx_at_def)
  with s assms(2) show ?thesis
    by (simp add: Update_Inr mem_at_def commit_store_ok commitState_graph)
qed

interpretation mem_conforms: conforming_store mem_store mem_WriteTx mem_at mem_tx_at "Collect id_stable"
proof (unfold_locales, goal_cases)
  case (2 s v G)
  then show ?case by (simp add: mem_store_def CurrentVersion_def mem_at_def store_ok_def)
next
  case (3 s v G)
  then show ?case by (rule mem_view)
next
  case (4 s v G f G')
  then show ?case using mem_commit [of s v G f G'] by (simp add: mem_store_def)
next
  case (5 s v G f P)
  then have s: "\<not> ms_closed s" "mem_tx_at G (newWriteTx (ms_current s)) G"
    by (auto simp: mem_at_def store_ok_def mem_tx_at_def)
  from 5(2) [OF s(2)] 5(1) s(1) show ?case by (auto simp: mem_store_def Update_def)
qed (auto simp: Person_wf_def Source_wf_def keepable_def intent_ok_def dest: wf_dests
    intro: mem_steps mem_put_prop)


section \<open>The persistent adapter\<close>

text \<open>
  The \<open>store.Store\<close> that the adapter is, while its handle is open; \<open>close\<close> is what closing the
  database leaves.
\<close>

definition badger_store ::
    "('d, 't, Version, Version \<times> 'o) DB \<Rightarrow> 't Txn \<Rightarrow> ('d \<Rightarrow> 'd) \<Rightarrow> ('d, 't badgerTx, 'o) Store" where
  "badger_store D T close =
     \<lparr>sto_CurrentVersion = badger_CurrentVersion D T,
      sto_View = (\<lambda>d. bindE (badger_View D T d) (\<lambda>r. Inr (badger_ReadTx T r))),
      sto_ViewAt = (\<lambda>v d. bindE (badger_ViewAt D T v d) (\<lambda>r. Inr (badger_ReadTx T r))),
      sto_Update = badger_Update D T,
      sto_Close = close\<rparr>"

text \<open>A good database with graph \<open>G\<close> whose persons have ids in \<open>I\<close>, and whose edges end in persons.\<close>

definition kv_at :: "ID set \<Rightarrow> kv \<Rightarrow> Graph \<Rightarrow> bool" where
  "kv_at I m G \<longleftrightarrow> kv_ok m \<and> kv_graph m = G \<and> dom (g_persons G) \<subseteq> I \<and>
     (\<forall>e \<in> ran (g_rels G). {R_from e, R_to e} \<subseteq> dom (g_persons G))"

lemma kv_at_scannable: "separated I \<Longrightarrow> kv_at I m G \<Longrightarrow> scannable m"
  by (auto simp: kv_at_def scannable_def separated_def)

definition kv_tx_at :: "ID set \<Rightarrow> ('t \<Rightarrow> kv) \<Rightarrow> Graph \<Rightarrow> 't badgerTx \<Rightarrow> Graph \<Rightarrow> bool" where
  "kv_tx_at I view B w G \<longleftrightarrow> kv_at I (view (bt_tx w)) G"

lemma kv_at_edits:
  "kv_at I m G \<Longrightarrow> P_id p \<in> I \<Longrightarrow> kv_ok m' \<Longrightarrow> kv_graph m' = add_person p G \<Longrightarrow> kv_at I m' (add_person p G)"
  "kv_at I m G \<Longrightarrow> kv_ok m' \<Longrightarrow> kv_graph m' = add_source x G \<Longrightarrow> kv_at I m' (add_source x G)"
  "kv_at I m G \<Longrightarrow> kv_ok m' \<Longrightarrow> kv_graph m' = add_prop q G \<Longrightarrow> kv_at I m' (add_prop q G)"
  "kv_at I m G \<Longrightarrow> g_persons G (R_from r) \<noteq> None \<Longrightarrow> g_persons G (R_to r) \<noteq> None \<Longrightarrow>
     kv_ok m' \<Longrightarrow> kv_graph m' = add_rel r G \<Longrightarrow> kv_at I m' (add_rel r G)"
  "kv_at I m G \<Longrightarrow> kv_ok m' \<Longrightarrow> kv_graph m' = drop_rel i G \<Longrightarrow> kv_at I m' (drop_rel i G)"
  by (auto simp: kv_at_def ran_def add_source_def add_prop_def split: if_splits)

lemma steps_acts:
  assumes "txn_total T"
    and "\<And>w. kv_at I (view (bt_tx w)) G \<Longrightarrow> acts T view w (f w) G'"
    and "\<And>m m'. kv_at I m G \<Longrightarrow> kv_ok m' \<Longrightarrow> kv_graph m' = G' \<Longrightarrow> kv_at I m' G'"
  shows "steps_to (kv_tx_at I view) B f G G'"
  using assms by (fastforce simp: steps_to_def kv_tx_at_def acts_def)

lemma badger_steps:
  assumes laws: "txn_laws T view" and total: "txn_total T" and sep: "separated I"
  shows "Person_wf p \<Longrightarrow> Person_stable p \<Longrightarrow> P_id p \<in> I \<Longrightarrow>
      steps_to (kv_tx_at I view) B (badger_PutPerson T p) G (add_person p G)"
    and "Source_wf x \<Longrightarrow> Source_stable x \<Longrightarrow>
      steps_to (kv_tx_at I view) B (badger_PutSource T x) G (add_source x G)"
    and "Relationship_wf r \<Longrightarrow> Relationship_stable r \<Longrightarrow> R_id r \<in> I \<Longrightarrow> g_persons G (R_from r) \<noteq> None \<Longrightarrow>
      g_persons G (R_to r) \<noteq> None \<Longrightarrow> steps_to (kv_tx_at I view) B (badger_PutRelationship T r) G (add_rel r G)"
    and "g_rels G i \<noteq> None \<Longrightarrow>
      steps_to (kv_tx_at I view) B (badger_DeleteRelationship T i) G (drop_rel i G)"
    and "keepable q \<Longrightarrow> (\<And>old. g_props B (Q_id q) = Some old \<Longrightarrow> \<not> IsTerminal (Q_state old)) \<Longrightarrow>
      steps_to (kv_tx_at I view) B (badger_PutProposal T q) B (add_prop q B)"
proof -
  have id: "sep \<notin> set i" if "i \<in> I" for i using sep that by (simp add: separated_def)
  note at = kv_at_def [of I "view (bt_tx w)" for w]
  { assume p: "Person_wf p" "Person_stable p" "P_id p \<in> I"
    have "acts T view w (badger_PutPerson T p w) (add_person p G)" if "kv_at I (view (bt_tx w)) G" for w
      using put_person_acts [OF laws _ p(1,2)] that by (auto simp: at add_person_def)
    then show "steps_to (kv_tx_at I view) B (badger_PutPerson T p) G (add_person p G)"
      by (rule steps_acts [OF total]) (assumption, rule kv_at_edits(1) [OF _ p(3)]) }
  { assume x: "Source_wf x" "Source_stable x"
    have "acts T view w (badger_PutSource T x w) (add_source x G)" if "kv_at I (view (bt_tx w)) G" for w
      using put_source_acts [OF laws _ x] that by (auto simp: at add_source_def)
    then show "steps_to (kv_tx_at I view) B (badger_PutSource T x) G (add_source x G)"
      by (rule steps_acts [OF total]) (assumption, rule kv_at_edits(2)) }
  { assume r: "Relationship_wf r" "Relationship_stable r" "R_id r \<in> I" "g_persons G (R_from r) \<noteq> None"
      "g_persons G (R_to r) \<noteq> None"
    have "acts T view w (badger_PutRelationship T r w) (add_rel r G)" if "kv_at I (view (bt_tx w)) G" for w
      using put_relationship_acts [OF laws _ r(1,2) id [OF r(3)], of w] r(4,5) that by (auto simp: at add_rel_def)
    then show "steps_to (kv_tx_at I view) B (badger_PutRelationship T r) G (add_rel r G)"
      by (rule steps_acts [OF total]) (assumption, rule kv_at_edits(4) [OF _ r(4,5)]) }
  { assume i: "g_rels G i \<noteq> None"
    have "acts T view w (badger_DeleteRelationship T i w) (drop_rel i G)" if "kv_at I (view (bt_tx w)) G" for w
      using delete_relationship_acts [OF laws, of w i] i that by (auto simp: at drop_rel_def)
    then show "steps_to (kv_tx_at I view) B (badger_DeleteRelationship T i) G (drop_rel i G)"
      by (rule steps_acts [OF total]) (assumption, rule kv_at_edits(5)) }
  { assume q: "keepable q" "\<And>old. g_props B (Q_id q) = Some old \<Longrightarrow> \<not> IsTerminal (Q_state old)"
    then have q': "intent_ok q" "replayed q" "Proposal_stable q"
      "\<not> (\<exists>old. g_props B (Q_id q) = Some old \<and> IsTerminal (Q_state old) \<and> Q_state old \<noteq> Q_state q)"
      by (auto simp: keepable_def)
    have "acts T view w (badger_PutProposal T q w) (add_prop q B)" if "kv_at I (view (bt_tx w)) B" for w
    proof -
      have ok: "kv_ok (view (bt_tx w))" and B: "kv_graph (view (bt_tx w)) = B" using that by (simp_all add: at)
      show ?thesis
        using put_proposal_acts [OF laws ok q'(1-3), unfolded B] q'(4) unfolding add_prop_def by (simp only: if_False)
    qed
    then show "steps_to (kv_tx_at I view) B (badger_PutProposal T q) B (add_prop q B)"
      by (rule steps_acts [OF total]) (assumption, rule kv_at_edits(3)) }
qed

lemma badger_fails:
  assumes laws: "txn_laws T view" and sep: "separated I"
  shows "Relationship_wf r \<Longrightarrow> Relationship_stable r \<Longrightarrow> R_id r \<in> I \<Longrightarrow>
      g_persons G (R_from r) = None \<or> g_persons G (R_to r) = None \<Longrightarrow>
      fails_as (kv_tx_at I view) B (badger_PutRelationship T r) G CodePersonNotFound"
    and "g_rels G i = None \<Longrightarrow>
      fails_as (kv_tx_at I view) B (badger_DeleteRelationship T i) G CodeRelationshipNotFound"
    and "Q_id q \<noteq> '''' \<Longrightarrow> g_props B (Q_id q) = Some old \<Longrightarrow> IsTerminal (Q_state old) \<Longrightarrow>
      Q_state old \<noteq> Q_state q \<Longrightarrow>
      fails_as (kv_tx_at I view) B (badger_PutProposal T q) B CodeImmutableTerminalProposal"
proof -
  note defs = fails_as_def kv_tx_at_def kv_at_def
  { assume r: "Relationship_wf r" "Relationship_stable r" "R_id r \<in> I"
      "g_persons G (R_from r) = None \<or> g_persons G (R_to r) = None"
    then have "sep \<notin> set (R_id r)" using sep by (simp add: separated_def)
    with put_relationship_acts [OF laws _ r(1,2) this] r(4)
    show "fails_as (kv_tx_at I view) B (badger_PutRelationship T r) G CodePersonNotFound"
      by (auto simp: defs) }
  { assume "g_rels G i = None"
    then show "fails_as (kv_tx_at I view) B (badger_DeleteRelationship T i) G CodeRelationshipNotFound"
      using delete_relationship_acts [OF laws, where i = i] by (auto simp: defs) }
  { assume "Q_id q \<noteq> ''''" "g_props B (Q_id q) = Some old" "IsTerminal (Q_state old)" "Q_state old \<noteq> Q_state q"
    then show "fails_as (kv_tx_at I view) B (badger_PutProposal T q) B CodeImmutableTerminalProposal"
      using get_proposal_eq [OF laws, where i = "Q_id q"] by (auto simp: defs badger_PutProposal_def) }
qed

definition badger_at ::
    "ID set \<Rightarrow> ('d \<Rightarrow> kv) \<Rightarrow> 'd \<Rightarrow> Version \<Rightarrow> Graph \<Rightarrow> bool" where
  "badger_at I contents d v G \<longleftrightarrow> holds_version (contents d) v \<and> kv_at I (contents d) G"

lemma badger_reads:
  assumes "txn_laws T view" and "separated I" and "kv_at I (view (bt_tx r)) G"
  shows "reads_graph (badger_ReadTx T r) G"
proof -
  have ok: "kv_ok (view (bt_tx r))" and G: "kv_graph (view (bt_tx r)) = G"
    using assms(3) by (simp_all add: kv_at_def)
  have same: "rt_GetPerson (exact_reader T r) = rt_GetPerson (badger_ReadTx T r)"
    "rt_GetRelationship (exact_reader T r) = rt_GetRelationship (badger_ReadTx T r)"
    "rt_GetSource (exact_reader T r) = rt_GetSource (badger_ReadTx T r)"
    "rt_GetProposal (exact_reader T r) = rt_GetProposal (badger_ReadTx T r)"
    "rt_IteratePersons (exact_reader T r) = rt_IteratePersons (badger_ReadTx T r)"
    "rt_IterateSources (exact_reader T r) = rt_IterateSources (badger_ReadTx T r)"
    "rt_IterateChildren (badger_ReadTx T r) = badger_IterateChildren T r"
    "rt_IterateParents (badger_ReadTx T r) = badger_IterateParents T r"
    "rt_IterateMarriages (badger_ReadTx T r) = badger_IterateMarriages T r"
    by (simp_all add: exact_reader_def badger_ReadTx_def)
  show ?thesis
    using exact_reader_get [OF assms(1) ok] exact_reader_class [OF assms(1) ok]
      badger_iterators [OF assms(1) ok kv_at_scannable [OF assms(2,3)]]
    unfolding reads_graph_def same G by blast
qed

lemma badger_commit:
  fixes f :: "'t badgerTx \<Rightarrow> (error, 't badgerTx \<times> 'o) partial_res"
  assumes laws: "txn_laws T view" "db_laws D view contents" and v: "holds_version (contents d) v"
    and total: "txn_total T" "db_commits D"
    and f: "f \<lparr>bt_tx = db_NewTransaction D True d, bt_version = v\<rparr> = Some (Inr (w, out))"
  shows "\<exists>d'. badger_Update D T f d = Some (Inr (v + 1, out), d') \<and>
    contents d' = (view (bt_tx w))(metaVersionKey \<mapsto> PutUint64 (v + 1))"
proof -
  have "metaVersionKey \<noteq> []" by (simp add: metaVersionKey_def)
  then obtain t where t: "tx_Set T metaVersionKey (PutUint64 (v + 1)) (bt_tx w) = Inr t"
    using total(1) unfolding txn_total_def by blast
  then have "view t = (view (bt_tx w))(metaVersionKey \<mapsto> PutUint64 (v + 1))"
    using laws(1) unfolding txn_laws_def by blast
  with badger_Update_run [OF laws v, of f] total(2) show ?thesis by (fastforce simp: f t)
qed

lemma badger_conforms:
  fixes D :: "('d, 't, Version, Version \<times> unit) DB"
  assumes laws: "txn_laws T view" "db_laws D view contents" and total: "txn_total T" "db_commits D"
    and sep: "separated I" and ids: "\<And>i. i \<in> I \<Longrightarrow> id_stable i"
  shows "conforming_store (badger_store D T close) (badger_WriteTx T) (badger_at I contents) (kv_tx_at I view) I"
proof -
  have W: "wt_PutPerson (badger_WriteTx T) = badger_PutPerson T"
    "wt_PutRelationship (badger_WriteTx T) = badger_PutRelationship T"
    "wt_DeleteRelationship (badger_WriteTx T) = badger_DeleteRelationship T"
    "wt_PutSource (badger_WriteTx T) = badger_PutSource T"
    "wt_PutProposal (badger_WriteTx T) = badger_PutProposal T"
    by (simp_all add: badger_WriteTx_def)
  have tx: "kv_tx_at I view G \<lparr>bt_tx = db_NewTransaction D True d, bt_version = v\<rparr> G" if "badger_at I contents d v G" for d v G
    using that laws(2) by (simp add: kv_tx_at_def badger_at_def db_laws_def)
  show ?thesis
  proof (unfold_locales, goal_cases)
    case (1 i) then show ?case by (rule ids)
  next
    case (2 d v G)
    then show ?case using shows_contents [OF laws, of d v] by (simp add: badger_store_def badger_at_def shows_version_def)
  next
    case (3 d v G)
    then obtain r where r: "badger_View D T d = Inr r" "view (bt_tx r) = contents d" "bt_version r = v"
      using shows_contents [OF laws, of d v] by (auto simp: badger_at_def shows_version_def)
    with 3 have "reads_graph (badger_ReadTx T r) G"
      by (intro badger_reads [OF laws(1) sep]) (simp add: badger_at_def)
    with r show ?case by (simp add: badger_store_def) (simp add: badger_ReadTx_def)
  next
    case (4 d v G f G')
    have v: "holds_version (contents d) v" using 4(1) by (simp add: badger_at_def)
    from 4(3) [OF tx [OF 4(1)]] obtain w where
      w: "f \<lparr>bt_tx = db_NewTransaction D True d, bt_version = v\<rparr> = Some (Inr (w, ()))" "kv_at I (view (bt_tx w)) G'"
      by (auto simp: kv_tx_at_def)
    from badger_commit [where f = f and d = d, OF laws v total w(1)] w(2) show ?case
      by (auto simp: badger_store_def badger_at_def kv_at_def kv_ok_put(6))
  next
    case (5 d v G f P)
    have v: "holds_version (contents d) v" using 5(1) by (simp add: badger_at_def)
    from 5(2) [OF tx [OF 5(1)]] obtain e where
      "f \<lparr>bt_tx = db_NewTransaction D True d, bt_version = v\<rparr> = Some (Inl e)" "P e" by blast
    with badger_Update_run(1) [OF laws v, of f] 5(1) show ?case
      by (auto simp: badger_store_def badger_at_def)
  qed (simp_all only: W, (rule badger_steps [OF laws(1) total(1) sep] badger_fails [OF laws(1) sep]; assumption)+)
qed


section \<open>Properties\<close>

lemma NewStore_limits:
  "store_ok (NewStore (map WithHistoryLimit ns))" "ms_current (NewStore (map WithHistoryLimit ns)) = emptyState"
proof -
  have "ms_current (fold (\<lambda>opt st. opt st) (map WithHistoryLimit ns) s) = ms_current s \<and>
      ms_history (fold (\<lambda>opt st. opt st) (map WithHistoryLimit ns) s) = ms_history s \<and>
      ms_closed (fold (\<lambda>opt st. opt st) (map WithHistoryLimit ns) s) = ms_closed s" for s
    by (induction ns arbitrary: s) simp_all
  then show "store_ok (NewStore (map WithHistoryLimit ns))"
    "ms_current (NewStore (map WithHistoryLimit ns)) = emptyState"
    by (simp_all add: NewStore_def Let_def store_ok_def)
qed

text \<open>
  C16: the in-memory adapter passes the conformance suite. Whatever history limits it is opened with,
  and whatever distinct ids in normal form \<open>NewID\<close> draws, every one of the sixteen tests passes on a
  new store; in particular no order in which Go ranges over a map makes one fail.
\<close>

theorem memory_conformance:
  assumes "\<And>name. inj_on (ids name) {..<7}" and "\<And>name n. id_stable (ids name n)"
  shows "Run mem_store mem_WriteTx (NewStore (map WithHistoryLimit ns)) ids = all_pass"
proof (rule mem_conforms.all_tests_pass)
  show "mem_at (NewStore (map WithHistoryLimit ns)) 0 empty_graph"
    using NewStore_limits [of ns] by (simp add: mem_at_def)
  show "draws (Collect id_stable) (ids name)" for name
    using assms by (auto simp: draws_def)
qed

text \<open>Ids of which none is the start of another.\<close>

definition sample_draws :: "string \<Rightarrow> nat \<Rightarrow> ID" where
  "sample_draws _ n = replicate n CHR ''x'' @ ''y''"

lemma sample_draws_prefix: "prefix (sample_draws a m) (sample_draws b n) \<longleftrightarrow> m = n"
proof (induction m arbitrary: n)
  case 0
  show ?case by (cases n) (simp_all add: sample_draws_def)
next
  case (Suc m)
  then show ?case by (cases n) (simp_all add: sample_draws_def)
qed

lemma sample_draws_ok:
  "inj_on (sample_draws name) A" "id_stable (sample_draws name n)" "separated (\<Union>name. range (sample_draws name))"
proof -
  show "inj_on (sample_draws name) A"
    by (rule inj_onI) (metis prefix_order.refl sample_draws_prefix)
  have "visible (hd (sample_draws name n))"
    by (cases n) (simp_all add: sample_draws_def visible_def)
  then have "trim_space (sample_draws name n) = sample_draws name n"
    by (rule trim_space_visible [rotated]) (simp_all add: sample_draws_def visible_def)
  moreover have "is_ascii (sample_draws name n)"
    by (induction n) (simp_all add: sample_draws_def is_ascii_def)
  then have "utf8 (sample_draws name n)" by (rule utf8_ascii)
  ultimately show "id_stable (sample_draws name n)"
    by (simp add: id_stable_def) (simp add: sample_draws_def)
  have "sample_draws x a = sample_draws y b" if "prefix (sample_draws x a) (sample_draws y b)" for x a y b
    using that unfolding sample_draws_prefix by (simp add: sample_draws_def)
  moreover have "sep \<notin> set (sample_draws x a)" for x a by (simp add: sample_draws_def sep_def)
  ultimately show "separated (\<Union>name. range (sample_draws name))"
    unfolding separated_def by blast
qed

theorem memory_conformance_witness:
  "Run mem_store mem_WriteTx (NewStore [WithHistoryLimit 3]) sample_draws = all_pass"
  using memory_conformance [of sample_draws "[3]"] sample_draws_ok by simp

text \<open>
  C30: the persistent adapter passes the conformance suite on a new database, when no write and no
  commit of the library fails, the ids that \<open>NewID\<close> draws are distinct and in normal form, and none
  holds the separator or is the start of another.
\<close>

theorem badger_conformance:
  fixes D :: "('d, 't, Version, Version \<times> unit) DB"
  assumes laws: "txn_laws T view" "db_laws D view contents" and total: "txn_total T" "db_commits D"
    and new: "contents d = [metaVersionKey \<mapsto> PutUint64 0]"
    and ids: "\<And>name. inj_on (ids name) {..<7}" "\<And>name n. id_stable (ids name n)"
      "separated (\<Union>name. range (ids name))"
  shows "Run (badger_store D T close) (badger_WriteTx T) d ids = all_pass"
proof (rule conforming_store.all_tests_pass)
  let ?I = "\<Union>name. range (ids name)"
  show "conforming_store (badger_store D T close) (badger_WriteTx T) (badger_at ?I contents) (kv_tx_at ?I view) ?I"
    using ids(2) by (intro badger_conforms [OF laws total ids(3)]) auto
  have "kv_ok [metaVersionKey \<mapsto> PutUint64 0]" "kv_graph [metaVersionKey \<mapsto> PutUint64 0] = empty_graph"
    using new_tx_ok by (simp_all add: new_tx_def)
  then show "badger_at ?I contents d 0 empty_graph"
    by (simp add: badger_at_def kv_at_def new)
  show "draws ?I (ids name)" for name
    using ids(1) by (auto simp: draws_def)
qed

theorem badger_conformance_witness:
  "Run (badger_store alist_db alist_txn (\<lambda>d. d)) (badger_WriteTx alist_txn) [(metaVersionKey, PutUint64 0)]
     sample_draws = all_pass"
  using badger_conformance [OF alist_txn_laws alist_db_laws(1) alist_txn_total alist_db_laws(2) _ sample_draws_ok]
  by simp

end
