(* ===== verification/Governance.thy ===== *)
theory Governance
  imports MemoryStore
begin

text \<open>
  Applying proposals (src/governance/apply.go): the payload schemas, the moves \<open>Submit\<close>, \<open>Claim\<close>,
  \<open>Withdraw\<close>, \<open>Reject\<close> and \<open>Accept\<close>, and the mutation that acceptance performs, operation by
  operation, with the cycle check. The code is written against the interfaces \<open>store.Store\<close> and
  \<open>store.WriteTx\<close>, and so are the definitions.

  What is not in the repository is an argument: \<open>env_newID\<close> is the identifier that the uuid package
  draws for this call, and \<open>env_person\<close>, \<open>env_rel\<close>, \<open>env_source\<close> are \<open>json.Unmarshal\<close> of a payload
  into its schema (which \<open>Payloads\<close> defines; what is proved here holds for every reading).
\<close>

section \<open>Payloads\<close>

record PayloadCreatePerson =
  PP_NewID :: ID
  PP_Names :: "Name list"
  PP_Gender :: Gender
  PP_Birth :: TimeRange
  PP_Death :: TimeRange
  PP_Notes :: string
  PP_UnknownAncestor :: bool

record PayloadCreateRelationship =
  PR_NewID :: ID
  PR_From :: ID
  PR_To :: ID
  PR_Type :: RelationshipType
  PR_Certainty :: Certainty
  PR_Continuity :: Continuity
  PR_TimeRange :: TimeRange
  PR_Notes :: string
  PR_Sources :: "ID list"

record PayloadCreateSource =
  PS_NewID :: ID
  PS_Type :: SourceType
  PS_Citation :: string
  PS_Author :: string
  PS_Title :: string
  PS_Date :: string
  PS_Locator :: string
  PS_Notes :: string

record Env =
  env_newID :: ID
  env_person :: "string \<Rightarrow> error + PayloadCreatePerson"
  env_rel :: "string \<Rightarrow> error + PayloadCreateRelationship"
  env_source :: "string \<Rightarrow> error + PayloadCreateSource"

definition bad_payload :: "Proposal \<Rightarrow> string \<Rightarrow> error \<Rightarrow> error" where
  "bad_payload p kind e =
     Wrap CodeInvalidArgument (''proposal '' @ Q_id p @ '': bad '' @ kind @ '' payload'') e"

definition choose_id :: "Env \<Rightarrow> ID \<Rightarrow> ID" where
  "choose_id env i = (if ID_IsZero i then env_newID env else i)"


section \<open>The cycle check\<close>

text \<open>The callback of the inner iteration: the stack, and whether the parent was found.\<close>

definition cycle_yield :: "ID \<Rightarrow> Relationship \<Rightarrow> ID list \<times> bool \<Rightarrow> (ID list \<times> bool) \<times> bool" where
  "cycle_yield parent rel c =
     (if R_to rel = parent then ((fst c, True), False)
      else ((fst c @ [R_to rel], snd c), True))"

text \<open>
  The outer loop; the top of the stack is its last element. It is partial, because nothing in the
  code bounds the nodes that \<open>IterateChildren\<close> leads to: \<open>None\<close> is a loop that does not end.
\<close>

partial_function (option) cycle_loop ::
    "ReadTx \<Rightarrow> ID \<Rightarrow> ID list \<Rightarrow> ID set \<Rightarrow> (error, bool) partial_res" where
  "cycle_loop R parent stack visited =
     (if stack = [] then Some (Inr False)
      else if last stack \<in> visited then cycle_loop R parent (butlast stack) visited
      else
        (case run_iter (rt_IterateChildren R (last stack)) (cycle_yield parent)
                (butlast stack, False) of
           ((stack', found), Some e) \<Rightarrow> Some (Inl e)
         | ((stack', found), None) \<Rightarrow>
             if found then Some (Inr True)
             else cycle_loop R parent stack' (insert (last stack) visited)))"

definition wouldCreateCycle :: "ReadTx \<Rightarrow> ID \<Rightarrow> ID \<Rightarrow> (error, bool) partial_res" where
  "wouldCreateCycle R parent child =
     (if parent = child then Some (Inr True) else cycle_loop R parent [child] {})"


section \<open>Applying one proposal\<close>

definition liftP :: "error + 'a \<Rightarrow> (error, 'a) partial_res" where
  "liftP r = Some r"

definition create_person :: "Env \<Rightarrow> 's WriteTx \<Rightarrow> Proposal \<Rightarrow> 's \<Rightarrow> error + 's" where
  "create_person env W p s =
     (case env_person env (Q_payload p) of
        Inl e \<Rightarrow> Inl (bad_payload p ''person'' e)
      | Inr pl \<Rightarrow>
          let i = choose_id env (PP_NewID pl) in
          if PP_UnknownAncestor pl then
            (if PP_Names pl \<noteq> [] \<or> PP_Gender pl \<noteq> GenderUnset \<or> \<not> TimeRange_IsZero (PP_Birth pl) \<or>
                \<not> TimeRange_IsZero (PP_Death pl) \<or> PP_Notes pl \<noteq> ''''
             then Inl (New CodeFabricationAttempt (''proposal '' @ Q_id p
                    @ '': unknown-ancestor payload contains substantive attributes''))
             else bindE (NewUnknownAncestor i) (\<lambda>ua. wt_PutPerson W ua s))
          else
            bindE (NewPerson i \<lparr>PO_Names = PP_Names pl, PO_Gender = PP_Gender pl,
                     PO_Birth = PP_Birth pl, PO_Death = PP_Death pl, PO_Notes = PP_Notes pl\<rparr>)
              (\<lambda>person. wt_PutPerson W person s))"

definition create_relationship ::
    "Env \<Rightarrow> 's WriteTx \<Rightarrow> Proposal \<Rightarrow> 's \<Rightarrow> (error, 's) partial_res" where
  "create_relationship env W p s =
     (case env_rel env (Q_payload p) of
        Inl e \<Rightarrow> Some (Inl (bad_payload p ''relationship'' e))
      | Inr pl \<Rightarrow>
          let i = choose_id env (PR_NewID pl) in
          bindP (liftP (NewRelationship i (PR_From pl) (PR_To pl) (PR_Type pl) (PR_Certainty pl)
                   (PR_Continuity pl) \<lparr>RO_TimeRange = PR_TimeRange pl, RO_Notes = PR_Notes pl,
                     RO_Sources = PR_Sources pl\<rparr>))
            (\<lambda>rel.
               if R_type rel = RelTypeParentChild then
                 bindP (wouldCreateCycle (wt_Read W s) (R_from rel) (R_to rel))
                   (\<lambda>cyc. if cyc
                      then Some (Inl (New CodeCycleDetected (''proposal '' @ Q_id p
                             @ '': parent-child edge '' @ R_from rel @ '' -> '' @ R_to rel
                             @ '' would create a cycle'')))
                      else liftP (wt_PutRelationship W rel s))
               else liftP (wt_PutRelationship W rel s)))"

definition create_source :: "Env \<Rightarrow> 's WriteTx \<Rightarrow> Proposal \<Rightarrow> 's \<Rightarrow> error + 's" where
  "create_source env W p s =
     (case env_source env (Q_payload p) of
        Inl e \<Rightarrow> Inl (bad_payload p ''source'' e)
      | Inr pl \<Rightarrow>
          let i = choose_id env (PS_NewID pl) in
          bindE (NewSource i (PS_Type pl) (PS_Citation pl)
                   \<lparr>SO_Author = PS_Author pl, SO_Title = PS_Title pl, SO_Date = PS_Date pl,
                    SO_Locator = PS_Locator pl, SO_Notes = PS_Notes pl\<rparr>)
            (\<lambda>src. wt_PutSource W src s))"

definition applyCreate :: "Env \<Rightarrow> 's WriteTx \<Rightarrow> Proposal \<Rightarrow> 's \<Rightarrow> (error, 's) partial_res" where
  "applyCreate env W p s =
     (if Q_entityKind p = EntityKindPerson then liftP (create_person env W p s)
      else if Q_entityKind p = EntityKindRelationship then create_relationship env W p s
      else if Q_entityKind p = EntityKindSource then liftP (create_source env W p s)
      else Some (Inl (New CodeInvalidArgument (''proposal '' @ Q_id p
             @ '': unsupported entity kind '' @ EntityKind_String (Q_entityKind p)
             @ '' for Create''))))"

definition applyUpdate :: "'s WriteTx \<Rightarrow> Proposal \<Rightarrow> 's \<Rightarrow> error + 's" where
  "applyUpdate W p s =
     Inl (New CodeInvalidArgument
       (''proposal '' @ Q_id p @ '': Update action not yet implemented''))"

text \<open>The three probes for an incident edge; each stops at the first value, errors are ignored.\<close>

definition has_incident :: "ReadTx \<Rightarrow> ID \<Rightarrow> bool" where
  "has_incident R target =
     (let flag = (\<lambda>_ _. (True, False));
          incident1 = fst (run_iter (rt_IterateChildren R target) flag False);
          incident2 = (if \<not> incident1
            then fst (run_iter (rt_IterateParents R target) flag incident1) else incident1);
          incident3 = (if \<not> incident2
            then fst (run_iter (rt_IterateMarriages R target) flag incident2) else incident2)
      in incident3)"

definition applyRetract :: "'s WriteTx \<Rightarrow> Proposal \<Rightarrow> 's \<Rightarrow> error + 's" where
  "applyRetract W p s =
     (if ID_IsZero (Q_targetID p)
      then Inl (New CodeInvalidArgument (''proposal '' @ Q_id p @ '': Retract requires TargetID''))
      else if Q_entityKind p = EntityKindPerson then
        (if has_incident (wt_Read W s) (Q_targetID p)
         then Inl (New CodeInvalidArgument (''proposal '' @ Q_id p @ '': person ''
                @ Q_targetID p @ '' still has incident relationships''))
         else wt_DeletePerson W (Q_targetID p) s)
      else if Q_entityKind p = EntityKindRelationship
      then wt_DeleteRelationship W (Q_targetID p) s
      else if Q_entityKind p = EntityKindSource then wt_DeleteSource W (Q_targetID p) s
      else Inl (New CodeInvalidArgument (''proposal '' @ Q_id p @ '': unsupported entity kind ''
             @ EntityKind_String (Q_entityKind p) @ '' for Retract'')))"

text \<open>The loop of \<open>applyMerge\<close> over the collected edges.\<close>

fun merge_loop :: "'s WriteTx \<Rightarrow> ID \<Rightarrow> ID \<Rightarrow> Relationship list \<Rightarrow> 's \<Rightarrow> error + 's" where
  "merge_loop W target secondary [] s = Inr s"
| "merge_loop W target secondary (r # rs) s =
     (let from = (if R_from r = secondary then target else R_from r);
          to = (if R_to r = secondary then target else R_to r)
      in if from = to
         then bindE (wt_DeleteRelationship W (R_id r) s) (\<lambda>s'. merge_loop W target secondary rs s')
         else bindE (NewRelationship (R_id r) from to (R_type r) (R_certainty r) (R_continuity r)
                       \<lparr>RO_TimeRange = R_timeRange r, RO_Notes = R_notes r,
                        RO_Sources = R_sources r\<rparr>)
           (\<lambda>newRel. bindE (wt_DeleteRelationship W (R_id r) s)
           (\<lambda>s1. bindE (wt_PutRelationship W newRel s1)
           (\<lambda>s2. merge_loop W target secondary rs s2))))"

definition touching_yield ::
    "ID \<Rightarrow> Relationship \<Rightarrow> Relationship list \<Rightarrow> Relationship list \<times> bool" where
  "touching_yield secondary r acc =
     (if R_from r = secondary \<or> R_to r = secondary then acc @ [r] else acc, True)"

definition applyMerge :: "'s WriteTx \<Rightarrow> Proposal \<Rightarrow> 's \<Rightarrow> error + 's" where
  "applyMerge W p s =
     (let target = Q_targetID p; secondary = Q_secondaryID p in
      if ID_IsZero target \<or> ID_IsZero secondary \<or> target = secondary
      then Inl (New CodeInvalidArgument
             (''proposal '' @ Q_id p @ '': Merge requires distinct TargetID and SecondaryID''))
      else bindE (rt_GetPerson (wt_Read W s) target)
        (\<lambda>_. bindE (rt_GetPerson (wt_Read W s) secondary)
        (\<lambda>_. case run_iter (rt_IterateRelationships (wt_Read W s)) (touching_yield secondary) [] of
            (touching, Some e) \<Rightarrow> Inl e
          | (touching, None) \<Rightarrow>
              bindE (merge_loop W target secondary touching s)
                (\<lambda>s'. wt_DeletePerson W secondary s'))))"

definition applySameAs :: "'s WriteTx \<Rightarrow> Proposal \<Rightarrow> 's \<Rightarrow> error + 's" where
  "applySameAs W p s =
     bindE (rt_GetPerson (wt_Read W s) (Q_targetID p))
       (\<lambda>target.
          let note = P_notes target;
              addition = ''[same-as:'' @ Q_secondaryID p @ '']'';
              note' = (if note \<noteq> '''' then note @ [CHR 0x0A] @ addition else addition)
          in bindE (NewPerson (P_id target)
                 \<lparr>PO_Names = P_names target, PO_Gender = P_gender target, PO_Birth = P_birth target,
                  PO_Death = P_death target, PO_Notes = note'\<rparr>)
               (\<lambda>updated. wt_PutPerson W updated s))"

definition apply_proposal :: "Env \<Rightarrow> 's WriteTx \<Rightarrow> Proposal \<Rightarrow> 's \<Rightarrow> (error, 's) partial_res" where
  "apply_proposal env W p s =
     (if Q_action p = ProposalActionCreate then applyCreate env W p s
      else if Q_action p = ProposalActionUpdate then liftP (applyUpdate W p s)
      else if Q_action p = ProposalActionRetract then liftP (applyRetract W p s)
      else if Q_action p = ProposalActionMerge then liftP (applyMerge W p s)
      else if Q_action p = ProposalActionSameAsLink then liftP (applySameAs W p s)
      else Some (Inl (New CodeInvalidArgument (''proposal '' @ Q_id p @ '': unsupported action ''
             @ ProposalAction_String (Q_action p)))))"


section \<open>The moves of a proposal\<close>

text \<open>The callbacks that the moves pass to \<open>Update\<close>; their second component is \<open>out\<close>.\<close>

definition accept_tx ::
    "Env \<Rightarrow> 's WriteTx \<Rightarrow> ID \<Rightarrow> string \<Rightarrow> int \<Rightarrow> 's \<Rightarrow> (error, 's \<times> Proposal) partial_res" where
  "accept_tx env W propID actor ts s =
     bindP (liftP (rt_GetProposal (wt_Read W s) propID))
       (\<lambda>p. bindP (liftP (Transition p ProposalAccepted actor ts ''''))
       (\<lambda>updated. bindP (apply_proposal env W updated s)
       (\<lambda>s1. bindP (liftP (wt_PutProposal W updated s1))
       (\<lambda>s2. Some (Inr (s2, updated))))))"

definition transition_tx ::
    "'s WriteTx \<Rightarrow> ID \<Rightarrow> ProposalState \<Rightarrow> string \<Rightarrow> int \<Rightarrow> string \<Rightarrow> 's \<Rightarrow>
     (error, 's \<times> Proposal) partial_res" where
  "transition_tx W propID to actor ts reason s =
     bindP (liftP (rt_GetProposal (wt_Read W s) propID))
       (\<lambda>p. bindP (liftP (Transition p to actor ts reason))
       (\<lambda>updated. bindP (liftP (wt_PutProposal W updated s))
       (\<lambda>s1. Some (Inr (s1, updated)))))"

text \<open>The result of \<open>Update\<close> without the version.\<close>

definition drop_version ::
    "((error + Version \<times> 'o) \<times> 'st) option \<Rightarrow> ((error + 'o) \<times> 'st) option" where
  "drop_version = map_option (\<lambda>(r, st). (case r of Inl e \<Rightarrow> Inl e | Inr (v, out) \<Rightarrow> Inr out, st))"

definition Accept ::
    "Env \<Rightarrow> ('st, 's, Proposal) Store \<Rightarrow> 's WriteTx \<Rightarrow> ID \<Rightarrow> string \<Rightarrow> int \<Rightarrow> 'st \<Rightarrow>
     ((error + Proposal) \<times> 'st) option" where
  "Accept env S W propID actor ts st =
     drop_version (sto_Update S (accept_tx env W propID actor ts) st)"

definition transitionInStore ::
    "('st, 's, Proposal) Store \<Rightarrow> 's WriteTx \<Rightarrow> ID \<Rightarrow> ProposalState \<Rightarrow> string \<Rightarrow> int \<Rightarrow> string \<Rightarrow>
     'st \<Rightarrow> ((error + Proposal) \<times> 'st) option" where
  "transitionInStore S W propID to actor ts reason st =
     drop_version (sto_Update S (transition_tx W propID to actor ts reason) st)"

definition Submit ::
    "('st, 's, Proposal) Store \<Rightarrow> 's WriteTx \<Rightarrow> ID \<Rightarrow> string \<Rightarrow> int \<Rightarrow> 'st \<Rightarrow>
     ((error + Proposal) \<times> 'st) option" where
  "Submit S W propID actor ts st =
     transitionInStore S W propID ProposalSubmitted actor ts '''' st"

definition Claim ::
    "('st, 's, Proposal) Store \<Rightarrow> 's WriteTx \<Rightarrow> ID \<Rightarrow> string \<Rightarrow> int \<Rightarrow> 'st \<Rightarrow>
     ((error + Proposal) \<times> 'st) option" where
  "Claim S W propID actor ts st =
     transitionInStore S W propID ProposalUnderReview actor ts '''' st"

definition Withdraw ::
    "('st, 's, Proposal) Store \<Rightarrow> 's WriteTx \<Rightarrow> ID \<Rightarrow> string \<Rightarrow> int \<Rightarrow> string \<Rightarrow> 'st \<Rightarrow>
     ((error + Proposal) \<times> 'st) option" where
  "Withdraw S W propID actor ts reason st =
     transitionInStore S W propID ProposalWithdrawn actor ts reason st"

definition Reject ::
    "('st, 's, Proposal) Store \<Rightarrow> 's WriteTx \<Rightarrow> ID \<Rightarrow> string \<Rightarrow> int \<Rightarrow> string \<Rightarrow> 'st \<Rightarrow>
     ((error + Proposal) \<times> 'st) option" where
  "Reject S W propID actor ts reason st =
     transitionInStore S W propID ProposalRejected actor ts reason st"


section \<open>The cycle check decides reachability\<close>

lemma iterate_cycle:
  "iterate (cycle_yield parent) rs err (st, False) =
     (if \<exists>r \<in> set rs. R_to r = parent
      then ((st @ map R_to (takeWhile (\<lambda>r. R_to r \<noteq> parent) rs), True), None)
      else ((st @ map R_to rs, False), err))"
  by (induction rs arbitrary: st) (auto simp: cycle_yield_def)

lemma run_cycle:
  assumes "snd it = None"
  shows "run_iter it (cycle_yield parent) (st, False) =
    (if parent \<in> R_to ` set (fst it)
     then ((st @ map R_to (takeWhile (\<lambda>e. R_to e \<noteq> parent) (fst it)), True), None)
     else ((st @ map R_to (fst it), False), None))"
  unfolding run_iter_def iterate_cycle assms by auto

text \<open>
  The invariant of the loop for the search from \<open>child\<close>, on any reader whose iterator over children
  offers the successors in a relation \<open>E\<close> for what is met: only what \<open>E\<close> reaches from the child is met, no
  visited node has the parent as a child, and the children of a visited node are visited or
  still on the stack.
\<close>

lemma cycle_loop_reach:
  assumes fin: "finite (E\<^sup>* `` {child})"
    and E: "\<And>n. (child, n) \<in> E\<^sup>* \<Longrightarrow> R_to ` set (fst (rt_IterateChildren R n)) = E `` {n}"
      "\<And>n. (child, n) \<in> E\<^sup>* \<Longrightarrow> snd (rt_IterateChildren R n) = None"
    and "child \<in> set stack \<union> visited"
    and "set stack \<union> visited \<subseteq> E\<^sup>* `` {child}"
    and "\<And>v. v \<in> visited \<Longrightarrow> parent \<notin> E `` {v}"
    and "\<And>v. v \<in> visited \<Longrightarrow> E `` {v} \<subseteq> set stack \<union> visited"
  shows "cycle_loop R parent stack visited = Some (Inr ((child, parent) \<in> E\<^sup>+))"
  using assms(4-)
proof (induction "(stack, visited)" arbitrary: stack visited
    rule: wf_induct_rule [OF wf_measures [of "[\<lambda>(st, vis). card (E\<^sup>* `` {child} - vis),
      \<lambda>(st, vis). length st]"]])
  case (1 stack visited)
  let ?n = "last stack"
  let ?rs = "fst (rt_IterateChildren R ?n)"
  note inv = 1(2-5)
  show ?case
  proof (cases "stack = []")
    case True
    have "(child, v) \<in> E\<^sup>* \<Longrightarrow> v \<in> visited" for v
      by (induction rule: rtrancl_induct) (use inv True in auto)
    then have "(child, parent) \<notin> E\<^sup>+"
      using inv(3) by (meson ImageI singletonI tranclD2)
    with True show ?thesis by (simp add: cycle_loop.simps)
  next
    case ne: False
    then have split: "set stack = insert ?n (set (butlast stack))"
      by (metis append_butlast_last_id list.simps(15) rotate1.simps(2) set_rotate1)
    have reach: "(child, ?n) \<in> E\<^sup>*" using inv(2) split by auto
    have succ: "R_to ` set ?rs = E `` {?n}" by (rule E(1) [OF reach])
    have noerr: "snd (rt_IterateChildren R ?n) = None" by (rule E(2) [OF reach])
    show ?thesis
    proof (cases "?n \<in> visited")
      case True
      have "cycle_loop R parent (butlast stack) visited =
          Some (Inr ((child, parent) \<in> E\<^sup>+))"
        by (rule 1(1)) (use inv split True ne in auto)
      with ne True show ?thesis by (simp add: cycle_loop.simps [of _ _ stack])
    next
      case new: False
      note it = run_cycle [OF noerr, of parent "butlast stack", unfolded succ]
      show ?thesis
      proof (cases "parent \<in> E `` {?n}")
        case True
        with reach have "(child, parent) \<in> E\<^sup>+" by (auto intro: rtrancl_into_trancl1)
        with ne new True it show ?thesis by (simp add: cycle_loop.simps [of _ _ stack])
      next
        case False
        let ?stack' = "butlast stack @ map R_to ?rs"
        have set': "set ?stack' = set (butlast stack) \<union> E `` {?n}" using succ by simp
        from fin have smaller: "card (E\<^sup>* `` {child} - insert ?n visited) <
            card (E\<^sup>* `` {child} - visited)"
          using reach new by (intro psubset_card_mono) auto
        have "cycle_loop R parent ?stack' (insert ?n visited) =
            Some (Inr ((child, parent) \<in> E\<^sup>+))"
          by (rule 1(1)) (use inv split smaller reach False in
            \<open>auto simp: set' simp del: set_append set_map intro: rtrancl_into_rtrancl\<close>)
        with ne new False it show ?thesis by (simp add: cycle_loop.simps [of _ _ stack])
      qed
    qed
  qed
qed

lemma wouldCreateCycle_reach:
  assumes "finite (E\<^sup>* `` {child})"
    and "\<And>n. (child, n) \<in> E\<^sup>* \<Longrightarrow> R_to ` set (fst (rt_IterateChildren R n)) = E `` {n}"
    and "\<And>n. (child, n) \<in> E\<^sup>* \<Longrightarrow> snd (rt_IterateChildren R n) = None"
  shows "wouldCreateCycle R parent child = Some (Inr ((child, parent) \<in> E\<^sup>*))"
  using cycle_loop_reach [of E child R "[child]" "{}" parent] assms
  by (auto simp: wouldCreateCycle_def rtrancl_eq_or_trancl)

context graph_reader
begin

lemma wouldCreateCycle_correct:
  assumes "ok r"
  shows "wouldCreateCycle (rd r) parent child = Some (Inr ((child, parent) \<in> (pc_rel (gr r))\<^sup>*))"
  using finite_pc_rel [OF assms] children_pc_rel [OF assms] children_no_error [OF assms]
  by (intro wouldCreateCycle_reach) simp_all

end

end
