(* ===== verification/Effects.thy ===== *)
theory Effects
  imports Governance
begin

text \<open>
  What a merge does to the graph, for every adapter that keeps the contract \<open>graph_tx\<close>, with the two
  graph invariants (\<open>graph_wf\<close>: no dangling edge, every entity valid; acyclicity of the parent-child
  relation) under it; and the contract \<open>graph_store\<close> of a whole store, kept by the memory adapter.
\<close>

section \<open>The specification of a merge\<close>

text \<open>The edge \<open>r\<close> after the person \<open>x\<close> is folded into \<open>t\<close>; \<open>None\<close> if it becomes a self-loop.\<close>

definition merge_rel :: "ID \<Rightarrow> ID \<Rightarrow> Relationship \<Rightarrow> Relationship option" where
  "merge_rel t x r =
     (let from = (if R_from r = x then t else R_from r); to = (if R_to r = x then t else R_to r)
      in if from = to then None else Some (r\<lparr>R_from := from, R_to := to\<rparr>))"

definition merge_graph :: "ID \<Rightarrow> ID \<Rightarrow> Graph \<Rightarrow> Graph" where
  "merge_graph t x G = G\<lparr>g_persons := (g_persons G)(x := None),
     g_rels := (\<lambda>i. Option.bind (g_rels G i) (merge_rel t x))\<rparr>"

lemma merge_rel_untouched:
  "R_from r \<noteq> x \<Longrightarrow> R_to r \<noteq> x \<Longrightarrow> R_from r \<noteq> R_to r \<Longrightarrow> merge_rel t x r = Some r"
  by (simp add: merge_rel_def)

lemma merge_rel_Some:
  assumes "merge_rel t x r = Some r'" and "Relationship_wf r" and "t \<noteq> ''''"
  shows "R_id r' = R_id r" and "Relationship_wf r'"
    and "R_from r' \<in> {t, R_from r}" and "R_to r' \<in> {t, R_to r}"
    and "t \<noteq> x \<Longrightarrow> R_from r' \<noteq> x \<and> R_to r' \<noteq> x"
  using assms
  by (auto simp: merge_rel_def Let_def Relationship_wf_def edge_ok_def split: if_splits)

lemma graph_wf_merge [wf_intros]:
  assumes G: "graph_wf G" and t: "g_persons G t \<noteq> None" "t \<noteq> x"
  shows "graph_wf (merge_graph t x G)"
proof -
  have "t \<noteq> ''''" using G t(1) by (rule graph_wf_id)
  have "R_id r' = i \<and> Relationship_wf r' \<and> R_from r' \<in> dom (g_persons G) - {x} \<and>
      R_to r' \<in> dom (g_persons G) - {x}"
    if "Option.bind (g_rels G i) (merge_rel t x) = Some r'" for i r'
  proof -
    from that obtain r where r: "g_rels G i = Some r" and m: "merge_rel t x r = Some r'"
      by (auto simp: bind_eq_Some_conv)
    note wf = graph_wf_rel [OF G r]
    with merge_rel_Some [OF m _ \<open>t \<noteq> ''''\<close>] t show ?thesis by auto
  qed
  with G show ?thesis by (simp add: graph_wf_def merge_graph_def)
qed


lemma pc_rel_put:
  "pc_rel (G\<lparr>g_rels := (g_rels G)(i \<mapsto> r)\<rparr>) \<subseteq>
     (if is_pc r then insert (R_from r, R_to r) (pc_rel G) else pc_rel G)"
  by (fastforce simp: pc_rel_def ran_def split: if_splits)

lemma pc_rel_del: "pc_rel (G\<lparr>g_rels := (g_rels G)(i := None)\<rparr>) \<subseteq> pc_rel G"
  by (fastforce simp: pc_rel_def ran_def split: if_splits)

lemma pc_rel_upd [simp]:
  "pc_rel (G\<lparr>g_persons := P\<rparr>) = pc_rel G"
  "pc_rel (G\<lparr>g_sources := S\<rparr>) = pc_rel G"
  "pc_rel (G\<lparr>g_props := Q\<rparr>) = pc_rel G"
  by (simp_all add: pc_rel_def)


text \<open>
  When a merge keeps the parent-child relation acyclic: the merged relation is the image of the
  old one under the folding of \<open>x\<close> into \<open>t\<close>, so a new cycle goes through \<open>t\<close>, and gives a path
  between the two persons.
\<close>

abbreviation fold_into :: "ID \<Rightarrow> ID \<Rightarrow> ID \<Rightarrow> ID" where
  "fold_into t x a \<equiv> (if a = x then t else a)"

lemma pc_rel_merge:
  "(a, b) \<in> pc_rel (merge_graph t x G) \<Longrightarrow>
   \<exists>a' b'. (a', b') \<in> pc_rel G \<and> fold_into t x a' = a \<and> fold_into t x b' = b"
proof -
  assume "(a, b) \<in> pc_rel (merge_graph t x G)"
  then obtain i r r' where r: "g_rels G i = Some r" "merge_rel t x r = Some r'" "is_pc r'"
    and ab: "a = R_from r'" "b = R_to r'"
    by (auto simp: pc_rel_def ran_def merge_graph_def bind_eq_Some_conv)
  then have "(R_from r, R_to r) \<in> pc_rel G" "a = fold_into t x (R_from r)"
    "b = fold_into t x (R_to r)"
    by (auto simp: pc_rel_def ran_def merge_rel_def Let_def is_pc_def split: if_splits)
  then show ?thesis by blast
qed

lemma merge_path_from_target:
  assumes "(t, b) \<in> (pc_rel (merge_graph t x G))\<^sup>+"
  shows "\<exists>p b'. (p, b') \<in> (pc_rel G)\<^sup>+ \<and> p \<in> {t, x} \<and> fold_into t x b' = b"
  using assms
proof (induction rule: trancl_induct)
  case (base b)
  from pc_rel_merge [OF this] obtain p b' where
    "(p, b') \<in> pc_rel G" "fold_into t x p = t" "fold_into t x b' = b" by blast
  then show ?case by (intro exI [of _ p] exI [of _ b']) (auto split: if_splits)
next
  case (step b c)
  from pc_rel_merge [OF step.hyps(2)] obtain b2 c' where
    e: "(b2, c') \<in> pc_rel G" "fold_into t x b2 = b" "fold_into t x c' = c" by blast
  from step.IH obtain p b' where
    p: "(p, b') \<in> (pc_rel G)\<^sup>+" "p \<in> {t, x}" "fold_into t x b' = b" by blast
  from e(2) p(3) consider "b2 = b'" | "b2 \<in> {t, x}" by (auto split: if_splits)
  then show ?case
  proof cases
    case 1
    with p(1) e(1) have "(p, c') \<in> (pc_rel G)\<^sup>+" by (auto intro: trancl_into_trancl)
    with p(2) e(3) show ?thesis by blast
  next
    case 2
    with e(1,3) show ?thesis by blast
  qed
qed

lemma merge_path:
  assumes "(a, b) \<in> (pc_rel (merge_graph t x G))\<^sup>+"
  shows "(\<exists>a' b'. (a', b') \<in> (pc_rel G)\<^sup>+ \<and> fold_into t x a' = a \<and> fold_into t x b' = b) \<or>
    (a, t) \<in> (pc_rel (merge_graph t x G))\<^sup>* \<and> (t, b) \<in> (pc_rel (merge_graph t x G))\<^sup>*"
  using assms
proof (induction rule: trancl_induct)
  case (base b)
  then show ?case by (blast dest: pc_rel_merge)
next
  case (step b c)
  from pc_rel_merge [OF step.hyps(2)] obtain b2 c' where
    e: "(b2, c') \<in> pc_rel G" "fold_into t x b2 = b" "fold_into t x c' = c" by blast
  show ?case
  proof (cases "b = t")
    case True
    with step.hyps show ?thesis by (auto dest: trancl_into_rtrancl)
  next
    case False
    with e(2) have "b2 = b" by (auto split: if_splits)
    with False e step.hyps(2) step.IH show ?thesis
      by (auto split: if_splits intro: trancl_into_trancl rtrancl_into_rtrancl)
  qed
qed

lemma acyclic_merge:
  assumes acyc: "acyclic (pc_rel G)" and no: "(t, x) \<notin> (pc_rel G)\<^sup>+" "(x, t) \<notin> (pc_rel G)\<^sup>+"
    and "t \<noteq> x"
  shows "acyclic (pc_rel (merge_graph t x G))"
proof -
  let ?E = "pc_rel G" and ?E' = "pc_rel (merge_graph t x G)"
  have loop: "(p, q) \<notin> ?E\<^sup>+" if "p \<in> {t, x}" "q \<in> {t, x}" for p q
    using that no acyc by (auto simp: acyclic_def)
  have tt: "(t, t) \<notin> ?E'\<^sup>+"
  proof
    assume "(t, t) \<in> ?E'\<^sup>+"
    from merge_path_from_target [OF this] obtain p b' where
      "(p, b') \<in> ?E\<^sup>+" "p \<in> {t, x}" "fold_into t x b' = t" by blast
    with loop show False by (metis insertCI)
  qed
  have "(a, a) \<notin> ?E'\<^sup>+" for a
  proof
    assume a: "(a, a) \<in> ?E'\<^sup>+"
    show False
    proof (cases "a = t")
      case False
      from merge_path [OF a] show False
      proof
        assume "\<exists>a' b'. (a', b') \<in> ?E\<^sup>+ \<and> fold_into t x a' = a \<and> fold_into t x b' = a"
        with False acyc show False by (auto simp: acyclic_def split: if_splits)
      next
        assume "(a, t) \<in> ?E'\<^sup>* \<and> (t, a) \<in> ?E'\<^sup>*"
        with False tt show False by (metis rtranclD trancl_rtrancl_trancl)
      qed
    qed (use a tt in simp)
  qed
  then show ?thesis by (simp add: acyclic_def)
qed


section \<open>A merge against the contract\<close>

text \<open>The graphs that an adapter can store.\<close>

definition storable ::
    "(Person \<Rightarrow> bool) \<Rightarrow> (Relationship \<Rightarrow> bool) \<Rightarrow> (Source \<Rightarrow> bool) \<Rightarrow> (Proposal \<Rightarrow> bool) \<Rightarrow> Graph \<Rightarrow> bool"
  where
  "storable okp okr oks okq G \<longleftrightarrow>
     (\<forall>p \<in> ran (g_persons G). okp p) \<and> (\<forall>r \<in> ran (g_rels G). okr r) \<and>
     (\<forall>x \<in> ran (g_sources G). oks x) \<and> (\<forall>q \<in> ran (g_props G). okq q)"

lemma storable_all [simp]: "storable (\<lambda>_. True) (\<lambda>_. True) (\<lambda>_. True) (\<lambda>_. True) G"
  by (simp add: storable_def)

lemma storableD:
  assumes "storable okp okr oks okq G"
  shows "g_persons G i = Some p \<Longrightarrow> okp p" and "g_rels G i = Some r \<Longrightarrow> okr r"
    and "g_sources G i = Some x \<Longrightarrow> oks x" and "g_props G i = Some q \<Longrightarrow> okq q"
  using assms by (auto simp: storable_def ran_def)

context graph_tx
begin

lemma merge_loop_effect:
  assumes "inv s" and "t \<noteq> x" and "t \<noteq> ''''" and "g_persons (view s) t \<noteq> None"
    and "distinct (map R_id rs)"
    and "\<And>r. r \<in> set rs \<Longrightarrow> g_rels (view s) (R_id r) = Some r \<and> Relationship_wf r \<and>
      g_persons (view s) (R_from r) \<noteq> None \<and> g_persons (view s) (R_to r) \<noteq> None"
    and "\<And>r e. r \<in> set rs \<Longrightarrow> merge_rel t x r = Some e \<Longrightarrow> okr e"
  shows "\<exists>s'. merge_loop W t x rs s = Inr s' \<and> inv s' \<and> base s' = base s \<and>
    view s' = (view s)\<lparr>g_rels := (\<lambda>i. if i \<in> R_id ` set rs
       then Option.bind (g_rels (view s) i) (merge_rel t x) else g_rels (view s) i)\<rparr>"
  using assms
proof (induction rs arbitrary: s)
  case Nil
  then show ?case by simp
next
  case (Cons r rs)
  let ?from = "if R_from r = x then t else R_from r" and ?to = "if R_to r = x then t else R_to r"
  let ?m = "merge_rel t x r"
  from Cons.prems(6) [of r] have r: "g_rels (view s) (R_id r) = Some r" "Relationship_wf r"
    "g_persons (view s) (R_from r) \<noteq> None" "g_persons (view s) (R_to r) \<noteq> None" by auto
  from del_rel [OF Cons.prems(1), of "R_id r"] r(1) obtain s1 where
    s1: "wt_DeleteRelationship W (R_id r) s = Inr s1" "inv s1" "base s1 = base s"
      "view s1 = (view s)\<lparr>g_rels := (g_rels (view s))(R_id r := None)\<rparr>" by auto
  have step: "\<exists>s2. merge_loop W t x (r # rs) s = merge_loop W t x rs s2 \<and> inv s2 \<and>
      base s2 = base s \<and> view s2 = (view s)\<lparr>g_rels := (g_rels (view s))(R_id r := ?m)\<rparr>"
  proof (cases "?from = ?to")
    case True
    then have "?m = None" by (simp add: merge_rel_def Let_def)
    with True s1 show ?thesis by (intro exI [of _ s1]) (simp add: Let_def)
  next
    case False
    let ?new = "r\<lparr>R_from := ?from, R_to := ?to\<rparr>"
    from False have m: "?m = Some ?new" by (simp add: merge_rel_def Let_def)
    have wf: "Relationship_wf ?new" by (rule merge_rel_Some(2) [OF m r(2) Cons.prems(3)])
    then have new: "NewRelationship (R_id r) ?from ?to (R_type r) (R_certainty r)
        (R_continuity r) \<lparr>RO_TimeRange = R_timeRange r, RO_Notes = R_notes r,
          RO_Sources = R_sources r\<rparr> = Inr ?new"
      by (cases r) (simp add: NewRelationship_Inr Relationship_wf_def)
    have "okr ?new" using Cons.prems(7) [of r] m by simp
    moreover have "g_persons (view s1) (R_from ?new) \<noteq> None" "g_persons (view s1) (R_to ?new) \<noteq> None"
      using r(3,4) s1(4) Cons.prems(4) by auto
    ultimately obtain s2 where "wt_PutRelationship W ?new s1 = Inr s2" "inv s2" "base s2 = base s1"
        "view s2 = (view s1)\<lparr>g_rels := (g_rels (view s1))(R_id ?new \<mapsto> ?new)\<rparr>"
      using put_rel [OF s1(2) wf] by blast
    with s1 new m False show ?thesis by (intro exI [of _ s2]) (simp add: Let_def)
  qed
  then obtain s2 where s2: "merge_loop W t x (r # rs) s = merge_loop W t x rs s2" "inv s2"
      "base s2 = base s" "view s2 = (view s)\<lparr>g_rels := (g_rels (view s))(R_id r := ?m)\<rparr>" by blast
  have notin: "R_id r \<notin> R_id ` set rs" using Cons.prems(5) by simp
  have ok: "okr e" if "r' \<in> set rs" "merge_rel t x r' = Some e" for r' e
    using Cons.prems(7) [of r' e] that by simp
  have "\<exists>s'. merge_loop W t x rs s2 = Inr s' \<and> inv s' \<and> base s' = base s2 \<and>
    view s' = (view s2)\<lparr>g_rels := (\<lambda>i. if i \<in> R_id ` set rs
       then Option.bind (g_rels (view s2) i) (merge_rel t x) else g_rels (view s2) i)\<rparr>"
  proof (rule Cons.IH)
    fix e assume e: "e \<in> set rs"
    then have "R_id e \<noteq> R_id r" using notin by (metis imageI)
    with Cons.prems(6) [of e] e show "g_rels (view s2) (R_id e) = Some e \<and> Relationship_wf e \<and>
      g_persons (view s2) (R_from e) \<noteq> None \<and> g_persons (view s2) (R_to e) \<noteq> None"
      by (simp add: s2(4))
  qed (use Cons.prems(1-5) s2 ok in simp_all)
  then show ?case
    using s2 notin r(1) by (fastforce simp: fun_eq_iff)
qed

lemma touching_list:
  "run_iter it (touching_yield x) [] =
     (filter (\<lambda>r. R_from r = x \<or> R_to r = x) (fst it), snd it)"
proof -
  have "touching_yield x = (\<lambda>r acc. (if R_from r = x \<or> R_to r = x then acc @ [r] else acc, True))"
    by (simp add: touching_yield_def fun_eq_iff)
  moreover have "fold (\<lambda>r acc. if R_from r = x \<or> R_to r = x then acc @ [r] else acc) rs acc =
      acc @ filter (\<lambda>r. R_from r = x \<or> R_to r = x) rs" for rs acc :: "Relationship list"
    by (induction rs arbitrary: acc) auto
  ultimately show ?thesis by (simp add: run_iter_all)
qed

text \<open>A merge of two existing persons succeeds and produces the merged graph, when it can be stored.\<close>

lemma applyMerge_effect:
  assumes s: "inv s" "view s = base s" and G: "graph_wf (view s)"
    and p: "g_persons (view s) (Q_targetID p) \<noteq> None" "g_persons (view s) (Q_secondaryID p) \<noteq> None"
      "Q_targetID p \<noteq> Q_secondaryID p"
    and ok: "storable okp okr oks (\<lambda>_. True) (merge_graph (Q_targetID p) (Q_secondaryID p) (view s))"
  shows "\<exists>s'. applyMerge W p s = Inr s' \<and> inv s' \<and> base s' = base s \<and>
    view s' = merge_graph (Q_targetID p) (Q_secondaryID p) (view s)"
proof -
  let ?t = "Q_targetID p" and ?x = "Q_secondaryID p"
  let ?rs = "fst (rt_IterateRelationships (wt_Read W s))"
  let ?touch = "filter (\<lambda>r. R_from r = ?x \<or> R_to r = ?x) ?rs"
  from p obtain pt px where pt: "g_persons (view s) ?t = Some pt" "g_persons (view s) ?x = Some px"
    by auto
  have ids: "?t \<noteq> ''''" "?x \<noteq> ''''"
    using G p(1,2) by (blast dest: graph_wf_id)+
  have enum: "enumerates (rt_IterateRelationships (wt_Read W s)) (ran (g_rels (view s)))"
    using s by (intro IterateRelationships) simp
  have wfr: "g_rels (view s) (R_id r) = Some r \<and> Relationship_wf r \<and>
      g_persons (view s) (R_from r) \<noteq> None \<and> g_persons (view s) (R_to r) \<noteq> None"
    if "r \<in> set ?touch" for r
    using graph_wf_ran_rel [OF G, of r] that enum by (auto simp: enumerates_def)
  have "inj_on R_id (set ?touch)"
    by (intro inj_onI) (metis wfr option.inject)
  then have dist: "distinct (map R_id ?touch)"
    using enum by (simp add: distinct_map enumerates_def)
  have okr: "okr e" if "r \<in> set ?touch" "merge_rel ?t ?x r = Some e" for r e
    using storableD(2) [OF ok, of "R_id r" e] wfr [OF that(1)] that(2) by (simp add: merge_graph_def)
  obtain s1 where s1: "merge_loop W ?t ?x ?touch s = Inr s1" "inv s1" "base s1 = base s"
    "view s1 = (view s)\<lparr>g_rels := (\<lambda>i. if i \<in> R_id ` set ?touch
       then Option.bind (g_rels (view s) i) (merge_rel ?t ?x) else g_rels (view s) i)\<rparr>"
    using merge_loop_effect [OF s(1) p(3) ids(1) p(1) dist wfr] okr by blast
  have rest: "Option.bind (g_rels (view s) i) (merge_rel ?t ?x) = g_rels (view s) i"
    if "i \<notin> R_id ` set ?touch" for i
  proof (cases "g_rels (view s) i")
    case (Some r)
    then have "r \<in> set ?rs" using enum by (auto simp: enumerates_def ran_def)
    with that Some have "R_from r \<noteq> ?x" "R_to r \<noteq> ?x"
      using graph_wf_rel [OF G Some] by auto
    with Some show ?thesis
      using graph_wf_rel [OF G Some] by (simp add: merge_rel_untouched wf_dests(4))
  qed simp
  have "g_persons (view s1) ?x \<noteq> None" using p s1(4) by simp
  from del_person [OF s1(2) this] obtain s2 where s2: "wt_DeletePerson W ?x s1 = Inr s2" "inv s2"
    "base s2 = base s" "view s2 = (view s1)\<lparr>g_persons := (g_persons (view s1))(?x := None)\<rparr>"
    using s1(3) by auto
  have "view s2 = merge_graph ?t ?x (view s)"
    unfolding s2(4) s1(4) merge_graph_def by (simp add: fun_eq_iff rest)
  moreover have "applyMerge W p s = Inr s2"
    using lookup_specD(1) [OF get_person [OF s(1)]] pt ids p(3) s1 s2 enum
    by (simp add: applyMerge_def Let_def touching_list enumerates_def)
  ultimately show ?thesis using s2 by auto
qed

lemma has_incident_iff:
  assumes "inv s" and "view s = base s" and "graph_wf (view s)"
  shows "has_incident (wt_Read W s) n \<longleftrightarrow> (\<exists>e \<in> ran (g_rels (view s)). R_from e = n \<or> R_to e = n)"
  using incident_any [of s n] assms
  by (auto simp: has_incident_def Let_def run_iter_flag)

lemma applyMerge_Inr:
  assumes "inv s" and "applyMerge W p s = Inr s'"
  shows "g_persons (view s) (Q_targetID p) \<noteq> None" "g_persons (view s) (Q_secondaryID p) \<noteq> None"
    "Q_targetID p \<noteq> Q_secondaryID p"
  using assms lookup_spec_Inr [OF get_person [OF assms(1)]]
  by (auto simp: applyMerge_def Let_def bindE_eq_Inr split: if_splits)

end


section \<open>The contract of a store\<close>

text \<open>
  \<open>Update\<close> runs its callback on a transaction that shows the current graph with nothing pending;
  if the callback does not return, neither does \<open>Update\<close>; if it fails, the store is unchanged; if
  it succeeds, the new graph is the one the transaction showed.
\<close>

locale graph_store =
  graph_tx W view base inv okp okr oks okq
  for W :: "'s WriteTx" and view :: "'s \<Rightarrow> Graph" and base :: "'s \<Rightarrow> Graph" and inv :: "'s \<Rightarrow> bool"
    and okp :: "Person \<Rightarrow> bool" and okr :: "Relationship \<Rightarrow> bool" and oks :: "Source \<Rightarrow> bool"
    and okq :: "Proposal \<Rightarrow> bool" +
  fixes S :: "('st, 's, Proposal) Store" and graph :: "'st \<Rightarrow> Graph" and live :: "'st \<Rightarrow> bool"
  assumes update: "live st \<Longrightarrow> \<exists>s0. inv s0 \<and> view s0 = graph st \<and> base s0 = graph st \<and>
    (case f s0 of
       None \<Rightarrow> sto_Update S f st = None
     | Some (Inl e) \<Rightarrow> sto_Update S f st = Some (Inl e, st)
     | Some (Inr (s1, out)) \<Rightarrow> inv s1 \<longrightarrow>
         (\<exists>v st'. sto_Update S f st = Some (Inr (v, out), st') \<and> live st' \<and> graph st' = view s1))"
begin

text \<open>
  A callback that refines a specification of the graph gives an update that does: it returns, fails
  without a trace where the specification refuses, and commits its graph where that can be stored.
\<close>

lemma update_refines:
  assumes st: "live st"
    and f: "\<And>s. inv s \<Longrightarrow> view s = graph st \<Longrightarrow> base s = graph st \<Longrightarrow> \<exists>r. f s = Some r \<and>
      (case spec of None \<Rightarrow> \<exists>e. r = Inl e
       | Some (q, G') \<Rightarrow> storable okp okr oks okq G' \<longrightarrow> (\<exists>s'. r = Inr (s', q) \<and> inv s' \<and> view s' = G'))"
  shows "case spec of
      None \<Rightarrow> \<exists>e. drop_version (sto_Update S f st) = Some (Inl e, st)
    | Some (q, G') \<Rightarrow> storable okp okr oks okq G' \<longrightarrow>
        (\<exists>st'. drop_version (sto_Update S f st) = Some (Inr q, st') \<and> live st' \<and> graph st' = G')"
proof -
  from update [OF st, of f] obtain s where s: "inv s" "view s = graph st" "base s = graph st"
    and u: "case f s of None \<Rightarrow> sto_Update S f st = None
     | Some (Inl e) \<Rightarrow> sto_Update S f st = Some (Inl e, st)
     | Some (Inr (s1, out)) \<Rightarrow> inv s1 \<longrightarrow>
         (\<exists>v st'. sto_Update S f st = Some (Inr (v, out), st') \<and> live st' \<and> graph st' = view s1)"
    by blast
  from f [OF s] obtain r where "f s = Some r"
    and "case spec of None \<Rightarrow> \<exists>e. r = Inl e
       | Some (q, G') \<Rightarrow> storable okp okr oks okq G' \<longrightarrow> (\<exists>s'. r = Inr (s', q) \<and> inv s' \<and> view s' = G')"
    by blast
  with u show ?thesis
    by (cases spec) (auto simp: drop_version_def)
qed

end


section \<open>The memory adapter keeps the contract\<close>

definition mem_graph :: "MemStore \<Rightarrow> Graph" where
  "mem_graph s = state_graph (ms_current s)"

definition mem_live :: "MemStore \<Rightarrow> bool" where
  "mem_live s \<longleftrightarrow> \<not> ms_closed s \<and> state_ok (ms_current s)"

interpretation mem_gov: graph_store mem_WriteTx tx_view tx_base tx_inv
  "\<lambda>_. True" "\<lambda>_. True" "\<lambda>_. True" "\<lambda>_. True" mem_store mem_graph mem_live
proof (unfold_locales, goal_cases)
  case (1 st f)
  then have "tx_inv (newWriteTx (ms_current st))" by (simp add: mem_live_def)
  with 1 show ?case
    by (intro exI [of _ "newWriteTx (ms_current st)"])
      (auto simp: mem_live_def mem_graph_def mem_store_def Update_def Let_def commitState_graph
        commitState_ok split: option.split sum.split)
qed

end
