(* ===== verification/ApplySpec.thy ===== *)
theory ApplySpec
  imports Effects
begin

text \<open>
  The abstract specification of an applied proposal: what package governance promises to do to the
  graph, written over the abstract graph alone, without transactions, iterators, constructors or
  error texts (\<open>apply_spec\<close>). The refinement lemma \<open>apply_refines\<close> shows that \<open>apply\<close> of
  src/governance/apply.go, run on any transaction of the contract \<open>graph_tx\<close>, succeeds exactly when
  the specification allows the proposal, and then shows the graph that the specification gives.
\<close>

section \<open>The specification\<close>

definition spec_person :: "Env \<Rightarrow> PayloadCreatePerson \<Rightarrow> Person" where
  "spec_person env pl =
     (if PP_UnknownAncestor pl
      then \<lparr>P_id = choose_id env (PP_NewID pl), P_names = [], P_gender = GenderUnset,
            P_birth = zero_TimeRange, P_death = zero_TimeRange, P_notes = '''', P_unknown = True\<rparr>
      else \<lparr>P_id = choose_id env (PP_NewID pl), P_names = PP_Names pl, P_gender = PP_Gender pl,
            P_birth = PP_Birth pl, P_death = PP_Death pl, P_notes = PP_Notes pl, P_unknown = False\<rparr>)"

text \<open>A payload that claims to be a placeholder and still carries a substantive attribute.\<close>

definition fabricated :: "PayloadCreatePerson \<Rightarrow> bool" where
  "fabricated pl \<longleftrightarrow> PP_UnknownAncestor pl \<and>
     \<not> (PP_Names pl = [] \<and> PP_Gender pl = GenderUnset \<and> TimeRange_IsZero (PP_Birth pl) \<and>
        TimeRange_IsZero (PP_Death pl) \<and> PP_Notes pl = '''')"

definition spec_edge :: "Env \<Rightarrow> PayloadCreateRelationship \<Rightarrow> Relationship" where
  "spec_edge env pl = \<lparr>R_id = choose_id env (PR_NewID pl), R_from = PR_From pl, R_to = PR_To pl,
     R_type = PR_Type pl, R_certainty = PR_Certainty pl, R_continuity = PR_Continuity pl,
     R_timeRange = PR_TimeRange pl, R_notes = PR_Notes pl, R_sources = PR_Sources pl\<rparr>"

definition spec_source :: "Env \<Rightarrow> PayloadCreateSource \<Rightarrow> Source" where
  "spec_source env pl = \<lparr>S_id = choose_id env (PS_NewID pl),
     S_type = (if PS_Type pl = '''' then SourceTypeOther else PS_Type pl),
     S_citation = PS_Citation pl, S_author = PS_Author pl, S_title = PS_Title pl,
     S_date = PS_Date pl, S_locator = PS_Locator pl, S_notes = PS_Notes pl\<rparr>"

definition create_spec :: "Env \<Rightarrow> Proposal \<Rightarrow> Graph \<Rightarrow> Graph option" where
  "create_spec env q G =
     (if Q_entityKind q = EntityKindPerson then
        (case env_person env (Q_payload q) of Inl _ \<Rightarrow> None | Inr pl \<Rightarrow>
          let x = spec_person env pl in
          if Person_wf x \<and> \<not> fabricated pl
          then Some (G\<lparr>g_persons := (g_persons G)(P_id x \<mapsto> x)\<rparr>) else None)
      else if Q_entityKind q = EntityKindRelationship then
        (case env_rel env (Q_payload q) of Inl _ \<Rightarrow> None | Inr pl \<Rightarrow>
          let x = spec_edge env pl in
          if Relationship_wf x \<and> {R_from x, R_to x} \<subseteq> dom (g_persons G) \<and>
             (is_pc x \<longrightarrow> (R_to x, R_from x) \<notin> (pc_rel G)\<^sup>*)
          then Some (G\<lparr>g_rels := (g_rels G)(R_id x \<mapsto> x)\<rparr>) else None)
      else if Q_entityKind q = EntityKindSource then
        (case env_source env (Q_payload q) of Inl _ \<Rightarrow> None | Inr pl \<Rightarrow>
          let x = spec_source env pl in
          if Source_wf x then Some (G\<lparr>g_sources := (g_sources G)(S_id x \<mapsto> x)\<rparr>) else None)
      else None)"

definition retract_spec :: "Proposal \<Rightarrow> Graph \<Rightarrow> Graph option" where
  "retract_spec q G =
     (let t = Q_targetID q in
      if Q_entityKind q = EntityKindPerson then
        (if t \<in> dom (g_persons G) \<and> (\<forall>r \<in> ran (g_rels G). R_from r \<noteq> t \<and> R_to r \<noteq> t)
         then Some (G\<lparr>g_persons := (g_persons G)(t := None)\<rparr>) else None)
      else if Q_entityKind q = EntityKindRelationship then
        (if t \<in> dom (g_rels G) then Some (G\<lparr>g_rels := (g_rels G)(t := None)\<rparr>) else None)
      else if Q_entityKind q = EntityKindSource then
        (if t \<in> dom (g_sources G) then Some (G\<lparr>g_sources := (g_sources G)(t := None)\<rparr>) else None)
      else None)"

definition merge_spec :: "Proposal \<Rightarrow> Graph \<Rightarrow> Graph option" where
  "merge_spec q G =
     (if Q_targetID q \<noteq> Q_secondaryID q \<and> {Q_targetID q, Q_secondaryID q} \<subseteq> dom (g_persons G)
      then Some (merge_graph (Q_targetID q) (Q_secondaryID q) G) else None)"

text \<open>The note that a same-as link leaves on its target; the secondary person is not looked at.\<close>

definition same_as_note :: "string \<Rightarrow> ID \<Rightarrow> string" where
  "same_as_note note secondary =
     (if note = '''' then '''' else note @ [CHR 0x0A]) @ ''[same-as:'' @ secondary @ '']''"

definition same_as_spec :: "Proposal \<Rightarrow> Graph \<Rightarrow> Graph option" where
  "same_as_spec q G =
     (case g_persons G (Q_targetID q) of None \<Rightarrow> None
      | Some x \<Rightarrow> if P_unknown x then None
          else Some (G\<lparr>g_persons := (g_persons G)(Q_targetID q \<mapsto>
                 x\<lparr>P_notes := same_as_note (P_notes x) (Q_secondaryID q)\<rparr>)\<rparr>))"

definition apply_spec :: "Env \<Rightarrow> Proposal \<Rightarrow> Graph \<Rightarrow> Graph option" where
  "apply_spec env q G =
     (if Q_action q = ProposalActionCreate then create_spec env q G
      else if Q_action q = ProposalActionRetract then retract_spec q G
      else if Q_action q = ProposalActionMerge then merge_spec q G
      else if Q_action q = ProposalActionSameAsLink then same_as_spec q G
      else None)"

text \<open>Acceptance: the proposal under review, moved on, and its mutation.\<close>

definition accepted :: "Proposal \<Rightarrow> string \<Rightarrow> int \<Rightarrow> Proposal" where
  "accepted p actor ts = WithStateUnchecked p ProposalAccepted
     \<lparr>T_From = ProposalUnderReview, T_To = ProposalAccepted, T_Actor = actor, T_Timestamp = ts,
      T_Reason = ''''\<rparr>"

definition accept_spec :: "Env \<Rightarrow> ID \<Rightarrow> string \<Rightarrow> int \<Rightarrow> Graph \<Rightarrow> (Proposal \<times> Graph) option" where
  "accept_spec env i actor ts G =
     (case g_props G i of None \<Rightarrow> None
      | Some p \<Rightarrow> if Q_state p = ProposalUnderReview then
          (let q = accepted p actor ts in
           case apply_spec env q G of None \<Rightarrow> None
           | Some G' \<Rightarrow> Some (q, G'\<lparr>g_props := (g_props G')(i \<mapsto> q)\<rparr>))
         else None)"

text \<open>Every other move changes the proposal only.\<close>

definition move_spec ::
    "ID \<Rightarrow> ProposalState \<Rightarrow> string \<Rightarrow> int \<Rightarrow> string \<Rightarrow> Graph \<Rightarrow> (Proposal \<times> Graph) option" where
  "move_spec i to actor ts reason G =
     (case g_props G i of None \<Rightarrow> None
      | Some p \<Rightarrow> if CanTransition (Q_state p) to \<and> \<not> (to = ProposalRejected \<and> reason = '''') then
          (let q = WithStateUnchecked p to \<lparr>T_From = Q_state p, T_To = to, T_Actor = actor,
                     T_Timestamp = ts, T_Reason = reason\<rparr>
           in Some (q, G\<lparr>g_props := (g_props G)(i \<mapsto> q)\<rparr>))
         else None)"


lemma kinds_distinct [simp]:
  "EntityKindPerson \<noteq> EntityKindRelationship" "EntityKindPerson \<noteq> EntityKindSource"
  "EntityKindRelationship \<noteq> EntityKindPerson" "EntityKindRelationship \<noteq> EntityKindSource"
  "EntityKindSource \<noteq> EntityKindPerson" "EntityKindSource \<noteq> EntityKindRelationship"
  by (simp_all add: go_consts)


section \<open>The invariants of the specification\<close>

lemma apply_spec_props: "apply_spec env q G = Some G' \<Longrightarrow> g_props G' = g_props G"
  by (auto simp: apply_spec_def create_spec_def retract_spec_def merge_spec_def same_as_spec_def
      merge_graph_def Let_def split: if_splits sum.splits option.splits)

lemma create_spec_wf: "graph_wf G \<Longrightarrow> create_spec env q G = Some G' \<Longrightarrow> graph_wf G'"
  by (auto simp: create_spec_def Let_def intro!: wf_intros split: if_splits sum.splits)

lemma retract_spec_wf: "graph_wf G \<Longrightarrow> retract_spec q G = Some G' \<Longrightarrow> graph_wf G'"
  by (auto simp: retract_spec_def Let_def intro!: wf_intros split: if_splits)

lemma merge_spec_wf: "graph_wf G \<Longrightarrow> merge_spec q G = Some G' \<Longrightarrow> graph_wf G'"
  by (auto simp: merge_spec_def intro!: wf_intros split: if_splits)

lemma same_as_spec_wf:
  assumes "graph_wf G" and "same_as_spec q G = Some G'"
  shows "graph_wf G'"
proof -
  from assms(2) obtain x where x: "g_persons G (Q_targetID q) = Some x" "\<not> P_unknown x"
    and G': "G' = G\<lparr>g_persons := (g_persons G)(Q_targetID q \<mapsto>
      x\<lparr>P_notes := same_as_note (P_notes x) (Q_secondaryID q)\<rparr>)\<rparr>"
    by (auto simp: same_as_spec_def split: option.splits if_splits)
  note wf = graph_wf_person [OF assms(1) x(1)]
  with x(2) have "Person_wf (x\<lparr>P_notes := same_as_note (P_notes x) (Q_secondaryID q)\<rparr>)"
    by (auto simp: Person_wf_def)
  from graph_wf_put_person [OF assms(1) this] wf show ?thesis by (simp add: G')
qed

lemma apply_spec_wf: "graph_wf G \<Longrightarrow> apply_spec env q G = Some G' \<Longrightarrow> graph_wf G'"
  by (auto simp: apply_spec_def split: if_splits
      intro: create_spec_wf retract_spec_wf merge_spec_wf same_as_spec_wf)

text \<open>Only a merge can close a cycle.\<close>

lemma apply_spec_acyclic:
  assumes acyc: "acyclic (pc_rel G)" and "apply_spec env q G = Some G'"
    and "Q_action q \<noteq> ProposalActionMerge"
  shows "acyclic (pc_rel G')"
proof -
  from assms(2,3) consider "create_spec env q G = Some G'" | "retract_spec q G = Some G'"
    | "same_as_spec q G = Some G'"
    by (auto simp: apply_spec_def split: if_splits)
  then show ?thesis
  proof cases
    case 1
    show ?thesis
    proof (cases "Q_entityKind q = EntityKindRelationship")
      case True
      with 1 obtain x where G': "G' = G\<lparr>g_rels := (g_rels G)(R_id x \<mapsto> x)\<rparr>"
        and x: "is_pc x \<longrightarrow> (R_to x, R_from x) \<notin> (pc_rel G)\<^sup>*"
        by (auto simp: create_spec_def Let_def split: sum.splits if_splits)
      from x acyc have "acyclic (if is_pc x then insert (R_from x, R_to x) (pc_rel G) else pc_rel G)"
        by simp
      then show ?thesis unfolding G' by (rule acyclic_subset) (rule pc_rel_put)
    next
      case False
      with 1 have "pc_rel G' = pc_rel G"
        by (auto simp: create_spec_def Let_def split: if_splits sum.splits)
      with acyc show ?thesis by simp
    qed
  next
    case 2
    then have "pc_rel G' \<subseteq> pc_rel G"
      using pc_rel_del by (auto simp: retract_spec_def Let_def split: if_splits)
    with acyc show ?thesis by (rule acyclic_subset)
  next
    case 3
    then have "pc_rel G' = pc_rel G"
      by (auto simp: same_as_spec_def split: option.splits if_splits)
    with acyc show ?thesis by simp
  qed
qed

lemma accepted_Transition:
  "Q_state p = ProposalUnderReview \<Longrightarrow>
   Transition p ProposalAccepted actor ts '''' = Inr (accepted p actor ts)"
  by (simp add: Transition_Inr CanTransition_cases accepted_def, simp add: go_consts)

lemma accept_spec_Some:
  assumes "accept_spec env i actor ts G = Some (q, G')"
  obtains p G1 where "g_props G i = Some p" "Q_state p = ProposalUnderReview"
    "q = accepted p actor ts" "apply_spec env q G = Some G1"
    "G' = G1\<lparr>g_props := (g_props G1)(i \<mapsto> q)\<rparr>"
  using assms by (auto simp: accept_spec_def Let_def split: option.splits if_splits)

lemma accept_spec_wf:
  assumes G: "graph_wf G" and a: "accept_spec env i actor ts G = Some (q, G')"
  shows "graph_wf G'"
proof -
  from a obtain p G1 where p: "g_props G i = Some p" "Q_state p = ProposalUnderReview"
    and q: "q = accepted p actor ts" and G1: "apply_spec env q G = Some G1"
    and G': "G' = G1\<lparr>g_props := (g_props G1)(i \<mapsto> q)\<rparr>"
    by (rule accept_spec_Some)
  have p': "Q_id p = i" "audited p" using graph_wf_prop [OF G p(1)] by simp_all
  then have "audited q" using accepted_Transition [OF p(2)] unfolding q by (blast intro: audited_step)
  moreover have "Q_id q = i" using p'(1) by (simp add: q accepted_def)
  ultimately show ?thesis
    using graph_wf_put_prop [OF apply_spec_wf [OF G G1], of q] by (simp add: G')
qed

lemma accept_spec_acyclic:
  assumes "acyclic (pc_rel G)" and "accept_spec env i actor ts G = Some (q, G')"
    and "Q_action q \<noteq> ProposalActionMerge"
  shows "acyclic (pc_rel G')"
  using assms(2)
proof (rule accept_spec_Some)
  fix p G1 assume "apply_spec env q G = Some G1" "G' = G1\<lparr>g_props := (g_props G1)(i \<mapsto> q)\<rparr>"
  with apply_spec_acyclic [OF assms(1) _ assms(3)] show ?thesis by simp
qed

lemma move_spec_Some:
  "move_spec i to actor ts reason G = Some (q, G') \<longleftrightarrow>
     (\<exists>p. g_props G i = Some p \<and> Transition p to actor ts reason = Inr q \<and>
        G' = G\<lparr>g_props := (g_props G)(i \<mapsto> q)\<rparr>)"
  by (auto simp: move_spec_def Let_def Transition_Inr split: option.splits if_splits)

lemma move_spec_wf:
  assumes G: "graph_wf G" and "move_spec i to actor ts reason G = Some (q, G')"
  shows "graph_wf G'" "pc_rel G' = pc_rel G"
proof -
  from assms(2) obtain p where p: "g_props G i = Some p" "Transition p to actor ts reason = Inr q"
    and G': "G' = G\<lparr>g_props := (g_props G)(i \<mapsto> q)\<rparr>" by (auto simp: move_spec_Some)
  have "Q_id p = i" "audited p" using graph_wf_prop [OF G p(1)] by simp_all
  with p(2) have "Q_id q = i" "audited q" by (auto simp: Transition_Inr intro: audited_step)
  with graph_wf_put_prop [OF G, of q] show "graph_wf G'" "pc_rel G' = pc_rel G" by (simp_all add: G')
qed


section \<open>The refinement\<close>

context graph_tx
begin

text \<open>
  A step of the transaction does what the specification says, wherever its graph can be stored.
\<close>

definition follows :: "error + 's \<Rightarrow> 's \<Rightarrow> Graph option \<Rightarrow> bool" where
  "follows res s spec \<longleftrightarrow> (case spec of
     None \<Rightarrow> (\<exists>e. res = Inl e)
   | Some G \<Rightarrow> storable okp okr oks (\<lambda>_. True) G \<longrightarrow>
       (\<exists>s'. res = Inr s' \<and> inv s' \<and> base s' = base s \<and> view s' = G))"

lemma follows_None [simp]: "follows (Inl e) s None"
  by (simp add: follows_def)

lemma Inr_or_Inl: "(\<And>y. r \<noteq> Inr y) \<Longrightarrow> \<exists>e. r = Inl e"
  by (cases r) auto

lemma NewPerson_follows:
  "\<not> P_unknown x \<Longrightarrow> Person_wf x \<Longrightarrow>
   NewPerson (P_id x) \<lparr>PO_Names = P_names x, PO_Gender = P_gender x, PO_Birth = P_birth x,
     PO_Death = P_death x, PO_Notes = P_notes x\<rparr> = Inr x"
  by (cases x) (simp add: NewPerson_Inr Person_wf_def list_all_iff)

lemma put_person_follows:
  "inv s \<Longrightarrow> Person_wf x \<Longrightarrow>
   follows (wt_PutPerson W x s) s (Some ((view s)\<lparr>g_persons := (g_persons (view s))(P_id x \<mapsto> x)\<rparr>))"
  using put_person [of s x] by (auto simp: follows_def dest: storableD(1) [where i = "P_id x"])

lemma put_rel_follows:
  assumes s: "inv s" and x: "Relationship_wf x"
  shows "follows (wt_PutRelationship W x s) s
    (if {R_from x, R_to x} \<subseteq> dom (g_persons (view s))
     then Some ((view s)\<lparr>g_rels := (g_rels (view s))(R_id x \<mapsto> x)\<rparr>) else None)"
proof (cases "{R_from x, R_to x} \<subseteq> dom (g_persons (view s))")
  case True
  then have "g_persons (view s) (R_from x) \<noteq> None" "g_persons (view s) (R_to x) \<noteq> None" by auto
  with put_rel [OF s x] True show ?thesis
    by (auto simp: follows_def dest: storableD(2) [where i = "R_id x"])
next
  case False
  then have "g_persons (view s) (R_from x) = None \<or> g_persons (view s) (R_to x) = None" by auto
  with put_rel_dangling [OF s Relationship_wfD(1) [OF x]] False show ?thesis
    by (auto simp: follows_def)
qed

lemma create_person_follows:
  assumes s: "inv s" and k: "Q_entityKind q = EntityKindPerson"
  shows "follows (create_person env W q s) s (create_spec env q (view s))"
proof (cases "env_person env (Q_payload q)")
  case (Inl e)
  with k show ?thesis by (simp add: create_person_def create_spec_def follows_def)
next
  case (Inr pl)
  let ?x = "spec_person env pl"
  show ?thesis
  proof (cases "Person_wf ?x \<and> \<not> fabricated pl")
    case True
    have "create_person env W q s = wt_PutPerson W ?x s"
    proof (cases "PP_UnknownAncestor pl")
      case True
      with Inr \<open>Person_wf ?x \<and> \<not> fabricated pl\<close> show ?thesis
        by (simp add: create_person_def fabricated_def Let_def spec_person_def Person_wf_def
            NewUnknownAncestor_def ID_IsZero_def)
    next
      case False
      with NewPerson_follows [of ?x] Inr \<open>Person_wf ?x \<and> \<not> fabricated pl\<close> show ?thesis
        by (simp add: create_person_def Let_def spec_person_def)
    qed
    with True Inr k put_person_follows [OF s, of ?x] show ?thesis
      by (simp add: create_spec_def Let_def)
  next
    case False
    have "\<exists>e. create_person env W q s = Inl e"
    proof (rule Inr_or_Inl)
      fix y show "create_person env W q s \<noteq> Inr y"
        using False Inr
        by (auto simp: create_person_def Let_def bindE_eq_Inr NewPerson_Inr
            NewUnknownAncestor_Inr spec_person_def fabricated_def Person_wf_def list_all_iff
            split: if_splits)
    qed
    with False Inr k show ?thesis by (auto simp: create_spec_def Let_def follows_def)
  qed
qed

lemma create_source_follows:
  assumes s: "inv s" and k: "Q_entityKind q = EntityKindSource"
  shows "follows (create_source env W q s) s (create_spec env q (view s))"
proof (cases "env_source env (Q_payload q)")
  case (Inl e)
  with k show ?thesis by (simp add: create_source_def create_spec_def follows_def go_consts)
next
  case (Inr pl)
  let ?x = "spec_source env pl"
  let ?new = "NewSource (choose_id env (PS_NewID pl)) (PS_Type pl) (PS_Citation pl)
    \<lparr>SO_Author = PS_Author pl, SO_Title = PS_Title pl, SO_Date = PS_Date pl,
     SO_Locator = PS_Locator pl, SO_Notes = PS_Notes pl\<rparr>"
  have new: "?new = Inr y \<longleftrightarrow> Source_wf ?x \<and> y = ?x" for y
    using core_source_visible [of "PS_Type pl"] core_source_visible [of SourceTypeOther]
    by (auto simp: NewSource_def Source_wf_def Let_def spec_source_def ID_IsZero_def
        SourceType_IsCore_def)
  show ?thesis
  proof (cases "Source_wf ?x")
    case True
    with new have "?new = Inr ?x" by simp
    with Inr have "create_source env W q s = wt_PutSource W ?x s"
      by (simp add: create_source_def Let_def)
    with put_source [OF s True] True Inr k show ?thesis
      by (auto simp: create_spec_def Let_def follows_def dest: storableD(3) [where i = "S_id ?x"])
  next
    case False
    with new have "\<exists>e. ?new = Inl e" by (intro Inr_or_Inl) simp
    with False Inr k show ?thesis
      by (auto simp: create_source_def create_spec_def Let_def follows_def go_consts)
  qed
qed

lemma create_relationship_follows:
  assumes s: "inv s" "view s = base s" and k: "Q_entityKind q = EntityKindRelationship"
  shows "\<exists>r. create_relationship env W q s = Some r \<and> follows r s (create_spec env q (view s))"
proof (cases "env_rel env (Q_payload q)")
  case (Inl e)
  with k show ?thesis by (simp add: create_relationship_def create_spec_def follows_def go_consts)
next
  case (Inr pl)
  let ?x = "spec_edge env pl"
  let ?new = "NewRelationship (choose_id env (PR_NewID pl)) (PR_From pl) (PR_To pl) (PR_Type pl)
    (PR_Certainty pl) (PR_Continuity pl)
    \<lparr>RO_TimeRange = PR_TimeRange pl, RO_Notes = PR_Notes pl, RO_Sources = PR_Sources pl\<rparr>"
  have new: "?new = Inr y \<longleftrightarrow> Relationship_wf ?x \<and> y = ?x" for y
    by (auto simp: NewRelationship_Inr Relationship_wf_def spec_edge_def)
  have dec: "wouldCreateCycle (wt_Read W s) a b = Some (Inr ((b, a) \<in> (pc_rel (view s))\<^sup>*))" for a b
    using s by (intro wouldCreateCycle_correct) simp
  show ?thesis
  proof (cases "Relationship_wf ?x")
    case True
    with new have n: "?new = Inr ?x" by simp
    let ?cyc = "is_pc ?x \<and> (R_to ?x, R_from ?x) \<in> (pc_rel (view s))\<^sup>*"
    have put: "follows (wt_PutRelationship W ?x s) s
        (if {R_from ?x, R_to ?x} \<subseteq> dom (g_persons (view s))
         then Some ((view s)\<lparr>g_rels := (g_rels (view s))(R_id ?x \<mapsto> ?x)\<rparr>) else None)"
      using put_rel_follows [OF s(1) True] .
    have "create_relationship env W q s =
        (if ?cyc then Some (Inl (New CodeCycleDetected (''proposal '' @ Q_id q
           @ '': parent-child edge '' @ R_from ?x @ '' -> '' @ R_to ?x @ '' would create a cycle'')))
         else Some (wt_PutRelationship W ?x s))"
      using Inr n by (simp add: create_relationship_def Let_def liftP_def dec is_pc_def)
    moreover have "create_spec env q (view s) =
        (if ?cyc then None else if {R_from ?x, R_to ?x} \<subseteq> dom (g_persons (view s))
         then Some ((view s)\<lparr>g_rels := (g_rels (view s))(R_id ?x \<mapsto> ?x)\<rparr>) else None)"
      using True Inr k by (simp add: create_spec_def Let_def go_consts)
    ultimately show ?thesis
      using put by (cases ?cyc) (simp_all add: follows_def)
  next
    case False
    with new have "\<exists>e. ?new = Inl e" by (intro Inr_or_Inl) simp
    with False Inr k show ?thesis
      by (auto simp: create_relationship_def create_spec_def Let_def follows_def go_consts liftP_def)
  qed
qed

lemma applyCreate_follows:
  assumes "inv s" and "view s = base s"
  shows "\<exists>r. applyCreate env W q s = Some r \<and> follows r s (create_spec env q (view s))"
  using create_person_follows [OF assms(1)] create_source_follows [OF assms(1)]
    create_relationship_follows [OF assms]
  by (simp add: applyCreate_def liftP_def) (simp add: create_spec_def follows_def)

lemma applyRetract_follows:
  assumes s: "inv s" "view s = base s" and G: "graph_wf (view s)"
  shows "follows (applyRetract W q s) s (retract_spec q (view s))"
proof (cases "ID_IsZero (Q_targetID q)")
  case True
  with graph_wf_no_empty_id [OF G] show ?thesis
    by (auto simp: applyRetract_def retract_spec_def Let_def follows_def ID_IsZero_def dom_def)
next
  case False
  let ?t = "Q_targetID q"
  have "follows (wt_DeletePerson W ?t s) s (if ?t \<in> dom (g_persons (view s))
      then Some ((view s)\<lparr>g_persons := (g_persons (view s))(?t := None)\<rparr>) else None)"
    using del_person [OF s(1), of ?t] del_person_absent [OF s(1), of ?t]
    by (auto simp: follows_def dom_def)
  moreover have "follows (wt_DeleteRelationship W ?t s) s (if ?t \<in> dom (g_rels (view s))
      then Some ((view s)\<lparr>g_rels := (g_rels (view s))(?t := None)\<rparr>) else None)"
    using del_rel [OF s(1), of ?t] del_rel_absent [OF s(1), of ?t]
    by (auto simp: follows_def dom_def)
  moreover have "follows (wt_DeleteSource W ?t s) s (if ?t \<in> dom (g_sources (view s))
      then Some ((view s)\<lparr>g_sources := (g_sources (view s))(?t := None)\<rparr>) else None)"
    using del_source [OF s(1), of ?t] del_source_absent [OF s(1), of ?t]
    by (auto simp: follows_def dom_def)
  moreover have quiet: "(\<forall>r \<in> ran (g_rels (view s)). R_from r \<noteq> ?t \<and> R_to r \<noteq> ?t) \<longleftrightarrow>
      \<not> has_incident (wt_Read W s) ?t"
    using has_incident_iff [OF s G, of ?t] by auto
  ultimately show ?thesis
    using False unfolding applyRetract_def retract_spec_def Let_def quiet
    by (cases "has_incident (wt_Read W s) ?t") simp_all
qed

lemma applyMerge_follows:
  assumes s: "inv s" "view s = base s" and G: "graph_wf (view s)"
  shows "follows (applyMerge W q s) s (merge_spec q (view s))"
proof (cases "merge_spec q (view s)")
  case None
  have "\<exists>e. applyMerge W q s = Inl e"
    using applyMerge_Inr [OF s(1), of q] None
    by (intro Inr_or_Inl) (auto simp: merge_spec_def dom_def split: if_splits)
  with None show ?thesis by (simp add: follows_def)
next
  case (Some G')
  with applyMerge_effect [OF s G, of q] show ?thesis
    by (auto simp: merge_spec_def follows_def dom_def split: if_splits)
qed

lemma applySameAs_follows:
  assumes s: "inv s" and G: "graph_wf (view s)"
  shows "follows (applySameAs W q s) s (same_as_spec q (view s))"
proof (cases "g_persons (view s) (Q_targetID q)")
  case None
  then show ?thesis
    using lookup_specD(2) [OF get_person [OF s] None]
    by (auto simp: applySameAs_def same_as_spec_def follows_def)
next
  case (Some x)
  let ?y = "x\<lparr>P_notes := same_as_note (P_notes x) (Q_secondaryID q)\<rparr>"
  note get = lookup_specD(1) [OF get_person [OF s] Some]
  have wf: "P_id x = Q_targetID q" "Person_wf x" using graph_wf_person [OF G Some] by simp_all
  show ?thesis
  proof (cases "P_unknown x")
    case True
    with wf have "P_names x = []" by (simp add: Person_wf_def)
    then have "\<exists>e. applySameAs W q s = Inl e"
      by (simp add: applySameAs_def get NewPerson_def Let_def)
    with True Some show ?thesis by (auto simp: same_as_spec_def follows_def)
  next
    case False
    let ?n = "same_as_note (P_notes x) (Q_secondaryID q)"
    have nt: "(if P_notes x \<noteq> '''' then P_notes x @ [CHR 0x0A] @
        (''[same-as:'' @ Q_secondaryID q @ '']'') else ''[same-as:'' @ Q_secondaryID q @ '']'') = ?n"
      by (simp add: same_as_note_def)
    from False wf have y: "Person_wf ?y" by (simp add: Person_wf_def)
    have "applySameAs W q s = bindE (NewPerson (P_id x) \<lparr>PO_Names = P_names x,
        PO_Gender = P_gender x, PO_Birth = P_birth x, PO_Death = P_death x, PO_Notes = ?n\<rparr>)
        (\<lambda>updated. wt_PutPerson W updated s)"
      by (simp only: applySameAs_def get Let_def bindE_Inr nt)
    also have "\<dots> = wt_PutPerson W ?y s"
      using NewPerson_follows [of ?y] False y by simp
    finally show ?thesis
      using put_person_follows [OF s y] False Some wf by (simp add: same_as_spec_def)
  qed
qed

text \<open>The two refusals that carry a code of their own.\<close>

lemma create_fabricated:
  assumes "Q_action q = ProposalActionCreate" and "Q_entityKind q = EntityKindPerson"
    and "env_person env (Q_payload q) = Inr pl" and "fabricated pl"
  shows "\<exists>e. apply_proposal env W q s = Some (Inl e) \<and> HasCode e CodeFabricationAttempt"
  using assms
  by (auto simp: apply_proposal_def applyCreate_def create_person_def fabricated_def liftP_def
      Let_def)

lemma create_cyclic:
  assumes s: "inv s" "view s = base s" and "Q_action q = ProposalActionCreate"
    and "Q_entityKind q = EntityKindRelationship"
    and pl: "env_rel env (Q_payload q) = Inr pl" and x: "Relationship_wf (spec_edge env pl)"
      "PR_Type pl = RelTypeParentChild" "(PR_To pl, PR_From pl) \<in> (pc_rel (view s))\<^sup>*"
  shows "\<exists>e. apply_proposal env W q s = Some (Inl e) \<and> HasCode e CodeCycleDetected"
proof -
  have new: "NewRelationship (choose_id env (PR_NewID pl)) (PR_From pl) (PR_To pl) (PR_Type pl)
      (PR_Certainty pl) (PR_Continuity pl) \<lparr>RO_TimeRange = PR_TimeRange pl, RO_Notes = PR_Notes pl,
      RO_Sources = PR_Sources pl\<rparr> = Inr (spec_edge env pl)"
    using x(1) by (simp add: NewRelationship_Inr Relationship_wf_def spec_edge_def)
  have "wouldCreateCycle (wt_Read W s) (PR_From pl) (PR_To pl) = Some (Inr True)"
    using wouldCreateCycle_correct [of s "PR_From pl" "PR_To pl"] s x(3) by simp
  with assms(3,4) pl new x(2) show ?thesis
    by (simp add: apply_proposal_def applyCreate_def create_relationship_def Let_def liftP_def
        spec_edge_def)
qed

text \<open>The refinement of the whole of \<open>apply\<close>.\<close>

lemma apply_refines:
  assumes "inv s" and "view s = base s" and "graph_wf (view s)"
  shows "\<exists>r. apply_proposal env W q s = Some r \<and> follows r s (apply_spec env q (view s))"
  using applyCreate_follows [OF assms(1,2)] applyRetract_follows [OF assms]
    applyMerge_follows [OF assms] applySameAs_follows [OF assms(1,3)]
  by (simp add: apply_proposal_def apply_spec_def liftP_def applyUpdate_def go_consts)

text \<open>
  The transaction of \<open>Accept\<close>: the double check of \<open>PutProposal\<close> cannot fail any more, because an
  applied mutation leaves the proposals alone.
\<close>

lemma accept_tx_refines:
  assumes s: "inv s" "view s = base s" and G: "graph_wf (view s)"
  shows "\<exists>r. accept_tx env W i actor ts s = Some r \<and>
    (case accept_spec env i actor ts (view s) of
       None \<Rightarrow> \<exists>e. r = Inl e
     | Some (q, G') \<Rightarrow> storable okp okr oks okq G' \<longrightarrow> (\<exists>s'. r = Inr (s', q) \<and> inv s' \<and> view s' = G'))"
proof (cases "g_props (view s) i")
  case None
  then show ?thesis
    using lookup_specD(2) [OF get_prop [OF s(1)] None]
    by (auto simp: accept_tx_def accept_spec_def liftP_def)
next
  case (Some p)
  note get = lookup_specD(1) [OF get_prop [OF s(1)] Some]
  let ?q = "accepted p actor ts"
  show ?thesis
  proof (cases "Q_state p = ProposalUnderReview")
    case False
    then have "\<exists>e. Transition p ProposalAccepted actor ts '''' = Inl e"
      by (intro Inr_or_Inl) (auto simp: Transition_Inr CanTransition_cases go_consts)
    with False Some show ?thesis by (auto simp: accept_tx_def accept_spec_def liftP_def get)
  next
    case True
    note tr = accepted_Transition [OF True, of actor ts]
    obtain r where r: "apply_proposal env W ?q s = Some r"
      and f: "follows r s (apply_spec env ?q (view s))"
      using apply_refines [OF s G] by blast
    show ?thesis
    proof (cases "apply_spec env ?q (view s)")
      case None
      with f r tr True Some show ?thesis
        by (auto simp: accept_tx_def accept_spec_def liftP_def get follows_def Let_def)
    next
      case G1: (Some G1)
      let ?G = "G1\<lparr>g_props := (g_props G1)(i \<mapsto> ?q)\<rparr>"
      have spec: "accept_spec env i actor ts (view s) = Some (?q, ?G)"
        using True Some G1 by (simp add: accept_spec_def Let_def)
      have tx: "accept_tx env W i actor ts s =
          bindP (Some r) (\<lambda>s1. bindP (liftP (wt_PutProposal W ?q s1)) (\<lambda>s2. Some (Inr (s2, ?q))))"
        using tr by (simp add: accept_tx_def liftP_def get r)
      show ?thesis
      proof (cases "storable okp okr oks okq ?G")
        case False
        have "accept_tx env W i actor ts s \<noteq> None"
          unfolding tx by (auto simp: bindP_eq_None liftP_def)
        with False show ?thesis by (auto simp: spec)
      next
        case ok: True
        then have "storable okp okr oks (\<lambda>_. True) G1" by (auto simp: storable_def)
        with f G1 obtain s1 where s1: "r = Inr s1" "inv s1" "base s1 = base s" "view s1 = G1"
          by (auto simp: follows_def)
        have p: "Q_id ?q = i" "audited ?q"
          using graph_wf_prop [OF G Some] audited_step [OF _ tr] by (auto simp: accepted_def)
        have "okq ?q" by (rule storableD(4) [OF ok, of i]) simp
        moreover have "g_props (view s1) (Q_id ?q) = Some p"
          using apply_spec_props [OF G1] Some by (simp add: s1(4) p(1))
        ultimately obtain s2 where "wt_PutProposal W ?q s1 = Inr s2" "inv s2" "view s2 = ?G"
          using put_prop [OF s1(2) p(2)] s(2) Some True s1(3,4) by (auto simp: p(1))
        then show ?thesis by (simp add: spec tx s1(1) liftP_def)
      qed
    qed
  qed
qed

lemma transition_tx_refines:
  assumes s: "inv s" "view s = base s" and G: "graph_wf (view s)"
  shows "\<exists>r. transition_tx W i to actor ts reason s = Some r \<and>
    (case move_spec i to actor ts reason (view s) of
       None \<Rightarrow> \<exists>e. r = Inl e
     | Some (q, G') \<Rightarrow> storable okp okr oks okq G' \<longrightarrow> (\<exists>s'. r = Inr (s', q) \<and> inv s' \<and> view s' = G'))"
proof (cases "g_props (view s) i")
  case None
  then show ?thesis
    using lookup_specD(2) [OF get_prop [OF s(1)] None]
    by (auto simp: transition_tx_def move_spec_def liftP_def)
next
  case (Some p)
  note get = lookup_specD(1) [OF get_prop [OF s(1)] Some]
  show ?thesis
  proof (cases "Transition p to actor ts reason")
    case (Inl e)
    then have "move_spec i to actor ts reason (view s) = None"
      by (cases "move_spec i to actor ts reason (view s)") (auto simp: move_spec_Some Some)
    with Inl show ?thesis by (simp add: transition_tx_def liftP_def get)
  next
    case (Inr q)
    let ?G = "(view s)\<lparr>g_props := (g_props (view s))(i \<mapsto> q)\<rparr>"
    have spec: "move_spec i to actor ts reason (view s) = Some (q, ?G)"
      using Some Inr by (simp add: move_spec_Some)
    have q: "Q_id q = i" "audited q" "CanTransition (Q_state p) to"
      using graph_wf_prop [OF G Some] audited_step [OF _ Inr] Inr by (auto simp: Transition_Inr)
    have tx: "transition_tx W i to actor ts reason s =
        bindP (liftP (wt_PutProposal W q s)) (\<lambda>s1. Some (Inr (s1, q)))"
      using Inr by (simp add: transition_tx_def liftP_def get)
    have "\<exists>s'. wt_PutProposal W q s = Inr s' \<and> inv s' \<and> view s' = ?G" if "storable okp okr oks okq ?G"
    proof -
      have "okq q" by (rule storableD(4) [OF that, of i]) simp
      then show ?thesis
        using put_prop [OF s(1) q(2)] q(3) s(2) Some CanTransition_not_terminal by (auto simp: q(1))
    qed
    then show ?thesis
      by (cases "storable okp okr oks okq ?G") (auto simp: spec tx liftP_def bindP_def split: sum.split)
  qed
qed

end


section \<open>The moves of a store\<close>

context graph_store
begin

text \<open>The error of a mutation that fails is the error of the acceptance.\<close>

lemma Accept_error:
  assumes st: "live st" and G: "graph_wf (graph st)"
    and p: "g_props (graph st) i = Some p" "Q_state p = ProposalUnderReview"
    and err: "\<And>s. inv s \<Longrightarrow> view s = graph st \<Longrightarrow> base s = graph st \<Longrightarrow>
      \<exists>e. apply_proposal env W (accepted p actor ts) s = Some (Inl e) \<and> HasCode e c"
  shows "\<exists>e. Accept env S W i actor ts st = Some (Inl e, st) \<and> HasCode e c"
proof -
  let ?f = "accept_tx env W i actor ts"
  from update [OF st, of ?f] obtain s where s: "inv s" "view s = graph st" "base s = graph st"
    and u: "case ?f s of None \<Rightarrow> sto_Update S ?f st = None
     | Some (Inl e) \<Rightarrow> sto_Update S ?f st = Some (Inl e, st)
     | Some (Inr (s1, out)) \<Rightarrow> inv s1 \<longrightarrow>
         (\<exists>v st'. sto_Update S ?f st = Some (Inr (v, out), st') \<and> live st' \<and> graph st' = view s1)"
    by blast
  have tr: "Transition p ProposalAccepted actor ts '''' = Inr (accepted p actor ts)"
    using p(2) by (simp add: Transition_Inr CanTransition_cases accepted_def, simp add: go_consts)
  obtain e where "apply_proposal env W (accepted p actor ts) s = Some (Inl e)" "HasCode e c"
    using err [OF s] by blast
  with tr p s have "?f s = Some (Inl e)" "HasCode e c"
    using lookup_specD(1) [OF get_prop [OF s(1)], of i p] by (simp_all add: accept_tx_def liftP_def)
  with u show ?thesis by (auto simp: Accept_def drop_version_def)
qed

lemma transition_refines:
  assumes "live st" and "graph_wf (graph st)"
  shows "case move_spec i to actor ts reason (graph st) of
      None \<Rightarrow> \<exists>e. transitionInStore S W i to actor ts reason st = Some (Inl e, st)
    | Some (q, G') \<Rightarrow> storable okp okr oks okq G' \<longrightarrow>
        (\<exists>st'. transitionInStore S W i to actor ts reason st = Some (Inr q, st') \<and> live st' \<and> graph st' = G')"
  unfolding transitionInStore_def
  using transition_tx_refines [of _ i to actor ts reason] assms(2)
  by (intro update_refines [OF assms(1)]) fastforce

lemma Accept_refines:
  assumes "live st" and "graph_wf (graph st)"
  shows "case accept_spec env i actor ts (graph st) of
      None \<Rightarrow> \<exists>e. Accept env S W i actor ts st = Some (Inl e, st)
    | Some (q, G') \<Rightarrow> storable okp okr oks okq G' \<longrightarrow>
        (\<exists>st'. Accept env S W i actor ts st = Some (Inr q, st') \<and> live st' \<and> graph st' = G')"
  unfolding Accept_def
  using accept_tx_refines [of _ env i actor ts] assms(2)
  by (intro update_refines [OF assms(1)]) fastforce

end

end
