(* ===== verification/GovernanceRun.thy ===== *)
theory GovernanceRun
  imports ApplySpec
begin

text \<open>
  The governed graph: the stores that the moves of package governance reach over the memory
  adapter (\<open>gov_run\<close>), and the properties of package governance on that adapter, obtained from the
  interpretation \<open>mem_gov\<close>.
\<close>

section \<open>Runs\<close>

text \<open>
  A proposal is brought in by the caller, who stores a draft made by \<open>NewProposal\<close> in a transaction
  of its own; after that it moves by \<open>Submit\<close>, \<open>Claim\<close>, \<open>Withdraw\<close>, \<open>Reject\<close> and \<open>Accept\<close> only. The
  flag \<open>merges\<close> says whether merge proposals may be accepted.
\<close>

definition propose_tx :: "Proposal \<Rightarrow> writeTx \<Rightarrow> (error, writeTx \<times> Proposal) partial_res" where
  "propose_tx p w =
     bindP (liftP (wt_PutProposal mem_WriteTx p w)) (\<lambda>w'. Some (Inr (w', p)))"

inductive gov_run :: "bool \<Rightarrow> MemStore \<Rightarrow> bool" for merges where
  open_store: "gov_run merges (NewStore [WithHistoryLimit n])"
| propose: "gov_run merges s \<Longrightarrow> NewProposal i a k opts = Inr p \<Longrightarrow>
    Update (propose_tx p) s = Some (Inr r, s') \<Longrightarrow> gov_run merges s'"
| submit: "gov_run merges s \<Longrightarrow>
    Submit mem_store mem_WriteTx i actor ts s = Some (Inr q, s') \<Longrightarrow> gov_run merges s'"
| claim: "gov_run merges s \<Longrightarrow>
    Claim mem_store mem_WriteTx i actor ts s = Some (Inr q, s') \<Longrightarrow> gov_run merges s'"
| withdraw: "gov_run merges s \<Longrightarrow>
    Withdraw mem_store mem_WriteTx i actor ts reason s = Some (Inr q, s') \<Longrightarrow> gov_run merges s'"
| reject: "gov_run merges s \<Longrightarrow>
    Reject mem_store mem_WriteTx i actor ts reason s = Some (Inr q, s') \<Longrightarrow> gov_run merges s'"
| accept: "gov_run merges s \<Longrightarrow>
    Accept env mem_store mem_WriteTx i actor ts s = Some (Inr q, s') \<Longrightarrow>
    merges \<or> Q_action q \<noteq> ProposalActionMerge \<Longrightarrow> gov_run merges s'"

text \<open>The invariant of the governed graph.\<close>

definition governed :: "bool \<Rightarrow> MemStore \<Rightarrow> bool" where
  "governed merges s \<longleftrightarrow> mem_live s \<and> graph_wf (mem_graph s) \<and>
     (\<not> merges \<longrightarrow> acyclic (pc_rel (mem_graph s)))"

lemma governed_open: "governed m (NewStore [WithHistoryLimit n])"
  using NewStore_ok(2) [of n] graph_wf_empty
  by (simp add: governed_def mem_live_def mem_graph_def store_ok_def NewStore_def Let_def
      pc_rel_def empty_graph_def acyclic_def)

text \<open>The memory adapter can store every graph.\<close>

lemma mem_Accept_refines:
  assumes "mem_live s" and "graph_wf (mem_graph s)"
  shows "case accept_spec env i actor ts (mem_graph s) of
      None \<Rightarrow> \<exists>e. Accept env mem_store mem_WriteTx i actor ts s = Some (Inl e, s)
    | Some (q, G') \<Rightarrow> \<exists>s'. Accept env mem_store mem_WriteTx i actor ts s = Some (Inr q, s') \<and>
        mem_live s' \<and> mem_graph s' = G'"
  using mem_gov.Accept_refines [OF assms, of env i actor ts] by (auto split: option.splits)

lemma mem_transition_refines:
  assumes "mem_live s" and "graph_wf (mem_graph s)"
  shows "case move_spec i to actor ts reason (mem_graph s) of
      None \<Rightarrow> \<exists>e. transitionInStore mem_store mem_WriteTx i to actor ts reason s = Some (Inl e, s)
    | Some (q, G') \<Rightarrow> \<exists>s'. transitionInStore mem_store mem_WriteTx i to actor ts reason s =
        Some (Inr q, s') \<and> mem_live s' \<and> mem_graph s' = G'"
  using mem_gov.transition_refines [OF assms, of i to actor ts reason] by (auto split: option.splits)

lemma governed_move:
  assumes "governed m s"
    and "transitionInStore mem_store mem_WriteTx i to actor ts reason s = Some (Inr q, s')"
  shows "governed m s'"
  using mem_transition_refines [of s i to actor ts reason] assms
  by (auto simp: governed_def dest: move_spec_wf split: option.splits)

lemma mem_Accept_Inr:
  assumes "mem_live s" and "graph_wf (mem_graph s)"
    and "Accept env mem_store mem_WriteTx i actor ts s = Some (Inr q, s')"
  shows "mem_live s'" "accept_spec env i actor ts (mem_graph s) = Some (q, mem_graph s')"
  using mem_Accept_refines [OF assms(1,2), of env i actor ts] assms(3)
  by (auto split: option.splits)

lemma governed_accept:
  assumes "governed m s" and "Accept env mem_store mem_WriteTx i actor ts s = Some (Inr q, s')"
    and "m \<or> Q_action q \<noteq> ProposalActionMerge"
  shows "governed m s'"
  using mem_Accept_Inr [OF _ _ assms(2)] assms(1,3) accept_spec_wf accept_spec_acyclic
  unfolding governed_def by metis

lemma propose_effect:
  assumes live: "mem_live s" and p: "NewProposal i a k opts = Inr p"
    and u: "Update (propose_tx p) s = Some (Inr r, s')"
  shows "audited p" "mem_live s'"
    "mem_graph s' = (mem_graph s)\<lparr>g_props := (g_props (mem_graph s))(Q_id p \<mapsto> p)\<rparr>"
proof -
  show "audited p" by (rule lifecycle_audited [OF lifecycle.draft [OF p]])
  have id: "Q_id p \<noteq> ''''" using p by (simp add: NewProposal_Inr)
  obtain v out where r: "r = (v, out)" by (cases r)
  from u obtain w where w: "wt_PutProposal mem_WriteTx p (newWriteTx (ms_current s)) = Inr w"
    and s': "s' = commit_tx w s" and closed: "\<not> ms_closed s"
    by (auto simp: r Update_Inr propose_tx_def bindP_eq_Inr liftP_def)
  have "tx_inv (newWriteTx (ms_current s))" using live by (simp add: mem_live_def)
  with w id have eff: "tx_inv w"
    "tx_view w = (mem_graph s)\<lparr>g_props := (g_props (mem_graph s))(Q_id p \<mapsto> p)\<rparr>"
    by (auto simp: writeTx_PutProposal_base mem_graph_def split: option.splits)
  then show "mem_graph s' = (mem_graph s)\<lparr>g_props := (g_props (mem_graph s))(Q_id p \<mapsto> p)\<rparr>"
    by (simp add: s' mem_graph_def commitState_graph)
  show "mem_live s'" using eff(1) closed by (simp add: s' mem_live_def commitState_ok)
qed

lemma governed_propose:
  assumes g: "governed m s" and "NewProposal i a k opts = Inr p"
    and "Update (propose_tx p) s = Some (Inr r, s')"
  shows "governed m s'"
  using propose_effect [OF _ assms(2,3)] g graph_wf_put_prop by (simp add: governed_def)

lemma gov_run_governed: "gov_run m s \<Longrightarrow> governed m s"
proof (induction rule: gov_run.induct)
  case (accept s env i actor ts q s')
  then show ?case by (blast intro: governed_accept)
qed (auto simp: Submit_def Claim_def Withdraw_def Reject_def governed_open
    intro: governed_propose governed_move)


section \<open>A sample store\<close>

text \<open>
  Three placeholders in a line of descent, \<open>a\<close> to \<open>b\<close> to \<open>c\<close>, a fourth with no edge, and one
  proposal.
\<close>

definition sample_person :: "ID \<Rightarrow> Person" where
  "sample_person i = \<lparr>P_id = i, P_names = [], P_gender = GenderUnset, P_birth = zero_TimeRange,
     P_death = zero_TimeRange, P_notes = '''', P_unknown = True\<rparr>"

definition sample_edge :: "ID \<Rightarrow> ID \<Rightarrow> ID \<Rightarrow> Relationship" where
  "sample_edge i a b = \<lparr>R_id = i, R_from = a, R_to = b, R_type = RelTypeParentChild,
     R_certainty = CertaintyCertain, R_continuity = NewContinuous, R_timeRange = zero_TimeRange,
     R_notes = '''', R_sources = []\<rparr>"

definition sample_proposal :: "ProposalAction \<Rightarrow> EntityKind \<Rightarrow> ID \<Rightarrow> ID \<Rightarrow> Proposal" where
  "sample_proposal a k t x = sample_move (sample_move
     \<lparr>Q_id = ''q'', Q_state = ProposalDraft, Q_action = a, Q_entityKind = k, Q_targetID = t,
      Q_secondaryID = x, Q_payload = ''p'', Q_reason = '''', Q_sources = [], Q_author = ''u'',
      Q_createdAt = 1, Q_history = []\<rparr> ProposalSubmitted) ProposalUnderReview"

definition sample_store :: "Proposal \<Rightarrow> MemStore" where
  "sample_store q = (let st = \<lparr>st_version = 3,
       st_persons = [(''a'', sample_person ''a''), (''b'', sample_person ''b''),
                     (''c'', sample_person ''c''), (''d'', sample_person ''d'')],
       st_relationships = [(''e'', sample_edge ''e'' ''a'' ''b''), (''f'', sample_edge ''f'' ''b'' ''c'')],
       st_sources = [], st_proposals = [(''q'', q)]\<rparr>
     in \<lparr>ms_current = st, ms_history = [(3, st), (0, emptyState)], ms_maxKeep = 0,
         ms_closed = False\<rparr>)"

definition sample_pl :: PayloadCreatePerson where
  "sample_pl = \<lparr>PP_NewID = '''', PP_Names = [], PP_Gender = GenderUnset, PP_Birth = zero_TimeRange,
     PP_Death = zero_TimeRange, PP_Notes = ''rich'', PP_UnknownAncestor = True\<rparr>"

definition sample_edge_pl :: PayloadCreateRelationship where
  "sample_edge_pl = \<lparr>PR_NewID = '''', PR_From = ''c'', PR_To = ''a'',
     PR_Type = RelTypeParentChild, PR_Certainty = CertaintyCertain,
     PR_Continuity = NewContinuous, PR_TimeRange = zero_TimeRange, PR_Notes = '''',
     PR_Sources = []\<rparr>"

definition sample_env :: Env where
  "sample_env = \<lparr>env_newID = ''n'', env_person = (\<lambda>_. Inr sample_pl),
     env_rel = (\<lambda>_. Inr sample_edge_pl),
     env_source = (\<lambda>_. Inl (Errorf ''bad json''))\<rparr>"

lemma sample_person_wf: "i \<noteq> '''' \<Longrightarrow> Person_wf (sample_person i)" "P_id (sample_person i) = i"
  by (simp_all add: sample_person_def Person_wf_def)

lemma sample_edge_simps [simp]:
  "R_id (sample_edge i a b) = i" "R_from (sample_edge i a b) = a" "R_to (sample_edge i a b) = b"
  "is_pc (sample_edge i a b)"
  "Relationship_wf (sample_edge i a b) \<longleftrightarrow> i \<noteq> '''' \<and> a \<noteq> '''' \<and> b \<noteq> '''' \<and> a \<noteq> b"
  by (simp_all add: sample_edge_def is_pc_def Relationship_wf_def edge_ok_def
      RelationshipType_IsValid_def Certainty_IsValid_def NewContinuous_def Continuity_IsValid_def
      ContinuityState_IsValid_def Continuity_IsGapped_def go_consts)

lemma sample_edge_pl_wf: "Relationship_wf (spec_edge sample_env sample_edge_pl)"
proof -
  have "spec_edge sample_env sample_edge_pl = sample_edge ''n'' ''c'' ''a''"
    by (simp add: spec_edge_def sample_edge_pl_def sample_env_def choose_id_def ID_IsZero_def
        sample_edge_def)
  then show ?thesis by simp
qed

lemma sample_proposal_simps [simp]:
  "Q_id (sample_proposal a k t x) = ''q''" "Q_state (sample_proposal a k t x) = ProposalUnderReview"
  "Q_action (sample_proposal a k t x) = a" "Q_entityKind (sample_proposal a k t x) = k"
  "Q_targetID (sample_proposal a k t x) = t" "Q_secondaryID (sample_proposal a k t x) = x"
  "Q_payload (sample_proposal a k t x) = ''p''"
  by (simp_all add: sample_proposal_def sample_move_def)

lemma sample_proposal_audited:
  assumes "ProposalAction_IsValid a" and "EntityKind_IsValid k" and "target_ok a k t x"
  shows "audited (sample_proposal a k t x)"
  using assms
  by (simp add: audited_def intent_ok_def, simp add: sample_proposal_def sample_move_def)
    (simp add: CanTransition_cases go_consts)

lemma sample_create_audited:
  "k \<in> {EntityKindPerson, EntityKindRelationship} \<Longrightarrow>
   audited (sample_proposal ProposalActionCreate k '''' '''')"
  by (rule sample_proposal_audited)
    (auto simp: ProposalAction_IsValid_def EntityKind_IsValid_def target_ok_def go_consts)

lemma sample_graph:
  "mem_graph (sample_store q) =
     \<lparr>g_persons = [''a'' \<mapsto> sample_person ''a'', ''b'' \<mapsto> sample_person ''b'',
                   ''c'' \<mapsto> sample_person ''c'', ''d'' \<mapsto> sample_person ''d''],
      g_rels = [''e'' \<mapsto> sample_edge ''e'' ''a'' ''b'', ''f'' \<mapsto> sample_edge ''f'' ''b'' ''c''],
      g_sources = Map.empty, g_props = [''q'' \<mapsto> q]\<rparr>"
  by (simp add: mem_graph_def sample_store_def Let_def state_graph_def gm_get_def fun_eq_iff)

lemma sample_pc_rel: "pc_rel (mem_graph (sample_store q)) = {(''a'', ''b''), (''b'', ''c'')}"
proof -
  have "ran (g_rels (mem_graph (sample_store q))) =
      {sample_edge ''f'' ''b'' ''c'', sample_edge ''e'' ''a'' ''b''}"
    by (simp add: sample_graph ran_map_upd)
  then show ?thesis by (auto simp: pc_rel_def intro: exI [of _ "sample_edge ''e'' ''a'' ''b''"]
        exI [of _ "sample_edge ''f'' ''b'' ''c''"])
qed

lemma sample_live: "Q_id q = ''q'' \<Longrightarrow> mem_live (sample_store q)"
  by (simp add: mem_live_def sample_store_def Let_def state_ok_def gm_keyed_def gm_ok_def gm_get_def
      sample_person_wf)

lemma sample_wf: "Q_id q = ''q'' \<Longrightarrow> audited q \<Longrightarrow> graph_wf (mem_graph (sample_store q))"
  by (simp add: graph_wf_def sample_graph sample_person_wf)

lemma sample_acyclic: "acyclic (pc_rel (mem_graph (sample_store q)))"
  unfolding sample_pc_rel by (simp add: rtrancl_insert) (simp add: acyclic_def)


definition sample_merge :: "ID \<Rightarrow> Proposal" where
  "sample_merge x = sample_proposal ProposalActionMerge EntityKindPerson ''a'' x"

definition sample_read :: readTx where
  "sample_read = \<lparr>rx_state = ms_current (sample_store (sample_merge ''c'')), rx_closed = False\<rparr>"

lemma sample_merge_audited:
  "Q_id (sample_merge x) = ''q''" "x \<noteq> '''' \<Longrightarrow> x \<noteq> ''a'' \<Longrightarrow> audited (sample_merge x)"
  by (simp_all add: sample_merge_def)
    (rule sample_proposal_audited, simp_all add: ProposalAction_IsValid_def EntityKind_IsValid_def
      target_ok_def go_consts)

lemma sample_read_ok: "read_ok sample_read"
  using sample_live [of "sample_merge ''c''"]
  by (simp add: sample_merge_audited sample_read_def read_ok_def mem_live_def)

lemma sample_read_graph: "read_graph sample_read = mem_graph (sample_store (sample_merge ''c''))"
  by (simp add: sample_read_def read_graph_def mem_graph_def)

lemma sample_merge_accept:
  "x \<in> {''c'', ''d''} \<Longrightarrow> accept_spec env ''q'' actor ts (mem_graph (sample_store (sample_merge x))) =
     Some (accepted (sample_merge x) actor ts,
       (merge_graph ''a'' x (mem_graph (sample_store (sample_merge x))))
         \<lparr>g_props := [''q'' \<mapsto> accepted (sample_merge x) actor ts]\<rparr>)"
  by (auto simp: accept_spec_def sample_graph Let_def apply_spec_def merge_spec_def sample_merge_def
      accepted_def go_consts merge_graph_def)

text \<open>A run: a new store, a draft, and its submission.\<close>

lemma sample_run:
  "\<exists>s q. gov_run False s \<and> g_props (mem_graph s) ''q1'' = Some q \<and> Q_state q = ProposalSubmitted"
proof -
  let ?s0 = "NewStore [WithHistoryLimit 0]"
  have s0: "gov_run False ?s0" by (rule open_store)
  obtain r s1 where u: "Update (propose_tx sample_draft) ?s0 = Some (Inr r, s1)"
    and p1: "g_props (mem_graph s1) ''q1'' = Some sample_draft"
    by (simp add: Update_def NewStore_def Let_def propose_tx_def liftP_def mem_WriteTx_def
        writeTx_PutProposal_def terminal_clash_def newWriteTx_def sample_draft_def ID_IsZero_def
        emptyState_def gm_get_def gm_put_def mem_graph_def state_graph_def commit_tx_def
        commitState_def cloneMap_def)
  have s1: "gov_run False s1" by (rule propose [OF s0 sample_draft_new u])
  then have "mem_live s1" "graph_wf (mem_graph s1)"
    using gov_run_governed by (simp_all add: governed_def)
  from mem_transition_refines [OF this, of "''q1''" ProposalSubmitted "''u''" 7 "''''"] p1
  obtain q s2 where "Submit mem_store mem_WriteTx ''q1'' ''u'' 7 s1 = Some (Inr q, s2)"
    "g_props (mem_graph s2) ''q1'' = Some q" "Q_state q = ProposalSubmitted"
    by (auto simp: Submit_def move_spec_def CanTransition_cases sample_draft_def Let_def go_consts)
  with submit [OF s1] show ?thesis by blast
qed

section \<open>Properties\<close>

text \<open>
  C5: the cycle check is total and exact. On every snapshot of the memory adapter (cyclic ones
  included) \<open>wouldCreateCycle\<close> returns, without error, and answers true exactly when the parent is
  reachable from the child along parent-child edges or is the child itself.
\<close>

theorem wouldCreateCycle_exact:
  assumes "read_ok r"
  shows "wouldCreateCycle (mem_ReadTx r) parent child =
    Some (Inr ((child, parent) \<in> (pc_rel (read_graph r))\<^sup>*))"
  using assms by (rule mem_reader.wouldCreateCycle_correct)

theorem wouldCreateCycle_exact_witness:
  "wouldCreateCycle (mem_ReadTx sample_read) ''c'' ''a'' = Some (Inr True) \<and>
   wouldCreateCycle (mem_ReadTx sample_read) ''a'' ''c'' = Some (Inr False)"
  using wouldCreateCycle_exact [OF sample_read_ok, of "''c''" "''a''"]
    wouldCreateCycle_exact [OF sample_read_ok, of "''a''" "''c''"]
  by (simp add: sample_read_graph sample_pc_rel rtrancl_insert)

text \<open>
  C2: acceptance implements its specification. For every proposal and every open store with a
  well-formed graph, \<open>Accept\<close> returns; when \<open>accept_spec\<close> refuses (the proposal does not exist or is
  not under review, or its mutation is not allowed on this graph) it returns an error and the
  store is exactly as before; otherwise it returns the accepted proposal, and the graph of the
  store is the one the specification gives.
\<close>

theorem Accept_implements_spec:
  assumes "mem_live s" and "graph_wf (mem_graph s)"
  shows "case accept_spec env i actor ts (mem_graph s) of
      None \<Rightarrow> \<exists>e. Accept env mem_store mem_WriteTx i actor ts s = Some (Inl e, s)
    | Some (q, G) \<Rightarrow> \<exists>s'. Accept env mem_store mem_WriteTx i actor ts s = Some (Inr q, s') \<and>
        mem_live s' \<and> mem_graph s' = G"
  using assms by (rule mem_Accept_refines)

theorem Accept_implements_spec_witness:
  "\<exists>s'. Accept sample_env mem_store mem_WriteTx ''q'' ''u'' 9 (sample_store (sample_merge ''d'')) =
      Some (Inr (accepted (sample_merge ''d'') ''u'' 9), s') \<and> g_persons (mem_graph s') ''d'' = None"
  using Accept_implements_spec [OF sample_live sample_wf, of "sample_merge ''d''" sample_env "''q''"
      "''u''" 9]
  by (auto simp: sample_merge_accept sample_merge_audited merge_graph_def)

text \<open>
  C1: the governed graph stays sound. Every store that proposals can reach (drafts stored by
  their authors, moved through the lifecycle and accepted) is live and holds a well-formed graph:
  each entity valid and under its own id, no edge without both its persons, each proposal with
  an audit history that is a path of the state machine. As long as no merge is accepted its
  parent-child relation is also acyclic.
\<close>

theorem governed_graphs_sound:
  assumes "gov_run merges s"
  shows "mem_live s \<and> graph_wf (mem_graph s) \<and> (\<not> merges \<longrightarrow> acyclic (pc_rel (mem_graph s)))"
  using gov_run_governed [OF assms] by (simp add: governed_def)

theorem governed_graphs_sound_witness:
  "\<exists>s q. gov_run False s \<and> g_props (mem_graph s) ''q1'' = Some q \<and> Q_state q = ProposalSubmitted \<and>
     graph_wf (mem_graph s) \<and> acyclic (pc_rel (mem_graph s))"
  using sample_run governed_graphs_sound by blast

text \<open>
  C37: a merge of two persons with no line of descent between them keeps the parent-child relation
  acyclic.
\<close>

theorem Accept_merge_unrelated:
  assumes "mem_live s" and "graph_wf (mem_graph s)" and "acyclic (pc_rel (mem_graph s))"
    and "Accept env mem_store mem_WriteTx i actor ts s = Some (Inr q, s')"
    and "Q_action q = ProposalActionMerge"
    and "(Q_targetID q, Q_secondaryID q) \<notin> (pc_rel (mem_graph s))\<^sup>+"
    and "(Q_secondaryID q, Q_targetID q) \<notin> (pc_rel (mem_graph s))\<^sup>+"
  shows "acyclic (pc_rel (mem_graph s'))"
  using mem_Accept_Inr(2) [OF assms(1,2,4)]
proof (rule accept_spec_Some)
  fix G1 assume "apply_spec env q (mem_graph s) = Some G1"
    "mem_graph s' = G1\<lparr>g_props := (g_props G1)(i \<mapsto> q)\<rparr>"
  with assms(5) acyclic_merge [OF assms(3,6,7)] show ?thesis
    by (auto simp: apply_spec_def merge_spec_def go_consts split: if_splits)
qed

theorem Accept_merge_unrelated_witness:
  "\<exists>q s'. Accept sample_env mem_store mem_WriteTx ''q'' ''u'' 9 (sample_store (sample_merge ''d'')) =
      Some (Inr q, s') \<and> acyclic (pc_rel (mem_graph s'))"
proof -
  let ?s = "sample_store (sample_merge ''d'')"
  let ?q = "accepted (sample_merge ''d'') ''u'' 9"
  have s: "mem_live ?s" "graph_wf (mem_graph ?s)"
    by (simp_all add: sample_live sample_wf sample_merge_audited)
  from mem_Accept_refines [OF s, of sample_env "''q''" "''u''" 9] obtain s' where
    a: "Accept sample_env mem_store mem_WriteTx ''q'' ''u'' 9 ?s = Some (Inr ?q, s')"
    by (auto simp: sample_merge_accept)
  have "acyclic (pc_rel (mem_graph s'))"
    by (rule Accept_merge_unrelated [OF s sample_acyclic a])
      (simp_all add: sample_pc_rel trancl_insert rtrancl_insert accepted_def sample_merge_def)
  with a show ?thesis by blast
qed


text \<open>
  C9: placeholders are never fabricated. A create proposal that asks for an unknown ancestor and
  still carries a name, a gender, a date or a note is refused with FABRICATION_ATTEMPT when it is
  accepted, and the store is unchanged.
\<close>

theorem fabrication_rejected:
  assumes "mem_live s" and "graph_wf (mem_graph s)"
    and "g_props (mem_graph s) i = Some p" and "Q_state p = ProposalUnderReview"
    and "Q_action p = ProposalActionCreate" and "Q_entityKind p = EntityKindPerson"
    and "env_person env (Q_payload p) = Inr pl" and "fabricated pl"
  shows "\<exists>e. Accept env mem_store mem_WriteTx i actor ts s = Some (Inl e, s) \<and>
    HasCode e CodeFabricationAttempt"
proof (rule mem_gov.Accept_error [OF assms(1-4)])
  fix w
  show "\<exists>e. apply_proposal env mem_WriteTx (accepted p actor ts) w = Some (Inl e) \<and>
      HasCode e CodeFabricationAttempt"
    by (rule mem_tx.create_fabricated [where pl = pl]) (use assms in \<open>simp_all add: accepted_def\<close>)
qed

theorem fabrication_rejected_witness:
  "\<exists>e. Accept sample_env mem_store mem_WriteTx ''q'' ''u'' 9 (sample_store
      (sample_proposal ProposalActionCreate EntityKindPerson '''' '''')) =
      Some (Inl e, sample_store (sample_proposal ProposalActionCreate EntityKindPerson '''' '''')) \<and>
    HasCode e CodeFabricationAttempt"
  by (rule fabrication_rejected [where pl = sample_pl and
        p = "sample_proposal ProposalActionCreate EntityKindPerson '''' ''''", OF sample_live sample_wf])
    (simp_all add: sample_create_audited sample_graph sample_env_def sample_pl_def fabricated_def)

text \<open>
  C8: no accepted edge closes a cycle. A create proposal for a valid parent-child edge whose
  parent is the child itself or one of its descendants is refused with CYCLE_DETECTED when it is
  accepted, and the store is unchanged.
\<close>

theorem cycle_rejected:
  assumes "mem_live s" and "graph_wf (mem_graph s)"
    and "g_props (mem_graph s) i = Some p" and "Q_state p = ProposalUnderReview"
    and "Q_action p = ProposalActionCreate" and "Q_entityKind p = EntityKindRelationship"
    and "env_rel env (Q_payload p) = Inr pl" and "Relationship_wf (spec_edge env pl)"
    and "PR_Type pl = RelTypeParentChild"
    and "(PR_To pl, PR_From pl) \<in> (pc_rel (mem_graph s))\<^sup>*"
  shows "\<exists>e. Accept env mem_store mem_WriteTx i actor ts s = Some (Inl e, s) \<and>
    HasCode e CodeCycleDetected"
proof (rule mem_gov.Accept_error [OF assms(1-4)])
  fix w assume w: "tx_inv w" "tx_view w = mem_graph s" "tx_base w = mem_graph s"
  show "\<exists>e. apply_proposal env mem_WriteTx (accepted p actor ts) w = Some (Inl e) \<and>
      HasCode e CodeCycleDetected"
    by (rule mem_tx.create_cyclic [where pl = pl]) (use assms w in \<open>simp_all add: accepted_def\<close>)
qed

theorem cycle_rejected_witness:
  "\<exists>e. Accept sample_env mem_store mem_WriteTx ''q'' ''u'' 9 (sample_store
      (sample_proposal ProposalActionCreate EntityKindRelationship '''' '''')) =
      Some (Inl e, sample_store (sample_proposal ProposalActionCreate EntityKindRelationship '''' '''')) \<and>
    HasCode e CodeCycleDetected"
  by (rule cycle_rejected [where pl = sample_edge_pl and
        p = "sample_proposal ProposalActionCreate EntityKindRelationship '''' ''''",
        OF sample_live sample_wf])
    (simp_all add: sample_create_audited sample_edge_pl_wf sample_pc_rel,
      simp_all add: sample_graph sample_env_def, simp_all add: sample_edge_pl_def rtrancl_insert)

text \<open>
  C10: each move works in its states and nowhere else. On an open store with a well-formed graph,
  \<open>Submit\<close> succeeds exactly on a draft, \<open>Claim\<close> on a submitted proposal, \<open>Withdraw\<close> on one that
  is not terminal, and \<open>Reject\<close> on one under review when a reason is given.
\<close>

theorem moves_exact:
  assumes "mem_live s" and "graph_wf (mem_graph s)"
  shows "(\<exists>q s'. Submit mem_store mem_WriteTx i actor ts s = Some (Inr q, s')) =
      (\<exists>p. g_props (mem_graph s) i = Some p \<and> Q_state p = ProposalDraft) \<and>
    (\<exists>q s'. Claim mem_store mem_WriteTx i actor ts s = Some (Inr q, s')) =
      (\<exists>p. g_props (mem_graph s) i = Some p \<and> Q_state p = ProposalSubmitted) \<and>
    (\<exists>q s'. Withdraw mem_store mem_WriteTx i actor ts reason s = Some (Inr q, s')) =
      (\<exists>p. g_props (mem_graph s) i = Some p \<and>
         Q_state p \<in> {ProposalDraft, ProposalSubmitted, ProposalUnderReview}) \<and>
    (\<exists>q s'. Reject mem_store mem_WriteTx i actor ts reason s = Some (Inr q, s')) =
      (\<exists>p. g_props (mem_graph s) i = Some p \<and> Q_state p = ProposalUnderReview \<and> reason \<noteq> '''')"
proof -
  have ok: "(\<exists>q s'. transitionInStore mem_store mem_WriteTx i to actor ts rs s = Some (Inr q, s')) =
    (\<exists>p. g_props (mem_graph s) i = Some p \<and> CanTransition (Q_state p) to \<and>
       \<not> (to = ProposalRejected \<and> rs = ''''))" for to rs
    using mem_transition_refines [OF assms, of i to actor ts rs]
    by (cases "g_props (mem_graph s) i") (auto simp: move_spec_def Let_def split: if_splits)
  show ?thesis
    unfolding Submit_def Claim_def Withdraw_def Reject_def ok
    by (intro conjI ex_cong1 conj_cong refl) (auto simp: CanTransition_cases go_consts)
qed

theorem moves_exact_witness:
  "\<exists>q s'. Reject mem_store mem_WriteTx ''q'' ''u'' 9 ''no'' (sample_store (sample_merge ''c'')) =
     Some (Inr q, s')"
proof -
  let ?s = "sample_store (sample_merge ''c'')"
  have "mem_live ?s" "graph_wf (mem_graph ?s)"
    by (simp_all add: sample_live sample_wf sample_merge_audited)
  from moves_exact [OF this, of "''q''" "''u''" 9 "''no''"] show ?thesis
    by (simp add: sample_graph sample_merge_def)
qed

end
