(* ===== verification/Payloads.thy ===== *)
theory Payloads
  imports GovernanceRun BadgerRead
begin

text \<open>
  The payloads of Create proposals as JSON (src/governance/apply.go): \<open>json.Unmarshal\<close> of a payload
  into its schema, member by member, the text that \<open>json.Marshal\<close> writes for it, and the environment
  \<open>go_env\<close> in which the proposals of package governance are accepted. The model types inside a
  payload (\<open>Name\<close>, \<open>TimeRange\<close>, \<open>Continuity\<close>) carry no tags, so their members have the names of
  their Go fields, and \<open>omitempty\<close> has no effect on a struct. A payload whose texts are valid UTF-8
  and whose integers are Go \<open>int\<close>s is read back as it was written, and every payload that is read
  is one of these. The elements of a slice are decoded from their zero value, also when a text
  gives the same member twice.
\<close>

section \<open>The model types inside a payload\<close>

definition Name_fields :: "(string \<times> Name decoder) list" where
  "Name_fields =
     [(''Text'', at_field Name_Text (\<lambda>x. Name_Text_update (\<lambda>_. x)) decode_string),
      (''Language'', at_field Name_Language (\<lambda>x. Name_Language_update (\<lambda>_. x)) decode_string),
      (''Script'', at_field Name_Script (\<lambda>x. Name_Script_update (\<lambda>_. x)) decode_string),
      (''Type'', at_field Name_Type (\<lambda>x. Name_Type_update (\<lambda>_. x)) decode_string),
      (''Preferred'', at_field Name_Preferred (\<lambda>x. Name_Preferred_update (\<lambda>_. x)) decode_bool)]"

definition YearBound_fields :: "(string \<times> YearBound decoder) list" where
  "YearBound_fields =
     [(''KnownYear'', at_field KnownYear (\<lambda>x. KnownYear_update (\<lambda>_. x)) decode_bool),
      (''Year'', at_field Year (\<lambda>x. Year_update (\<lambda>_. x)) decode_int)]"

definition TimeRange_fields :: "(string \<times> TimeRange decoder) list" where
  "TimeRange_fields =
     [(''Earliest'', at_field Earliest (\<lambda>x. Earliest_update (\<lambda>_. x))
         (decode_struct YearBound_fields)),
      (''Latest'', at_field Latest (\<lambda>x. Latest_update (\<lambda>_. x)) (decode_struct YearBound_fields)),
      (''Calendar'', at_field TR_Calendar (\<lambda>x. TR_Calendar_update (\<lambda>_. x)) decode_string),
      (''Circa'', at_field Circa (\<lambda>x. Circa_update (\<lambda>_. x)) decode_bool)]"

definition GapGenerations_fields :: "(string \<times> GapGenerations decoder) list" where
  "GapGenerations_fields =
     [(''KnownSize'', at_field KnownSize (\<lambda>x. KnownSize_update (\<lambda>_. x)) decode_bool),
      (''Size'', at_field Gap_Size (\<lambda>x. Gap_Size_update (\<lambda>_. x)) decode_int)]"

definition Continuity_fields :: "(string \<times> Continuity decoder) list" where
  "Continuity_fields =
     [(''State'', at_field Cont_State (\<lambda>x. Cont_State_update (\<lambda>_. x)) decode_uint8),
      (''Gap'', at_field Cont_Gap (\<lambda>x. Cont_Gap_update (\<lambda>_. x))
         (decode_struct GapGenerations_fields))]"

definition zero_Continuity :: Continuity where
  "zero_Continuity = \<lparr>Cont_State = 0, Cont_Gap = UnknownGap\<rparr>"


section \<open>The schemas\<close>

definition person_fields :: "(string \<times> PayloadCreatePerson decoder) list" where
  "person_fields =
     [(''id'', at_field PP_NewID (\<lambda>x. PP_NewID_update (\<lambda>_. x)) decode_string),
      (''names'', at_field PP_Names (\<lambda>x. PP_Names_update (\<lambda>_. x))
         (decode_slice zero_Name (decode_struct Name_fields))),
      (''gender'', at_field PP_Gender (\<lambda>x. PP_Gender_update (\<lambda>_. x)) decode_string),
      (''birth'', at_field PP_Birth (\<lambda>x. PP_Birth_update (\<lambda>_. x))
         (decode_struct TimeRange_fields)),
      (''death'', at_field PP_Death (\<lambda>x. PP_Death_update (\<lambda>_. x))
         (decode_struct TimeRange_fields)),
      (''notes'', at_field PP_Notes (\<lambda>x. PP_Notes_update (\<lambda>_. x)) decode_string),
      (''unknown'', at_field PP_UnknownAncestor (\<lambda>x. PP_UnknownAncestor_update (\<lambda>_. x))
         decode_bool)]"

definition relationship_fields :: "(string \<times> PayloadCreateRelationship decoder) list" where
  "relationship_fields =
     [(''id'', at_field PR_NewID (\<lambda>x. PR_NewID_update (\<lambda>_. x)) decode_string),
      (''from'', at_field PR_From (\<lambda>x. PR_From_update (\<lambda>_. x)) decode_string),
      (''to'', at_field PR_To (\<lambda>x. PR_To_update (\<lambda>_. x)) decode_string),
      (''type'', at_field PR_Type (\<lambda>x. PR_Type_update (\<lambda>_. x)) decode_uint8),
      (''certainty'', at_field PR_Certainty (\<lambda>x. PR_Certainty_update (\<lambda>_. x)) decode_uint8),
      (''continuity'', at_field PR_Continuity (\<lambda>x. PR_Continuity_update (\<lambda>_. x))
         (decode_struct Continuity_fields)),
      (''timeRange'', at_field PR_TimeRange (\<lambda>x. PR_TimeRange_update (\<lambda>_. x))
         (decode_struct TimeRange_fields)),
      (''notes'', at_field PR_Notes (\<lambda>x. PR_Notes_update (\<lambda>_. x)) decode_string),
      (''sources'', at_field PR_Sources (\<lambda>x. PR_Sources_update (\<lambda>_. x))
         (decode_slice '''' decode_string))]"

definition source_fields :: "(string \<times> PayloadCreateSource decoder) list" where
  "source_fields =
     [(''id'', at_field PS_NewID (\<lambda>x. PS_NewID_update (\<lambda>_. x)) decode_string),
      (''type'', at_field PS_Type (\<lambda>x. PS_Type_update (\<lambda>_. x)) decode_string),
      (''citation'', at_field PS_Citation (\<lambda>x. PS_Citation_update (\<lambda>_. x)) decode_string),
      (''author'', at_field PS_Author (\<lambda>x. PS_Author_update (\<lambda>_. x)) decode_string),
      (''title'', at_field PS_Title (\<lambda>x. PS_Title_update (\<lambda>_. x)) decode_string),
      (''date'', at_field PS_Date (\<lambda>x. PS_Date_update (\<lambda>_. x)) decode_string),
      (''locator'', at_field PS_Locator (\<lambda>x. PS_Locator_update (\<lambda>_. x)) decode_string),
      (''notes'', at_field PS_Notes (\<lambda>x. PS_Notes_update (\<lambda>_. x)) decode_string)]"

text \<open>The variable that a payload is read into: \<open>var pl PayloadCreatePerson\<close> and so on.\<close>

definition zero_person_payload :: PayloadCreatePerson where
  "zero_person_payload = \<lparr>PP_NewID = '''', PP_Names = [], PP_Gender = '''',
     PP_Birth = zero_TimeRange, PP_Death = zero_TimeRange, PP_Notes = '''',
     PP_UnknownAncestor = False\<rparr>"

definition zero_relationship_payload :: PayloadCreateRelationship where
  "zero_relationship_payload = \<lparr>PR_NewID = '''', PR_From = '''', PR_To = '''', PR_Type = 0,
     PR_Certainty = 0, PR_Continuity = zero_Continuity, PR_TimeRange = zero_TimeRange,
     PR_Notes = '''', PR_Sources = []\<rparr>"

definition zero_source_payload :: PayloadCreateSource where
  "zero_source_payload = \<lparr>PS_NewID = '''', PS_Type = '''', PS_Citation = '''', PS_Author = '''',
     PS_Title = '''', PS_Date = '''', PS_Locator = '''', PS_Notes = ''''\<rparr>"

definition person_payload :: "string \<Rightarrow> error + PayloadCreatePerson" where
  "person_payload = Unmarshal (decode_struct person_fields) zero_person_payload"

definition relationship_payload :: "string \<Rightarrow> error + PayloadCreateRelationship" where
  "relationship_payload = Unmarshal (decode_struct relationship_fields) zero_relationship_payload"

definition source_payload :: "string \<Rightarrow> error + PayloadCreateSource" where
  "source_payload = Unmarshal (decode_struct source_fields) zero_source_payload"

text \<open>The environment of the program: only the id that the uuid package draws is open.\<close>

definition go_env :: "ID \<Rightarrow> Env" where
  "go_env i = \<lparr>env_newID = i, env_person = person_payload, env_rel = relationship_payload,
     env_source = source_payload\<rparr>"

lemma go_env_simps [simp]:
  "env_newID (go_env i) = i" "env_person (go_env i) = person_payload"
  "env_rel (go_env i) = relationship_payload" "env_source (go_env i) = source_payload"
  by (simp_all add: go_env_def)

lemmas payload_defs = person_payload_def relationship_payload_def source_payload_def


section \<open>What a proposer writes\<close>

definition Name_json :: "Name \<Rightarrow> json" where
  "Name_json n = JObj
     [(''Text'', JStr (Name_Text n)), (''Language'', JStr (Name_Language n)),
      (''Script'', JStr (Name_Script n)), (''Type'', JStr (Name_Type n)),
      (''Preferred'', JBool (Name_Preferred n))]"

definition YearBound_json :: "YearBound \<Rightarrow> json" where
  "YearBound_json b = JObj [(''KnownYear'', JBool (KnownYear b)), (''Year'', JInt (Year b))]"

definition TimeRange_json :: "TimeRange \<Rightarrow> json" where
  "TimeRange_json r = JObj
     [(''Earliest'', YearBound_json (Earliest r)), (''Latest'', YearBound_json (Latest r)),
      (''Calendar'', JStr (TR_Calendar r)), (''Circa'', JBool (Circa r))]"

definition Continuity_json :: "Continuity \<Rightarrow> json" where
  "Continuity_json c = JObj
     [(''State'', JInt (uint (Cont_State c))),
      (''Gap'', JObj [(''KnownSize'', JBool (KnownSize (Cont_Gap c))),
         (''Size'', JInt (Gap_Size (Cont_Gap c)))])]"

definition person_payload_json :: "PayloadCreatePerson \<Rightarrow> json" where
  "person_payload_json pl = JObj (
     omit_if (PP_NewID pl = []) ''id'' (JStr (PP_NewID pl))
     @ omit_if (PP_Names pl = []) ''names'' (JArr (map Name_json (PP_Names pl)))
     @ omit_if (PP_Gender pl = []) ''gender'' (JStr (PP_Gender pl))
     @ [(''birth'', TimeRange_json (PP_Birth pl)), (''death'', TimeRange_json (PP_Death pl))]
     @ omit_if (PP_Notes pl = []) ''notes'' (JStr (PP_Notes pl))
     @ omit_if (\<not> PP_UnknownAncestor pl) ''unknown'' (JBool (PP_UnknownAncestor pl)))"

definition relationship_payload_json :: "PayloadCreateRelationship \<Rightarrow> json" where
  "relationship_payload_json pl = JObj (
     omit_if (PR_NewID pl = []) ''id'' (JStr (PR_NewID pl))
     @ [(''from'', JStr (PR_From pl)), (''to'', JStr (PR_To pl)),
        (''type'', JInt (uint (PR_Type pl))), (''certainty'', JInt (uint (PR_Certainty pl))),
        (''continuity'', Continuity_json (PR_Continuity pl)),
        (''timeRange'', TimeRange_json (PR_TimeRange pl))]
     @ omit_if (PR_Notes pl = []) ''notes'' (JStr (PR_Notes pl))
     @ omit_if (PR_Sources pl = []) ''sources'' (JArr (map JStr (PR_Sources pl))))"

definition source_payload_json :: "PayloadCreateSource \<Rightarrow> json" where
  "source_payload_json pl = JObj (
     omit_if (PS_NewID pl = []) ''id'' (JStr (PS_NewID pl))
     @ omit_if (PS_Type pl = []) ''type'' (JStr (PS_Type pl))
     @ [(''citation'', JStr (PS_Citation pl))]
     @ omit_if (PS_Author pl = []) ''author'' (JStr (PS_Author pl))
     @ omit_if (PS_Title pl = []) ''title'' (JStr (PS_Title pl))
     @ omit_if (PS_Date pl = []) ''date'' (JStr (PS_Date pl))
     @ omit_if (PS_Locator pl = []) ''locator'' (JStr (PS_Locator pl))
     @ omit_if (PS_Notes pl = []) ''notes'' (JStr (PS_Notes pl)))"


section \<open>The round trip\<close>

definition Name_ok :: "Name \<Rightarrow> bool" where
  "Name_ok n \<longleftrightarrow> utf8 (Name_Text n) \<and> utf8 (Name_Language n) \<and> utf8 (Name_Script n) \<and>
     utf8 (Name_Type n)"

definition TimeRange_ok :: "TimeRange \<Rightarrow> bool" where
  "TimeRange_ok r \<longleftrightarrow> int64 (Year (Earliest r)) \<and> int64 (Year (Latest r)) \<and> utf8 (TR_Calendar r)"

definition person_payload_ok :: "PayloadCreatePerson \<Rightarrow> bool" where
  "person_payload_ok pl \<longleftrightarrow> utf8 (PP_NewID pl) \<and> list_all Name_ok (PP_Names pl) \<and>
     utf8 (PP_Gender pl) \<and> TimeRange_ok (PP_Birth pl) \<and> TimeRange_ok (PP_Death pl) \<and>
     utf8 (PP_Notes pl)"

definition relationship_payload_ok :: "PayloadCreateRelationship \<Rightarrow> bool" where
  "relationship_payload_ok pl \<longleftrightarrow> utf8 (PR_NewID pl) \<and> utf8 (PR_From pl) \<and> utf8 (PR_To pl) \<and>
     int64 (Gap_Size (Cont_Gap (PR_Continuity pl))) \<and> TimeRange_ok (PR_TimeRange pl) \<and>
     utf8 (PR_Notes pl) \<and> list_all utf8 (PR_Sources pl)"

definition source_payload_ok :: "PayloadCreateSource \<Rightarrow> bool" where
  "source_payload_ok pl \<longleftrightarrow> utf8 (PS_NewID pl) \<and> utf8 (PS_Type pl) \<and> utf8 (PS_Citation pl) \<and>
     utf8 (PS_Author pl) \<and> utf8 (PS_Title pl) \<and> utf8 (PS_Date pl) \<and> utf8 (PS_Locator pl) \<and>
     utf8 (PS_Notes pl)"

lemma show_int_first: "0 \<le> i \<Longrightarrow> hd (show_int i) \<noteq> CHR ''-''"
  using digits_of_digits [of "nat i"]
  by (cases "digits_of (nat i)") (auto simp: show_int_def is_digit_def in_range_def)

lemma decode_uint8_json [simp]: "decode_uint8 (JInt (uint (w :: 8 word))) v = Inr w"
proof -
  have "0 \<le> uint w" "uint w < 256" using uint_lt2p [of w] by simp_all
  then show ?thesis
    by (simp add: decode_uint8_def JInt_def ParseInt_show show_int_first)
qed

lemma decode_Name_json [simp]: "decode_struct Name_fields (Name_json n) zero_Name = Inr n"
  by (simp add: Name_fields_def Name_json_def zero_Name_def decode_member_simps)

lemma decode_YearBound_json [simp]:
  "int64 (Year b) \<Longrightarrow> decode_struct YearBound_fields (YearBound_json b) c = Inr b"
  by (cases b) (simp add: YearBound_fields_def YearBound_json_def decode_member_simps)

lemma decode_TimeRange_json [simp]:
  "TimeRange_ok r \<Longrightarrow> decode_struct TimeRange_fields (TimeRange_json r) z = Inr r"
  by (cases r) (simp add: TimeRange_fields_def TimeRange_json_def TimeRange_ok_def decode_member_simps)

lemma decode_Continuity_json [simp]:
  "int64 (Gap_Size (Cont_Gap c)) \<Longrightarrow> decode_struct Continuity_fields (Continuity_json c) z = Inr c"
  by (cases c; cases "Cont_Gap c")
    (simp add: Continuity_fields_def Continuity_json_def GapGenerations_fields_def decode_member_simps)

lemma mapE_Names [simp]: "mapE (\<lambda>j. decode_struct Name_fields j zero_Name) (map Name_json ns) = Inr ns"
  by (rule mapE_map) simp

lemma decode_person_payload_json:
  "person_payload_ok pl \<Longrightarrow>
   decode_struct person_fields (person_payload_json pl) zero_person_payload = Inr pl"
  by (simp add: person_fields_def person_payload_json_def zero_person_payload_def
      person_payload_ok_def decode_member_simps)

lemma decode_relationship_payload_json:
  "relationship_payload_ok pl \<Longrightarrow>
   decode_struct relationship_fields (relationship_payload_json pl) zero_relationship_payload = Inr pl"
  by (simp add: relationship_fields_def relationship_payload_json_def zero_relationship_payload_def
      relationship_payload_ok_def decode_member_simps)

lemma decode_source_payload_json:
  "decode_struct source_fields (source_payload_json pl) zero_source_payload = Inr pl"
  by (simp add: source_fields_def source_payload_json_def zero_source_payload_def decode_member_simps)

text \<open>The documents are plain.\<close>

lemma Name_plain: "Name_ok n \<Longrightarrow> json_plain (Name_json n)"
  by (simp add: Name_json_def Name_ok_def plain_simps)

lemma Names_plain: "list_all Name_ok ns \<Longrightarrow> list_all (\<lambda>n. json_plain (Name_json n)) ns"
  by (erule list.pred_mono_strong) (rule Name_plain)

lemma TimeRange_plain: "TimeRange_ok r \<Longrightarrow> json_plain (TimeRange_json r)"
  by (simp add: TimeRange_json_def TimeRange_ok_def YearBound_json_def plain_simps)

lemma person_payload_plain: "person_payload_ok pl \<Longrightarrow> json_plain (person_payload_json pl)"
  by (simp add: person_payload_json_def person_payload_ok_def plain_simps Names_plain TimeRange_plain)

lemma relationship_payload_plain:
  "relationship_payload_ok pl \<Longrightarrow> json_plain (relationship_payload_json pl)"
  by (simp add: relationship_payload_json_def relationship_payload_ok_def plain_simps
      TimeRange_plain Continuity_json_def)

lemma source_payload_plain: "source_payload_ok pl \<Longrightarrow> json_plain (source_payload_json pl)"
  by (simp add: source_payload_json_def source_payload_ok_def plain_simps)

lemma payload_print:
  "person_payload_ok p \<Longrightarrow> person_payload (print_json (person_payload_json p)) = Inr p"
  "relationship_payload_ok r \<Longrightarrow>
   relationship_payload (print_json (relationship_payload_json r)) = Inr r"
  "source_payload_ok s \<Longrightarrow> source_payload (print_json (source_payload_json s)) = Inr s"
  by (simp_all add: payload_defs Unmarshal_plain person_payload_plain relationship_payload_plain
      source_payload_plain decode_person_payload_json decode_relationship_payload_json
      decode_source_payload_json)


section \<open>The payloads that are read\<close>

lemmas keeps_word = keeps_field [OF keeps_any [of decode_uint8]]

lemma Name_read: "keeps Name_ok (decode_struct Name_fields)" "Name_ok zero_Name"
  by (auto simp: Name_fields_def Name_ok_def zero_Name_def intro!: keeps_struct keeps_plain)

lemma YearBound_read: "keeps (\<lambda>b. int64 (Year b)) (decode_struct YearBound_fields)"
  by (auto simp: YearBound_fields_def intro!: keeps_struct keeps_plain)

lemma TimeRange_read: "keeps TimeRange_ok (decode_struct TimeRange_fields)" "TimeRange_ok zero_TimeRange"
  by (auto simp: TimeRange_fields_def TimeRange_ok_def zero_TimeRange_def UnknownYear_def
      intro!: keeps_struct keeps_plain keeps_field [OF YearBound_read])

lemma GapGenerations_read: "keeps (\<lambda>g. int64 (Gap_Size g)) (decode_struct GapGenerations_fields)"
  by (auto simp: GapGenerations_fields_def intro!: keeps_struct keeps_plain)

lemma Continuity_read: "keeps (\<lambda>c. int64 (Gap_Size (Cont_Gap c))) (decode_struct Continuity_fields)"
  by (auto simp: Continuity_fields_def intro!: keeps_struct keeps_word keeps_field [OF GapGenerations_read])

lemma person_payload_read:
  "keeps person_payload_ok (decode_struct person_fields)" "person_payload_ok zero_person_payload"
  by (auto simp: person_fields_def person_payload_ok_def zero_person_payload_def TimeRange_read
      intro!: keeps_struct keeps_plain keeps_field [OF keeps_slice [OF Name_read]]
        keeps_field [OF TimeRange_read(1)])

lemma relationship_payload_read:
  "keeps relationship_payload_ok (decode_struct relationship_fields)"
  "relationship_payload_ok zero_relationship_payload"
  by (auto simp: relationship_fields_def relationship_payload_ok_def zero_relationship_payload_def
      TimeRange_read zero_Continuity_def UnknownGap_def
      intro!: keeps_struct keeps_plain keeps_word keeps_strings keeps_field [OF TimeRange_read(1)]
        keeps_field [OF Continuity_read])

lemma source_payload_read:
  "keeps source_payload_ok (decode_struct source_fields)" "source_payload_ok zero_source_payload"
  by (auto simp: source_fields_def source_payload_ok_def zero_source_payload_def
      intro!: keeps_struct keeps_plain)

lemma payload_ok:
  "person_payload buf = Inr p \<Longrightarrow> person_payload_ok p"
  "relationship_payload buf = Inr r \<Longrightarrow> relationship_payload_ok r"
  "source_payload buf = Inr s \<Longrightarrow> source_payload_ok s"
  unfolding payload_defs
  using Unmarshal_keeps [OF person_payload_read] Unmarshal_keeps [OF relationship_payload_read]
    Unmarshal_keeps [OF source_payload_read] by blast+

text \<open>
  C23: the payloads of Create proposals survive JSON. For each of the three schemas, the payload that
  is read from any text is a payload that can be written, and reading what is written for it gives
  it back, member for member: ids, names with language, script and type, year bounds with their
  sign, the codes of a relationship, the continuity with its gap, lists of sources. The same holds
  of every payload of valid UTF-8 and Go integers, read or not. So what a proposer marshals is what
  governance applies, and what it applies can be marshalled again.
\<close>

theorem payload_roundtrip:
  "(person_payload_ok p \<or> person_payload buf = Inr p \<longrightarrow>
      person_payload (print_json (person_payload_json p)) = Inr p) \<and>
   (relationship_payload_ok r \<or> relationship_payload buf = Inr r \<longrightarrow>
      relationship_payload (print_json (relationship_payload_json r)) = Inr r) \<and>
   (source_payload_ok s \<or> source_payload buf = Inr s \<longrightarrow>
      source_payload (print_json (source_payload_json s)) = Inr s)"
  using payload_ok payload_print by blast

text \<open>
  A text as a client may send it: members in another order, one of them unknown, a member of a
  nested struct in lower case.
\<close>

definition sample_text :: string where
  "sample_text = ''{\"to\": \"c\", \"extra\": [null, {}], \"from\": \"a\", \"type\": 1,'' @
     '' \"continuity\": {\"State\": 1, \"gap\": {\"KnownSize\": true, \"Size\": -2}},'' @
     '' \"certainty\": 2, \"sources\": [\"s\"]}''"

definition sample_relationship_payload :: PayloadCreateRelationship where
  "sample_relationship_payload = \<lparr>PR_NewID = '''', PR_From = ''a'', PR_To = ''c'', PR_Type = 1,
     PR_Certainty = 2, PR_Continuity = \<lparr>Cont_State = 1, Cont_Gap = \<lparr>KnownSize = True, Gap_Size = -2\<rparr>\<rparr>,
     PR_TimeRange = zero_TimeRange, PR_Notes = '''', PR_Sources = [''s'']\<rparr>"

lemma sample_text_read: "relationship_payload sample_text = Inr sample_relationship_payload"
  by code_simp

lemma sample_texts:
  "isl (relationship_payload ''{\"type\": 256}'')"
  "isl (relationship_payload ''{\"type\": 1'')"
  "relationship_payload ''{\"type\": null}'' = Inr zero_relationship_payload"
  by code_simp+

theorem payload_roundtrip_witness:
  "relationship_payload sample_text = Inr sample_relationship_payload \<and>
   relationship_payload (print_json (relationship_payload_json sample_relationship_payload)) =
     Inr sample_relationship_payload \<and>
   person_payload (print_json (person_payload_json zero_person_payload)) = Inr zero_person_payload"
  using payload_roundtrip [of zero_person_payload sample_text sample_relationship_payload
      zero_source_payload] sample_text_read person_payload_read(2) by simp

end
