(* ===== verification/BadgerGovernance.thy ===== *)
theory BadgerGovernance
  imports AdapterTests Payloads
begin

text \<open>
  Governance over the persistent adapter: the composition of src/governance/apply.go with
  src/store/badger. The adapter's transaction keeps the contract \<open>graph_tx\<close> for the entities that its
  codecs keep, once its index scans are exact; where the ids of persons are separated, applying a
  proposal through the adapter's own scans comes to the same. So acceptance and the other moves
  refine their specification on the database, and the governed databases are sound.
\<close>

section \<open>The contract\<close>

text \<open>The adapter's transaction with the exact reader in place of its own.\<close>

definition exact_WriteTx :: "'t Txn \<Rightarrow> 't badgerTx WriteTx" where
  "exact_WriteTx T = (badger_WriteTx T)\<lparr>wt_Read := exact_reader T\<rparr>"

definition edge_kept :: "Relationship \<Rightarrow> bool" where
  "edge_kept r \<longleftrightarrow> Relationship_stable r \<and> sep \<notin> set (R_id r)"

abbreviation kv_storable :: "Graph \<Rightarrow> bool" where
  "kv_storable \<equiv> storable Person_stable edge_kept Source_stable Proposal_stable"

lemma exact_WriteTx_simps [simp]:
  "wt_Read (exact_WriteTx T) = exact_reader T"
  "wt_PutPerson (exact_WriteTx T) = badger_PutPerson T"
  "wt_DeletePerson (exact_WriteTx T) = badger_DeletePerson T"
  "wt_PutRelationship (exact_WriteTx T) = badger_PutRelationship T"
  "wt_DeleteRelationship (exact_WriteTx T) = badger_DeleteRelationship T"
  "wt_PutSource (exact_WriteTx T) = badger_PutSource T"
  "wt_DeleteSource (exact_WriteTx T) = badger_DeleteSource T"
  "wt_PutProposal (exact_WriteTx T) = badger_PutProposal T"
  by (simp_all add: exact_WriteTx_def badger_WriteTx_def)

lemma badger_WriteTx_simps [simp]:
  "wt_Read (badger_WriteTx T) = badger_ReadTx T"
  "wt_PutPerson (badger_WriteTx T) = badger_PutPerson T"
  "wt_DeletePerson (badger_WriteTx T) = badger_DeletePerson T"
  "wt_PutRelationship (badger_WriteTx T) = badger_PutRelationship T"
  "wt_DeleteRelationship (badger_WriteTx T) = badger_DeleteRelationship T"
  "wt_PutSource (badger_WriteTx T) = badger_PutSource T"
  "wt_DeleteSource (badger_WriteTx T) = badger_DeleteSource T"
  "wt_PutProposal (badger_WriteTx T) = badger_PutProposal T"
  by (simp_all add: badger_WriteTx_def)

lemma exact_reader_shared:
  "rt_GetPerson (exact_reader T w) = rt_GetPerson (badger_ReadTx T w)"
  "rt_GetProposal (exact_reader T w) = rt_GetProposal (badger_ReadTx T w)"
  "rt_IterateRelationships (exact_reader T w) = rt_IterateRelationships (badger_ReadTx T w)"
  by (simp_all add: exact_reader_def)

lemma acts_total:
  "acts T view w res G \<Longrightarrow> txn_total T \<Longrightarrow>
   \<exists>w'. res = Inr w' \<and> kv_ok (view (bt_tx w')) \<and> kv_graph (view (bt_tx w')) = G"
  by (auto simp: acts_def)

lemma PutRelationship_dangling:
  assumes "txn_laws T view" and "kv_ok (view (bt_tx w))" and "R_id r \<noteq> ''''"
    and "g_persons (kv_graph (view (bt_tx w))) (R_from r) = None \<or>
      g_persons (kv_graph (view (bt_tx w))) (R_to r) = None"
  shows "\<exists>e. badger_PutRelationship T r w = Inl e \<and> HasCode e CodePersonNotFound"
proof -
  have person: "view (bt_tx w) (personKey i) = None \<longleftrightarrow> g_persons (kv_graph (view (bt_tx w))) i = None" for i
    using key_present [OF kv_okD(1) [OF assms(2)]] by simp
  show ?thesis
    using assms(3,4) person
    by (auto simp: badger_PutRelationship_def requirePersonExists_def require_key_eq [OF assms(1)] ID_String_def
        simp del: kv_graph_simps)
qed

lemma badger_graph_tx:
  fixes T :: "'t Txn"
  assumes laws: "txn_laws T view" and total: "txn_total T"
  shows "graph_tx (exact_WriteTx T) (\<lambda>w. kv_graph (view (bt_tx w))) (\<lambda>_. B)
    (\<lambda>w. kv_ok (view (bt_tx w))) Person_stable edge_kept Source_stable Proposal_stable"
proof (unfold_locales, goal_cases)
  case (16 s p)
  with acts_total [OF put_person_acts [OF laws] total] show ?case by auto
next
  case (17 s i)
  with delete_person_acts [OF laws, of s i] total show ?case by (auto simp: acts_def)
next
  case (18 s i)
  with delete_person_acts [OF laws, of s i] show ?case by simp
next
  case (19 s r)
  with put_relationship_acts [OF laws, of s r] total show ?case by (auto simp: edge_kept_def acts_def)
next
  case (20 s r)
  with PutRelationship_dangling [OF laws, of s r] show ?case by simp
next
  case (21 s i)
  with delete_relationship_acts [OF laws, of s i] total show ?case by (auto simp: acts_def)
next
  case (22 s i)
  with delete_relationship_acts [OF laws, of s i] show ?case by simp
next
  case (23 s x)
  with acts_total [OF put_source_acts [OF laws] total] show ?case by auto
next
  case (24 s i)
  with delete_source_acts [OF laws, of s i] total show ?case by (auto simp: acts_def)
next
  case (25 s i)
  with delete_source_acts [OF laws, of s i] show ?case by simp
next
  case (26 s q)
  then have "kv_ok (view (bt_tx s))" "intent_ok q" "replayed q" "Proposal_stable q"
    by (simp_all add: audited_replayed) (simp add: audited_def)
  from put_proposal_acts [OF laws this] total 26(4) show ?case
    by (auto simp: acts_def split: if_splits)
next
  case (27 s q old)
  then show ?case
    using get_proposal_eq [OF laws, of s "Q_id q"] by (auto simp: badger_PutProposal_def)
qed (unfold exact_WriteTx_simps, (use exact_reader_get [OF laws] exact_reader_class [OF laws]
  exact_reader_edges [OF laws] in blast)+)


section \<open>The adapter's own scans\<close>

text \<open>
  With separated ids the cycle check is exact for a child that is a person; for an unknown child it
  still returns, and the edge is refused whatever it says.
\<close>

lemma badger_children:
  assumes "txn_laws T view" and "kv_ok (view (bt_tx w))"
  shows "snd (badger_IterateChildren T w n) = None"
    and "set (fst (badger_IterateChildren T w n)) = {e \<in> ran (g_rels (kv_graph (view (bt_tx w)))).
      is_pc e \<and> prefix n (R_from e @ sep # R_id e)}"
  using badger_scans(1) [OF assms, of n] by (simp_all add: enumerates_def)

lemma kv_edges_finite:
  fixes w :: "'t badgerTx"
  assumes "txn_laws T view" and "kv_ok (view (bt_tx w))"
  shows "finite (ran (g_rels (kv_graph (view (bt_tx w)))))"
  using exact_reader_class(2) [OF assms] by (metis List.finite_set enumerates_def)

lemma badger_cycle_total:
  assumes "txn_laws T view" and "kv_ok (view (bt_tx w))"
  shows "\<exists>b. wouldCreateCycle (badger_ReadTx T w) parent child = Some (Inr b)"
proof -
  let ?R = "ran (g_rels (kv_graph (view (bt_tx w))))"
  let ?E = "{(n, R_to e) | n e. e \<in> ?R \<and> is_pc e \<and> prefix n (R_from e @ sep # R_id e)}"
  have "?E\<^sup>* `` {child} \<subseteq> insert child (R_to ` ?R)"
    by (auto elim: rtranclE)
  then have "finite (?E\<^sup>* `` {child})"
    using kv_edges_finite [OF assms] by (auto intro: finite_subset)
  then have "wouldCreateCycle (badger_ReadTx T w) parent child = Some (Inr ((child, parent) \<in> ?E\<^sup>*))"
    by (rule wouldCreateCycle_reach) (auto simp: badger_ReadTx_def badger_children [OF assms])
  then show ?thesis by blast
qed

lemma badger_cycle_exact:
  assumes laws: "txn_laws T view" and ok: "kv_ok (view (bt_tx w))" and sc: "scannable (view (bt_tx w))"
    and child: "child \<in> dom (g_persons (kv_graph (view (bt_tx w))))"
  shows "wouldCreateCycle (badger_ReadTx T w) parent child =
    Some (Inr ((child, parent) \<in> (pc_rel (kv_graph (view (bt_tx w))))\<^sup>*))"
proof (rule wouldCreateCycle_reach)
  let ?G = "kv_graph (view (bt_tx w))"
  have fin: "finite (pc_rel ?G)"
    using kv_edges_finite [OF laws ok]
    by (auto simp: pc_rel_def intro: finite_subset [where B = "(\<lambda>e. (R_from e, R_to e)) ` ran (g_rels ?G)"])
  then show "finite ((pc_rel ?G)\<^sup>* `` {child})" by simp
  fix n assume n: "(child, n) \<in> (pc_rel ?G)\<^sup>*"
  then have "n \<in> dom (g_persons ?G)"
    using child sc by (induction rule: rtrancl_induct) (auto simp: pc_rel_def scannable_def)
  then show "R_to ` set (fst (rt_IterateChildren (badger_ReadTx T w) n)) = pc_rel ?G `` {n}"
    using badger_iterators(1) [OF laws ok sc] unfolding badger_ReadTx_def enumerates_def
    by (auto simp: children_of_def pc_rel_def)
  show "snd (rt_IterateChildren (badger_ReadTx T w) n) = None"
    by (simp add: badger_ReadTx_def badger_children [OF laws ok])
qed

text \<open>Two runs that are the same, or both fail.\<close>

definition agree :: "(error, 'a) partial_res \<Rightarrow> (error, 'a) partial_res \<Rightarrow> bool" where
  "agree r r' \<longleftrightarrow> r = r' \<or> (\<exists>e e'. r = Some (Inl e) \<and> r' = Some (Inl e'))"

lemma agree_refl [simp]: "agree r r"
  by (simp add: agree_def)

lemma agree_bind: "agree r r' \<Longrightarrow> agree (bindP r f) (bindP r' f)"
  by (auto simp: agree_def)

lemma create_relationship_agree:
  assumes laws: "txn_laws T view" and ok: "kv_ok (view (bt_tx w))" and sc: "scannable (view (bt_tx w))"
    and total: "txn_total T"
  shows "agree (create_relationship env (badger_WriteTx T) q w) (create_relationship env (exact_WriteTx T) q w)"
proof (cases "env_rel env (Q_payload q)")
  case (Inr pl)
  let ?G = "kv_graph (view (bt_tx w))"
  let ?new = "NewRelationship (choose_id env (PR_NewID pl)) (PR_From pl) (PR_To pl) (PR_Type pl)
    (PR_Certainty pl) (PR_Continuity pl)
    \<lparr>RO_TimeRange = PR_TimeRange pl, RO_Notes = PR_Notes pl, RO_Sources = PR_Sources pl\<rparr>"
  show ?thesis
  proof (cases ?new)
    case (Inl e)
    with Inr show ?thesis by (simp add: create_relationship_def Let_def liftP_def)
  next
    case new: (Inr rel)
    let ?cyc = "(R_to rel, R_from rel) \<in> (pc_rel ?G)\<^sup>*"
    have exact: "wouldCreateCycle (exact_reader T w) (R_from rel) (R_to rel) = Some (Inr ?cyc)"
      using graph_tx.axioms(1) [OF badger_graph_tx [OF laws total, of ?G]] ok
        graph_reader.wouldCreateCycle_correct [of "wt_Read (exact_WriteTx T)"] by fastforce
    show ?thesis
    proof (cases "g_persons ?G (R_to rel) = None")
      case True
      have id: "R_id rel \<noteq> ''''" using NewRelationship_wf [OF new] by (rule wf_dests)
      obtain e where "badger_PutRelationship T rel w = Inl e"
        using PutRelationship_dangling [OF laws ok id] True by blast
      then have put: "wt_PutRelationship (badger_WriteTx T) rel w = Inl e"
        "wt_PutRelationship (exact_WriteTx T) rel w = Inl e" by simp_all
      obtain b where b: "wouldCreateCycle (wt_Read (badger_WriteTx T) w) (R_from rel) (R_to rel) = Some (Inr b)"
        using badger_cycle_total [OF laws ok] by fastforce
      have refused: "\<exists>e. create_relationship env W q w = Some (Inl e)"
        if "wt_PutRelationship W rel w = Inl e"
          "wouldCreateCycle (wt_Read W w) (R_from rel) (R_to rel) = Some (Inr c)" for W c
        unfolding create_relationship_def Inr sum.case Let_def new liftP_def that by (simp add: that)
      have "wouldCreateCycle (wt_Read (exact_WriteTx T) w) (R_from rel) (R_to rel) = Some (Inr ?cyc)"
        by (simp only: exact_WriteTx_simps exact)
      from refused [OF put(1) b] refused [OF put(2) this] show ?thesis unfolding agree_def by blast
    next
      case False
      then have "R_to rel \<in> dom (g_persons ?G)" by blast
      from badger_cycle_exact [OF laws ok sc this] have
        same: "wouldCreateCycle (badger_ReadTx T w) (R_from rel) (R_to rel) =
          wouldCreateCycle (exact_reader T w) (R_from rel) (R_to rel)" by (simp only: exact)
      have "create_relationship env (badger_WriteTx T) q w = create_relationship env (exact_WriteTx T) q w"
        unfolding create_relationship_def Inr by (simp add: new Let_def liftP_def same cong: if_cong)
      then show ?thesis by simp
    qed
  qed
qed (simp add: create_relationship_def)

lemma has_incident_exact:
  assumes laws: "txn_laws T view" and ok: "kv_ok (view (bt_tx w))" and sc: "scannable (view (bt_tx w))"
    and n: "n \<in> dom (g_persons (kv_graph (view (bt_tx w))))"
  shows "has_incident (badger_ReadTx T w) n = has_incident (exact_reader T w) n"
proof -
  have same: "fst it = [] \<longleftrightarrow> fst it' = []" if "enumerates it A" "enumerates it' A" for it it' :: "Relationship iter" and A
    using that by (auto simp: enumerates_def)
  show ?thesis
    using same [OF badger_iterators(1) [OF assms] exact_reader_edges(1) [OF laws ok]]
      same [OF badger_iterators(2) [OF assms] exact_reader_edges(2) [OF laws ok]]
      same [OF badger_iterators(3) [OF assms] exact_reader_edges(3) [OF laws ok]]
    by (simp add: has_incident_def Let_def run_iter_flag) (simp add: badger_ReadTx_def)
qed

lemma applyRetract_agree:
  assumes laws: "txn_laws T view" and ok: "kv_ok (view (bt_tx w))" and sc: "scannable (view (bt_tx w))"
  shows "agree (Some (applyRetract (badger_WriteTx T) q w)) (Some (applyRetract (exact_WriteTx T) q w))"
proof (cases "g_persons (kv_graph (view (bt_tx w))) (Q_targetID q) = None")
  case True
  then obtain e where "badger_DeletePerson T (Q_targetID q) w = Inl e"
    using delete_person_acts [OF laws ok, of "Q_targetID q"] by auto
  then show ?thesis by (auto simp: applyRetract_def agree_def)
next
  case False
  then have "Q_targetID q \<in> dom (g_persons (kv_graph (view (bt_tx w))))" by auto
  from has_incident_exact [OF assms this] show ?thesis by (simp add: applyRetract_def)
qed

lemma merge_loop_exact: "merge_loop (badger_WriteTx T) t x rs = merge_loop (exact_WriteTx T) t x rs"
proof (induction rs)
  case (Cons r rs)
  then show ?case by (intro ext) (simp add: Let_def)
qed (simp add: fun_eq_iff)

lemma shared_exact:
  "create_person env (badger_WriteTx T) q w = create_person env (exact_WriteTx T) q w"
  "create_source env (badger_WriteTx T) q w = create_source env (exact_WriteTx T) q w"
  "applyUpdate (badger_WriteTx T) q w = applyUpdate (exact_WriteTx T) q w"
  "applyMerge (badger_WriteTx T) q w = applyMerge (exact_WriteTx T) q w"
  "applySameAs (badger_WriteTx T) q w = applySameAs (exact_WriteTx T) q w"
  by (simp_all only: create_person_def create_source_def applyUpdate_def applyMerge_def applySameAs_def
      merge_loop_exact exact_WriteTx_simps badger_WriteTx_simps exact_reader_shared)

lemma apply_agree:
  assumes "txn_laws T view" and "kv_ok (view (bt_tx w))" and "scannable (view (bt_tx w))"
    and "txn_total T"
  shows "agree (apply_proposal env (badger_WriteTx T) q w) (apply_proposal env (exact_WriteTx T) q w)"
  using create_relationship_agree [OF assms, of env q] applyRetract_agree [OF assms(1-3), of q]
  by (simp add: apply_proposal_def applyCreate_def liftP_def shared_exact)

lemma accept_tx_agree:
  assumes "txn_laws T view" and "kv_ok (view (bt_tx w))" and "scannable (view (bt_tx w))"
    and "txn_total T"
  shows "agree (accept_tx env (badger_WriteTx T) i actor ts w) (accept_tx env (exact_WriteTx T) i actor ts w)"
proof (cases "rt_GetProposal (badger_ReadTx T w) i")
  case (Inr p)
  show ?thesis
  proof (cases "Transition p ProposalAccepted actor ts ''''")
    case (Inr q)
    then show ?thesis
      using agree_bind [OF apply_agree [OF assms, of env q]] \<open>rt_GetProposal (badger_ReadTx T w) i = Inr p\<close>
      by (simp add: accept_tx_def liftP_def exact_reader_shared)
  qed (simp add: accept_tx_def liftP_def exact_reader_shared Inr)
qed (simp add: accept_tx_def liftP_def exact_reader_shared)

lemma transition_tx_exact:
  "transition_tx (badger_WriteTx T) i to actor ts reason w = transition_tx (exact_WriteTx T) i to actor ts reason w"
  by (simp add: transition_tx_def exact_reader_shared)

section \<open>What a proposal leaves to be stored\<close>

lemma utf8_append: "utf8 a \<Longrightarrow> utf8 b \<Longrightarrow> utf8 (a @ b)"
proof (induction a rule: length_induct)
  case (1 a)
  show ?case
  proof (cases "a = []")
    case False
    then have n: "0 < rune_size a" using 1(2) by (intro utf8_starts)
    let ?n = "rune_size a"
    have "utf8 (drop ?n a)" using 1(2) utf8_rune [OF refl n, of "drop ?n a"] by simp
    with 1 n False have "utf8 (drop ?n a @ b)" by simp
    then have "utf8 (take ?n a @ (drop ?n a @ b))" by (simp only: utf8_rune [OF refl n])
    then show ?thesis by (simp add: append_assoc [symmetric] del: append_assoc)
  qed (simp add: 1(3))
qed

lemma same_as_note_utf8:
  assumes "utf8 note" and "utf8 i"
  shows "utf8 (same_as_note note i)"
proof -
  have parts: "utf8 [CHR 0x0A]" "utf8 ''[same-as:''" "utf8 '']''"
    by (simp_all add: utf8_ascii is_ascii_def)
  have "utf8 (''[same-as:'' @ i @ '']'')" by (intro utf8_append parts assms(2))
  moreover have "utf8 (if note = '''' then '''' else note @ [CHR 0x0A])"
    by (cases "note = ''''") (simp, simp add: utf8_append [OF assms(1) parts(1)])
  ultimately show ?thesis unfolding same_as_note_def by (rule utf8_append [rotated])
qed

text \<open>What a create proposal asks for must be in the form that the codecs keep.\<close>

definition payload_kept :: "ID set \<Rightarrow> Env \<Rightarrow> Proposal \<Rightarrow> bool" where
  "payload_kept I env q \<longleftrightarrow> (Q_action q = ProposalActionCreate \<longrightarrow>
     (if Q_entityKind q = EntityKindPerson then
        (\<forall>pl. env_person env (Q_payload q) = Inr pl \<longrightarrow>
           Person_stable (spec_person env pl) \<and> P_id (spec_person env pl) \<in> I)
      else if Q_entityKind q = EntityKindRelationship then
        (\<forall>pl. env_rel env (Q_payload q) = Inr pl \<longrightarrow> edge_kept (spec_edge env pl))
      else (\<forall>pl. env_source env (Q_payload q) = Inr pl \<longrightarrow> Source_stable (spec_source env pl))))"

lemma entity_stable: "entity_of dec (m k) = Some x \<Longrightarrow> (\<And>buf. dec buf = Inr x \<Longrightarrow> P) \<Longrightarrow> P"
  by (auto simp: entity_of_Some)

lemma kv_ok_storable:
  assumes "kv_ok m"
  shows "kv_storable (kv_graph m)"
proof -
  have "edge_kept r" if "g_rels (kv_graph m) i = Some r" for i r
    using that kv_rels_ok [OF assms] decodeRelationship_stable
    by (fastforce simp: edge_kept_def rels_ok_def entity_of_Some)
  then show ?thesis
    using decodePerson_stable decodeSource_stable decodeProposal_stable
    by (fastforce simp: storable_def ran_def entity_of_Some)
qed

abbreviation entities_kept :: "Graph \<Rightarrow> bool" where
  "entities_kept \<equiv> storable Person_stable edge_kept Source_stable (\<lambda>_. True)"

lemma entities_kept_put:
  "entities_kept G \<Longrightarrow> Person_stable p \<Longrightarrow> entities_kept (G\<lparr>g_persons := (g_persons G)(i \<mapsto> p)\<rparr>)"
  "entities_kept G \<Longrightarrow> edge_kept r \<Longrightarrow> entities_kept (G\<lparr>g_rels := (g_rels G)(i \<mapsto> r)\<rparr>)"
  "entities_kept G \<Longrightarrow> Source_stable x \<Longrightarrow> entities_kept (G\<lparr>g_sources := (g_sources G)(i \<mapsto> x)\<rparr>)"
  "entities_kept G \<Longrightarrow> entities_kept (G\<lparr>g_persons := (g_persons G)(i := None)\<rparr>)"
  "entities_kept G \<Longrightarrow> entities_kept (G\<lparr>g_rels := (g_rels G)(i := None)\<rparr>)"
  "entities_kept G \<Longrightarrow> entities_kept (G\<lparr>g_sources := (g_sources G)(i := None)\<rparr>)"
  by (auto simp: storable_def ran_def)

lemma merge_kept:
  assumes G: "entities_kept G" and t: "id_stable t"
  shows "entities_kept (merge_graph t x G)"
proof -
  have "edge_kept r'" if "g_rels G i = Some r" "merge_rel t x r = Some r'" for i r r'
    using storableD(2) [OF G that(1)] that(2) t
    by (auto simp: merge_rel_def Let_def edge_kept_def Relationship_stable_def split: if_splits)
  then show ?thesis
    using G by (auto simp: storable_def merge_graph_def ran_def bind_eq_Some_conv)
qed

lemma apply_spec_kept:
  assumes G: "entities_kept G" "graph_wf G" and a: "apply_spec env q G = Some G'"
    and p: "payload_kept I env q" and q: "Proposal_stable q" and I: "dom (g_persons G) \<subseteq> I"
  shows "entities_kept G'" and "dom (g_persons G') \<subseteq> I"
proof -
  have inI: "j \<in> I" if "g_persons G j = Some y" for j y using I that by auto
  from a consider "Q_action q = ProposalActionCreate" "create_spec env q G = Some G'"
    | "retract_spec q G = Some G'" | "merge_spec q G = Some G'" | "same_as_spec q G = Some G'"
    by (auto simp: apply_spec_def split: if_splits)
  then have "entities_kept G' \<and> dom (g_persons G') \<subseteq> I"
  proof cases
    case 1
    with p inI show ?thesis
      by (auto simp: create_spec_def payload_kept_def Let_def intro!: entities_kept_put G
          split: if_splits sum.splits)
  next
    case 2
    with inI show ?thesis
      by (auto simp: retract_spec_def Let_def intro!: entities_kept_put G split: if_splits)
  next
    case 3
    then obtain x where x: "g_persons G (Q_targetID q) = Some x"
      and G': "G' = merge_graph (Q_targetID q) (Q_secondaryID q) G"
      by (auto simp: merge_spec_def split: if_splits)
    have "id_stable (Q_targetID q)"
      using storableD(1) [OF G(1) x] graph_wf_person [OF G(2) x] by (simp add: Person_stable_def)
    from merge_kept [OF G(1) this] inI show ?thesis by (auto simp: G' merge_graph_def split: if_splits)
  next
    case 4
    then obtain x where x: "g_persons G (Q_targetID q) = Some x"
      and G': "G' = G\<lparr>g_persons := (g_persons G)(Q_targetID q \<mapsto>
        x\<lparr>P_notes := same_as_note (P_notes x) (Q_secondaryID q)\<rparr>)\<rparr>"
      by (auto simp: same_as_spec_def split: option.splits if_splits)
    have "utf8 (Q_secondaryID q)" using q by (auto simp: Proposal_stable_def id_stable_def)
    moreover have "Person_stable x" by (rule storableD(1) [OF G(1) x])
    ultimately have "Person_stable (x\<lparr>P_notes := same_as_note (P_notes x) (Q_secondaryID q)\<rparr>)"
      by (simp add: Person_stable_def same_as_note_utf8)
    then show ?thesis using inI x by (auto simp: G' intro!: entities_kept_put G)
  qed
  then show "entities_kept G'" and "dom (g_persons G') \<subseteq> I" by auto
qed

text \<open>The audit entry of a move is kept when its texts are valid and its time is a Go \<open>int64\<close>.\<close>

definition actor_ok :: "string \<Rightarrow> int \<Rightarrow> string \<Rightarrow> bool" where
  "actor_ok actor ts reason \<longleftrightarrow> utf8 actor \<and> int64 ts \<and> utf8 reason"

lemma Transition_stable:
  "Transition p to actor ts reason = Inr q \<Longrightarrow> Proposal_stable p \<Longrightarrow> actor_ok actor ts reason \<Longrightarrow>
   Proposal_stable q"
  by (auto simp: Transition_Inr Proposal_stable_def WithStateUnchecked_def withState_def
      proposalTransWire_ok_def transition_wire_def actor_ok_def)

lemma accept_spec_kept:
  assumes G: "kv_storable G" "graph_wf G" and a: "accept_spec env i actor ts G = Some (q, G')"
    and p: "payload_kept I env q" and I: "dom (g_persons G) \<subseteq> I" and actor: "actor_ok actor ts ''''"
  shows "kv_storable G'" and "dom (g_persons G') \<subseteq> I"
proof -
  from a obtain p G1 where p': "g_props G i = Some p" "Q_state p = ProposalUnderReview"
    and q: "q = accepted p actor ts" and G1: "apply_spec env q G = Some G1"
    and G': "G' = G1\<lparr>g_props := (g_props G1)(i \<mapsto> q)\<rparr>"
    by (rule accept_spec_Some)
  have st: "Proposal_stable q"
    using Transition_stable [OF accepted_Transition [OF p'(2)] storableD(4) [OF G(1) p'(1)] actor] q by simp
  have "entities_kept G" using G(1) by (simp add: storable_def)
  from apply_spec_kept [OF this G(2) G1 p st I] st G(1) apply_spec_props [OF G1]
  show "kv_storable G'" "dom (g_persons G') \<subseteq> I"
    by (auto simp: G' storable_def ran_def)
qed

lemma move_spec_kept:
  assumes G: "kv_storable G" and "move_spec i to actor ts reason G = Some (q, G')"
    and actor: "actor_ok actor ts reason"
  shows "kv_storable G'" and "g_persons G' = g_persons G" and "g_rels G' = g_rels G"
proof -
  from assms(2) obtain p where p: "g_props G i = Some p" "Transition p to actor ts reason = Inr q"
    and G': "G' = G\<lparr>g_props := (g_props G)(i \<mapsto> q)\<rparr>" by (auto simp: move_spec_Some)
  have "Proposal_stable q" using Transition_stable [OF p(2) storableD(4) [OF G p(1)] actor] .
  with G show "kv_storable G'" "g_persons G' = g_persons G" "g_rels G' = g_rels G"
    by (auto simp: G' storable_def ran_def)
qed

section \<open>The moves on the database\<close>

definition refines_db ::
    "('t \<Rightarrow> kv) \<Rightarrow> (error, 't badgerTx \<times> 'o) partial_res \<Rightarrow> ('o \<times> Graph) option \<Rightarrow> bool" where
  "refines_db view r spec \<longleftrightarrow> (case spec of
      None \<Rightarrow> \<exists>e. r = Some (Inl e)
    | Some (q, G') \<Rightarrow> \<exists>w. r = Some (Inr (w, q)) \<and> kv_ok (view (bt_tx w)) \<and> kv_graph (view (bt_tx w)) = G')"

text \<open>The callbacks on a transaction of the database, through the adapter's own scans.\<close>

lemma badger_accept_tx:
  assumes laws: "txn_laws T view" and total: "txn_total T" and ok: "kv_ok (view (bt_tx w))"
    and sc: "scannable (view (bt_tx w))"
  defines "G \<equiv> kv_graph (view (bt_tx w))"
  assumes G: "graph_wf G"
    and kept: "\<And>q G'. accept_spec env i actor ts G = Some (q, G') \<Longrightarrow> kv_storable G'"
  shows "refines_db view (accept_tx env (badger_WriteTx T) i actor ts w) (accept_spec env i actor ts G)"
proof -
  obtain r where r: "accept_tx env (exact_WriteTx T) i actor ts w = Some r"
    and ref: "case accept_spec env i actor ts G of None \<Rightarrow> \<exists>e. r = Inl e
      | Some (q, G') \<Rightarrow> kv_storable G' \<longrightarrow>
         (\<exists>w'. r = Inr (w', q) \<and> kv_ok (view (bt_tx w')) \<and> kv_graph (view (bt_tx w')) = G')"
    using graph_tx.accept_tx_refines [OF badger_graph_tx [OF laws total, of G], of w env i actor ts] ok G
    unfolding G_def by blast
  have "agree (accept_tx env (badger_WriteTx T) i actor ts w) (Some r)"
    using accept_tx_agree [OF laws ok sc total] unfolding r [symmetric] .
  with ref kept show ?thesis
    by (cases "accept_spec env i actor ts G") (auto simp: refines_db_def agree_def)
qed

lemma badger_transition_tx:
  assumes laws: "txn_laws T view" and total: "txn_total T" and ok: "kv_ok (view (bt_tx w))"
  defines "G \<equiv> kv_graph (view (bt_tx w))"
  assumes G: "graph_wf G"
    and kept: "\<And>q G'. move_spec i to actor ts reason G = Some (q, G') \<Longrightarrow> kv_storable G'"
  shows "refines_db view (transition_tx (badger_WriteTx T) i to actor ts reason w) (move_spec i to actor ts reason G)"
proof -
  obtain r where r: "transition_tx (exact_WriteTx T) i to actor ts reason w = Some r"
    and ref: "case move_spec i to actor ts reason G of None \<Rightarrow> \<exists>e. r = Inl e
      | Some (q, G') \<Rightarrow> kv_storable G' \<longrightarrow>
         (\<exists>w'. r = Inr (w', q) \<and> kv_ok (view (bt_tx w')) \<and> kv_graph (view (bt_tx w')) = G')"
    using graph_tx.transition_tx_refines [OF badger_graph_tx [OF laws total, of G], of w i to actor ts reason] ok G
    unfolding G_def by blast
  with kept show ?thesis
    by (cases "move_spec i to actor ts reason G") (auto simp: refines_db_def transition_tx_exact)
qed

text \<open>What a call of \<open>Update\<close> leaves, when its callback refines a specification.\<close>

definition db_refines ::
    "('d \<Rightarrow> kv) \<Rightarrow> 'd \<Rightarrow> Version \<Rightarrow> ((error + 'o) \<times> 'd) option \<Rightarrow> ('o \<times> Graph) option \<Rightarrow> bool" where
  "db_refines contents d v res spec \<longleftrightarrow> (case spec of
      None \<Rightarrow> \<exists>e d'. res = Some (Inl e, d') \<and> contents d' = contents d
    | Some (q, G') \<Rightarrow> \<exists>d'. res = Some (Inr q, d') \<and> kv_ok (contents d') \<and>
        kv_graph (contents d') = G' \<and> holds_version (contents d') (v + 1))"

lemma badger_Update_refines:
  fixes f :: "'t badgerTx \<Rightarrow> (error, 't badgerTx \<times> 'o) partial_res"
  assumes laws: "txn_laws T view" "db_laws D view contents" and total: "txn_total T" "db_commits D"
    and v: "holds_version (contents d) v"
    and f: "refines_db view (f \<lparr>bt_tx = db_NewTransaction D True d, bt_version = v\<rparr>) spec"
  shows "db_refines contents d v (drop_version (badger_Update D T f d)) spec"
proof (cases spec)
  case None
  with f obtain e where "f \<lparr>bt_tx = db_NewTransaction D True d, bt_version = v\<rparr> = Some (Inl e)"
    by (auto simp: refines_db_def)
  with badger_Update_run(1) [OF laws v, of f] None show ?thesis
    by (auto simp: db_refines_def drop_version_def)
next
  case (Some qG)
  then obtain q G' where qG: "spec = Some (q, G')" by (cases qG) auto
  with f obtain w where w: "f \<lparr>bt_tx = db_NewTransaction D True d, bt_version = v\<rparr> = Some (Inr (w, q))"
    "kv_ok (view (bt_tx w))" "kv_graph (view (bt_tx w)) = G'"
    by (auto simp: refines_db_def)
  from badger_commit [where f = f and d = d, OF laws v total w(1)] w(2,3) show ?thesis
    by (auto simp: qG db_refines_def drop_version_def kv_ok_put(6))
qed

text \<open>
  A governed database: it holds a version and a good layout, the persons have ids in \<open>I\<close>, and the graph
  is well formed.
\<close>

definition governed_db :: "ID set \<Rightarrow> kv \<Rightarrow> bool" where
  "governed_db I m \<longleftrightarrow> (\<exists>v. holds_version m v) \<and> kv_ok m \<and> graph_wf (kv_graph m) \<and>
     dom (g_persons (kv_graph m)) \<subseteq> I"

lemma governed_db_scannable:
  assumes "governed_db I m" and "separated I"
  shows "scannable m"
proof -
  have "{R_from e, R_to e} \<subseteq> dom (g_persons (kv_graph m))" if "e \<in> ran (g_rels (kv_graph m))" for e
    using graph_wf_ran_rel [OF _ that] assms(1) by (simp add: governed_db_def del: kv_graph_simps)
  then show ?thesis
    using assms unfolding governed_db_def scannable_def separated_def by blast
qed

lemma badger_Accept_refines:
  fixes D :: "('d, 't, Version, Version \<times> Proposal) DB"
  assumes laws: "txn_laws T view" "db_laws D view contents" and total: "txn_total T" "db_commits D"
    and d: "governed_db I (contents d)" "separated I" "holds_version (contents d) v"
    and actor: "actor_ok actor ts ''''"
    and p: "\<And>q G'. accept_spec env i actor ts (kv_graph (contents d)) = Some (q, G') \<Longrightarrow> payload_kept I env q"
  shows "db_refines contents d v (Accept env (badger_store D T close) (badger_WriteTx T) i actor ts d)
    (accept_spec env i actor ts (kv_graph (contents d)))"
proof -
  let ?w = "\<lparr>bt_tx = db_NewTransaction D True d, bt_version = v\<rparr>"
  have view: "view (bt_tx ?w) = contents d" using laws(2) by (simp add: db_laws_def)
  have G: "kv_ok (contents d)" "graph_wf (kv_graph (contents d))" "dom (g_persons (kv_graph (contents d))) \<subseteq> I"
    using d(1) by (simp_all add: governed_db_def)
  have "kv_storable G'" if "accept_spec env i actor ts (kv_graph (contents d)) = Some (q, G')" for q G'
    using accept_spec_kept(1) [OF kv_ok_storable [OF G(1)] G(2) that p [OF that] G(3) actor] .
  then have "refines_db view (accept_tx env (badger_WriteTx T) i actor ts ?w)
      (accept_spec env i actor ts (kv_graph (contents d)))"
    using badger_accept_tx [OF laws(1) total(1), of ?w env i actor ts] G(1,2)
      governed_db_scannable [OF d(1,2)] unfolding view by blast
  from badger_Update_refines [OF laws total d(3), where f = "accept_tx env (badger_WriteTx T) i actor ts", OF this]
  show ?thesis by (simp add: Accept_def badger_store_def)
qed

lemma badger_transition_refines:
  fixes D :: "('d, 't, Version, Version \<times> Proposal) DB"
  assumes laws: "txn_laws T view" "db_laws D view contents" and total: "txn_total T" "db_commits D"
    and d: "governed_db I (contents d)" "holds_version (contents d) v"
    and actor: "actor_ok actor ts reason"
  shows "db_refines contents d v
    (transitionInStore (badger_store D T close) (badger_WriteTx T) i to actor ts reason d)
    (move_spec i to actor ts reason (kv_graph (contents d)))"
proof -
  let ?w = "\<lparr>bt_tx = db_NewTransaction D True d, bt_version = v\<rparr>"
  have view: "view (bt_tx ?w) = contents d" using laws(2) by (simp add: db_laws_def)
  have G: "kv_ok (contents d)" "graph_wf (kv_graph (contents d))"
    using d(1) by (simp_all add: governed_db_def)
  have "kv_storable G'" if "move_spec i to actor ts reason (kv_graph (contents d)) = Some (q, G')" for q G'
    using move_spec_kept(1) [OF kv_ok_storable [OF G(1)] that actor] .
  then have "refines_db view (transition_tx (badger_WriteTx T) i to actor ts reason ?w)
      (move_spec i to actor ts reason (kv_graph (contents d)))"
    using badger_transition_tx [OF laws(1) total(1), of ?w i to actor ts reason] G
    unfolding view by blast
  from badger_Update_refines [OF laws total d(2), where f = "transition_tx (badger_WriteTx T) i to actor ts reason",
      OF this]
  show ?thesis by (simp add: transitionInStore_def badger_store_def)
qed

end
