(* ===== verification/BadgerRuns.thy ===== *)
theory BadgerRuns
  imports BadgerGovernance
begin

text \<open>
  Runs of package governance over the persistent adapter: the databases that stored drafts and calls
  of governance reach (\<open>badger_run\<close>), that they stay sound, and that acceptance implements its
  specification on them, from the JSON text of a payload to the stored entity. Then what happens
  without the normal form that the codecs want: governance takes an id from a payload as it is.
\<close>

section \<open>Runs\<close>

text \<open>
  As \<open>gov_run\<close> is for the memory adapter. The database is new at first; a caller stores drafts whose texts
  are valid; the calls may also fail. \<open>merges\<close> says whether merge proposals may be accepted.
\<close>

definition badger_propose_tx ::
    "'t Txn \<Rightarrow> Proposal \<Rightarrow> 't badgerTx \<Rightarrow> (error, 't badgerTx \<times> Proposal) partial_res" where
  "badger_propose_tx T p w = bindP (liftP (badger_PutProposal T p w)) (\<lambda>w'. Some (Inr (w', p)))"

inductive badger_run ::
    "ID set \<Rightarrow> bool \<Rightarrow> ('d, 't, Version, Version \<times> Proposal) DB \<Rightarrow> 't Txn \<Rightarrow> ('d \<Rightarrow> kv) \<Rightarrow> 'd \<Rightarrow> bool"
  for I merges D T contents where
  new_db: "contents d = [metaVersionKey \<mapsto> PutUint64 0] \<Longrightarrow> badger_run I merges D T contents d"
| propose: "badger_run I merges D T contents d \<Longrightarrow> NewProposal i a k opts = Inr p \<Longrightarrow> Proposal_stable p \<Longrightarrow>
    badger_Update D T (badger_propose_tx T p) d = Some (r, d') \<Longrightarrow> badger_run I merges D T contents d'"
| submit: "badger_run I merges D T contents d \<Longrightarrow> actor_ok actor ts '''' \<Longrightarrow>
    Submit (badger_store D T close) (badger_WriteTx T) i actor ts d = Some (res, d') \<Longrightarrow>
    badger_run I merges D T contents d'"
| claim: "badger_run I merges D T contents d \<Longrightarrow> actor_ok actor ts '''' \<Longrightarrow>
    Claim (badger_store D T close) (badger_WriteTx T) i actor ts d = Some (res, d') \<Longrightarrow>
    badger_run I merges D T contents d'"
| withdraw: "badger_run I merges D T contents d \<Longrightarrow> actor_ok actor ts reason \<Longrightarrow>
    Withdraw (badger_store D T close) (badger_WriteTx T) i actor ts reason d = Some (res, d') \<Longrightarrow>
    badger_run I merges D T contents d'"
| reject: "badger_run I merges D T contents d \<Longrightarrow> actor_ok actor ts reason \<Longrightarrow>
    Reject (badger_store D T close) (badger_WriteTx T) i actor ts reason d = Some (res, d') \<Longrightarrow>
    badger_run I merges D T contents d'"
| accept: "badger_run I merges D T contents d \<Longrightarrow> actor_ok actor ts '''' \<Longrightarrow>
    \<forall>p. g_props (kv_graph (contents d)) i = Some p \<longrightarrow>
      payload_kept I env p \<and> (merges \<or> Q_action p \<noteq> ProposalActionMerge) \<Longrightarrow>
    Accept env (badger_store D T close) (badger_WriteTx T) i actor ts d = Some (res, d') \<Longrightarrow>
    badger_run I merges D T contents d'"

definition sound_db :: "ID set \<Rightarrow> bool \<Rightarrow> kv \<Rightarrow> bool" where
  "sound_db I merges m \<longleftrightarrow> governed_db I m \<and> (\<not> merges \<longrightarrow> acyclic (pc_rel (kv_graph m)))"

lemma sound_new: "sound_db I m [metaVersionKey \<mapsto> PutUint64 0]"
proof -
  have "kv_ok [metaVersionKey \<mapsto> PutUint64 0]" "kv_graph [metaVersionKey \<mapsto> PutUint64 0] = empty_graph"
    using new_tx_ok by (simp_all add: new_tx_def)
  moreover have "pc_rel empty_graph = {}" by (simp add: pc_rel_def empty_graph_def)
  moreover have "dom (g_persons empty_graph) = {}" by (simp add: empty_graph_def)
  ultimately show ?thesis
    using graph_wf_empty
    by (auto simp: sound_db_def governed_db_def acyclic_def simp del: kv_graph_simps
        intro!: exI [of _ "0 :: Version"])
qed

text \<open>What soundness says of the graph, and that the specifications keep it.\<close>

definition good_graph :: "ID set \<Rightarrow> bool \<Rightarrow> Graph \<Rightarrow> bool" where
  "good_graph I merges G \<longleftrightarrow> graph_wf G \<and> dom (g_persons G) \<subseteq> I \<and> (\<not> merges \<longrightarrow> acyclic (pc_rel G))"

lemma sound_db_graph:
  "sound_db I m kv \<longleftrightarrow> (\<exists>v. holds_version kv v) \<and> kv_ok kv \<and> good_graph I m (kv_graph kv)"
  by (auto simp: sound_db_def governed_db_def good_graph_def simp del: kv_graph_simps)

text \<open>A refined call keeps a database sound when its specification does.\<close>

lemma db_refines_sound:
  assumes "db_refines contents d v (Some (res, d')) spec" and "sound_db I m (contents d)"
    and "\<And>q G'. spec = Some (q, G') \<Longrightarrow> good_graph I m G'"
  shows "sound_db I m (contents d')"
  using assms(1,2) assms(3)
  by (cases spec) (auto simp: db_refines_def sound_db_graph simp del: kv_graph_simps)

lemma move_spec_good:
  assumes d: "sound_db I m kv" and a: "move_spec i to actor ts reason (kv_graph kv) = Some (q, G')"
    and actor: "actor_ok actor ts reason"
  shows "good_graph I m G'" and "kv_storable G'"
proof -
  have G: "kv_ok kv" "good_graph I m (kv_graph kv)" using d by (simp_all add: sound_db_graph del: kv_graph_simps)
  note k = move_spec_kept [OF kv_ok_storable [OF G(1)] a actor]
  have "pc_rel G' = pc_rel (kv_graph kv)" by (simp add: pc_rel_def k(3) del: kv_graph_simps)
  then show "good_graph I m G'"
    using move_spec_wf [OF _ a] k(2) G(2) by (simp add: good_graph_def del: kv_graph_simps)
  show "kv_storable G'" by (rule k(1))
qed

lemma payload_kept_accepted: "payload_kept I env (accepted p actor ts) = payload_kept I env p"
  by (simp add: payload_kept_def accepted_def)

lemma accept_spec_good:
  assumes d: "sound_db I m kv" and a: "accept_spec env i actor ts (kv_graph kv) = Some (q, G')"
    and actor: "actor_ok actor ts ''''"
    and p: "\<And>p. g_props (kv_graph kv) i = Some p \<Longrightarrow>
      payload_kept I env p \<and> (m \<or> Q_action p \<noteq> ProposalActionMerge)"
  shows "good_graph I m G'" and "kv_storable G'" and "payload_kept I env q"
proof -
  let ?G = "kv_graph kv"
  have G: "kv_ok kv" "graph_wf ?G" "dom (g_persons ?G) \<subseteq> I" "\<not> m \<longrightarrow> acyclic (pc_rel ?G)"
    using d by (simp_all add: sound_db_graph good_graph_def del: kv_graph_simps)
  have kept: "payload_kept I env q \<and> (m \<or> Q_action q \<noteq> ProposalActionMerge)"
    using a
  proof (rule accept_spec_Some)
    fix p assume "g_props ?G i = Some p" "q = accepted p actor ts"
    with p [of p] show ?thesis
      by (simp add: payload_kept_accepted del: kv_graph_simps) (simp add: accepted_def)
  qed
  note k = accept_spec_kept [OF kv_ok_storable [OF G(1)] G(2) a conjunct1 [OF kept] G(3) actor]
  show "kv_storable G'" "payload_kept I env q" using k(1) kept by auto
  show "good_graph I m G'"
    using accept_spec_wf [OF G(2) a] k(2) accept_spec_acyclic [OF _ a] kept G(4)
    by (auto simp: good_graph_def simp del: kv_graph_simps)
qed

lemma sound_governed: "sound_db I m kv \<Longrightarrow> governed_db I kv \<and> (\<exists>v. holds_version kv v)"
  by (auto simp: sound_db_def governed_db_def simp del: kv_graph_simps)

lemma sound_move:
  fixes D :: "('d, 't, Version, Version \<times> Proposal) DB"
  assumes laws: "txn_laws T view" "db_laws D view contents" and total: "txn_total T" "db_commits D"
    and d: "sound_db I m (contents d)" and actor: "actor_ok actor ts reason"
    and r: "transitionInStore (badger_store D T close) (badger_WriteTx T) i to actor ts reason d = Some (res, d')"
  shows "sound_db I m (contents d')"
proof -
  obtain v where v: "holds_version (contents d) v" and g: "governed_db I (contents d)"
    using sound_governed [OF d] by blast
  show ?thesis
    by (rule db_refines_sound [OF badger_transition_refines [OF laws total g v actor,
      of close i to, unfolded r] d move_spec_good(1) [OF d _ actor]])
qed

lemma sound_accept:
  fixes D :: "('d, 't, Version, Version \<times> Proposal) DB"
  assumes laws: "txn_laws T view" "db_laws D view contents" and total: "txn_total T" "db_commits D"
    and sep: "separated I" and d: "sound_db I m (contents d)" and actor: "actor_ok actor ts ''''"
    and p: "\<And>p. g_props (kv_graph (contents d)) i = Some p \<Longrightarrow>
      payload_kept I env p \<and> (m \<or> Q_action p \<noteq> ProposalActionMerge)"
    and r: "Accept env (badger_store D T close) (badger_WriteTx T) i actor ts d = Some (res, d')"
  shows "sound_db I m (contents d')"
proof -
  obtain v where v: "holds_version (contents d) v" and g: "governed_db I (contents d)"
    using sound_governed [OF d] by blast
  have kept: "payload_kept I env q" "good_graph I m G'"
    if "accept_spec env i actor ts (kv_graph (contents d)) = Some (q, G')" for q G'
    using accept_spec_good(3,1) [OF d that actor p] by blast+
  have "db_refines contents d v (Some (res, d')) (accept_spec env i actor ts (kv_graph (contents d)))"
    unfolding r [symmetric] by (rule badger_Accept_refines [OF laws total g sep v actor]) (rule kept(1))
  from db_refines_sound [OF this d kept(2)] show ?thesis .
qed

definition propose_spec :: "Proposal \<Rightarrow> Graph \<Rightarrow> (Proposal \<times> Graph) option" where
  "propose_spec p G =
     (if \<exists>old. g_props G (Q_id p) = Some old \<and> IsTerminal (Q_state old) \<and> Q_state old \<noteq> Q_state p
      then None else Some (p, G\<lparr>g_props := (g_props G)(Q_id p \<mapsto> p)\<rparr>))"

lemma propose_spec_good:
  assumes d: "sound_db I m kv" and p: "NewProposal i a k opts = Inr p"
    and s: "propose_spec p (kv_graph kv) = Some (q, G')"
  shows "good_graph I m G'"
proof -
  have aud: "audited p" by (rule lifecycle_audited [OF lifecycle.draft [OF p]])
  have G': "G' = (kv_graph kv)\<lparr>g_props := (g_props (kv_graph kv))(Q_id p \<mapsto> p)\<rparr>"
    using s by (auto simp: propose_spec_def simp del: kv_graph_simps split: if_splits)
  show ?thesis
    using d graph_wf_put_prop [OF _ aud, of "kv_graph kv"]
    unfolding G' by (simp add: sound_db_graph good_graph_def pc_rel_def del: kv_graph_simps)
qed

lemma badger_propose_tx:
  assumes laws: "txn_laws T view" and total: "txn_total T" and ok: "kv_ok (view (bt_tx w))"
    and p: "NewProposal i a k opts = Inr p" "Proposal_stable p"
  shows "refines_db view (badger_propose_tx T p w) (propose_spec p (kv_graph (view (bt_tx w))))"
proof -
  have "audited p" by (rule lifecycle_audited [OF lifecycle.draft [OF p(1)]])
  then have q: "intent_ok p" "replayed p" by (simp_all add: audited_replayed) (simp add: audited_def)
  show ?thesis
    using put_proposal_acts [OF laws, of w p, OF ok q p(2)] total
    by (auto simp: refines_db_def propose_spec_def badger_propose_tx_def liftP_def acts_def
        simp del: kv_graph_simps split: if_splits)
qed

lemma badger_propose_refines:
  fixes D :: "('d, 't, Version, Version \<times> Proposal) DB"
  assumes laws: "txn_laws T view" "db_laws D view contents" and total: "txn_total T" "db_commits D"
    and d: "governed_db I (contents d)" "holds_version (contents d) v"
    and p: "NewProposal i a k opts = Inr p" "Proposal_stable p"
  shows "db_refines contents d v (drop_version (badger_Update D T (badger_propose_tx T p) d))
    (propose_spec p (kv_graph (contents d)))"
proof -
  let ?w = "\<lparr>bt_tx = db_NewTransaction D True d, bt_version = v\<rparr>"
  have view: "view (bt_tx ?w) = contents d" using laws(2) by (simp add: db_laws_def)
  have ok: "kv_ok (contents d)" using d(1) by (simp add: governed_db_def)
  from badger_Update_refines [where f = "badger_propose_tx T p" and d = d, OF laws total d(2)
      badger_propose_tx [OF laws(1) total(1), of ?w, unfolded view, OF ok p]]
  show ?thesis .
qed

lemma sound_propose:
  fixes D :: "('d, 't, Version, Version \<times> Proposal) DB"
  assumes laws: "txn_laws T view" "db_laws D view contents" and total: "txn_total T" "db_commits D"
    and d: "sound_db I m (contents d)" and p: "NewProposal i a k opts = Inr p" "Proposal_stable p"
    and r: "badger_Update D T (badger_propose_tx T p) d = Some (res, d')"
  shows "sound_db I m (contents d')"
proof -
  obtain v where v: "holds_version (contents d) v" and g: "governed_db I (contents d)"
    using sound_governed [OF d] by blast
  have ref: "db_refines contents d v (Some ((case res of Inl e \<Rightarrow> Inl e | Inr (v, out) \<Rightarrow> Inr out), d'))
      (propose_spec p (kv_graph (contents d)))"
    using badger_propose_refines [OF laws total g v p]
    by (simp only: r drop_version_def option.map prod.case)
  show ?thesis by (rule db_refines_sound [OF ref d propose_spec_good [OF d p(1)]])
qed

lemma badger_run_sound:
  fixes D :: "('d, 't, Version, Version \<times> Proposal) DB"
  assumes laws: "txn_laws T view" "db_laws D view contents" and total: "txn_total T" "db_commits D"
    and sep: "separated I"
  shows "badger_run I m D T contents d \<Longrightarrow> sound_db I m (contents d)"
proof (induction rule: badger_run.induct)
  case (new_db d)
  then show ?case by (simp only: sound_new)
next
  case (propose d i a k opts p r d')
  then show ?case by (blast intro: sound_propose [OF laws total])
next
  case (accept d actor ts i env close res d')
  then show ?case by (blast intro: sound_accept [OF laws total sep])
qed (simp_all only: Submit_def Claim_def Withdraw_def Reject_def,
  (erule sound_move [OF laws total]; assumption)+)

section \<open>A sample run\<close>

text \<open>The payload of a proposal for the sample person, as its proposer writes it.\<close>

definition sample_payload :: PayloadCreatePerson where
  "sample_payload = \<lparr>PP_NewID = ''p1'', PP_Names = P_names BadgerRead.sample_person,
     PP_Gender = ''female'', PP_Birth = P_birth BadgerRead.sample_person, PP_Death = zero_TimeRange,
     PP_Notes = ''x < y'', PP_UnknownAncestor = False\<rparr>"

definition create_draft :: Proposal where
  "create_draft = \<lparr>Q_id = ''q1'', Q_state = ProposalDraft, Q_action = ProposalActionCreate,
     Q_entityKind = EntityKindPerson, Q_targetID = '''', Q_secondaryID = '''',
     Q_payload = print_json (person_payload_json sample_payload), Q_reason = '''', Q_sources = [],
     Q_author = ''u'', Q_createdAt = 5, Q_history = []\<rparr>"

lemma create_draft_new:
  "NewProposal ''q1'' ProposalActionCreate EntityKindPerson
     \<lparr>QO_TargetID = '''', QO_SecondaryID = '''', QO_Payload = print_json (person_payload_json sample_payload),
      QO_Reason = '''', QO_Sources = [], QO_Author = ''u'', QO_CreatedAt = 5\<rparr> = Inr create_draft"
  by (simp add: NewProposal_Inr create_draft_def target_ok_def ProposalAction_IsValid_def
      EntityKind_IsValid_def go_consts)

lemma create_draft_stable: "Proposal_stable create_draft"
  by (simp add: create_draft_def Proposal_stable_def id_stable_def int64_def sample_simps)

lemma sample_payload_ok: "person_payload_ok sample_payload"
  by (simp add: sample_payload_def person_payload_ok_def BadgerRead.sample_person_def Name_ok_def
      TimeRange_ok_def zero_TimeRange_def KnownYearBound_def UnknownYear_def int64_def NameTypeFull_def
      CalendarGregorianProleptic_def sample_simps)

lemma sample_payload_read: "person_payload (Q_payload create_draft) = Inr sample_payload"
  by (simp add: create_draft_def payload_print(1) [OF sample_payload_ok])

lemma sample_payload_person: "spec_person (go_env i) sample_payload = BadgerRead.sample_person"
  by (simp add: spec_person_def sample_payload_def choose_id_def ID_IsZero_def BadgerRead.sample_person_def)

lemma sample_ts: "actor_ok ''u'' 7 ''''"
  by (simp add: actor_ok_def int64_def sample_simps)

lemma single_separated: "separated {''p1''}"
  by (simp add: separated_def sep_def)

lemma db_refines_commit:
  "db_refines contents d v x (Some (q, G')) \<Longrightarrow> \<exists>d'. x = Some (Inr q, d') \<and> kv_graph (contents d') = G'"
  "db_refines contents d v (drop_version y) (Some (q, G')) \<Longrightarrow> \<exists>r d'. y = Some (r, d') \<and> kv_graph (contents d') = G'"
  by (auto simp: db_refines_def drop_version_def)

lemma move_spec_next:
  assumes "g_props G i = Some p" and "CanTransition (Q_state p) to" and "to \<noteq> ProposalRejected"
  shows "\<exists>q. move_spec i to actor ts reason G = Some (q, G\<lparr>g_props := (g_props G)(i \<mapsto> q)\<rparr>) \<and>
    Q_state q = to \<and> Q_action q = Q_action p \<and> Q_entityKind q = Q_entityKind p \<and> Q_payload q = Q_payload p"
  using assms by (simp add: move_spec_def Let_def)

abbreviation gov_db :: "((string \<times> string) list, (string \<times> string) list, Version, Version \<times> Proposal) DB" where
  "gov_db \<equiv> alist_db"

text \<open>Its draft is stored, submitted and claimed on a new database.\<close>

lemma sample_badger_run:
  "\<exists>d p. badger_run {''p1''} False gov_db alist_txn map_of d \<and>
     g_persons (kv_graph (map_of d)) = Map.empty \<and>
     g_props (kv_graph (map_of d)) ''q1'' = Some p \<and> Q_state p = ProposalUnderReview \<and>
     Q_action p = ProposalActionCreate \<and> Q_entityKind p = EntityKindPerson \<and>
     Q_payload p = Q_payload create_draft"
proof -
  note A = alist_txn_laws alist_db_laws(1) alist_txn_total alist_db_laws(2)
  note sound = badger_run_sound [OF A single_separated]
  have gov: "\<exists>v. governed_db {''p1''} (map_of d) \<and> holds_version (map_of d) v"
    if "badger_run {''p1''} False gov_db alist_txn map_of d" for d
    using sound [OF that] by (simp add: sound_db_def governed_db_def del: kv_graph_simps)
  have move: "\<exists>d'. transitionInStore (badger_store gov_db alist_txn (\<lambda>d. d)) (badger_WriteTx alist_txn) ''q1'' to
        ''u'' 7 '''' d = Some (Inr q, d') \<and> kv_graph (map_of d') = G'"
    if r: "badger_run {''p1''} False gov_db alist_txn map_of d"
      and m: "move_spec ''q1'' to ''u'' 7 '''' (kv_graph (map_of d)) = Some (q, G')" for d to q G'
  proof -
    from gov [OF r] obtain v where v: "governed_db {''p1''} (map_of d)" "holds_version (map_of d) v" by blast
    show ?thesis
      using badger_transition_refines [OF A v sample_ts, where close = "\<lambda>d. d"] unfolding m [symmetric]
      by (metis db_refines_commit(1) m)
  qed
  let ?d0 = "[(metaVersionKey, PutUint64 0)]"
  have r0: "badger_run {''p1''} False gov_db alist_txn map_of ?d0" by (rule new_db) simp
  have "kv_graph (map_of ?d0) = empty_graph" using new_tx_ok(2) by (simp add: new_tx_def del: kv_graph_simps)
  then have spec: "propose_spec create_draft (kv_graph (map_of ?d0)) =
      Some (create_draft, empty_graph\<lparr>g_props := [''q1'' \<mapsto> create_draft]\<rparr>)"
    by (simp add: propose_spec_def empty_graph_def create_draft_def del: kv_graph_simps)
  from gov [OF r0] obtain v where v: "governed_db {''p1''} (map_of ?d0)" "holds_version (map_of ?d0) v"
    by blast
  from db_refines_commit(2) [OF badger_propose_refines [OF A v create_draft_new create_draft_stable, unfolded spec]]
  obtain res d1 where u1: "badger_Update gov_db alist_txn (badger_propose_tx alist_txn create_draft) ?d0 = Some (res, d1)"
    and G1: "kv_graph (map_of d1) = empty_graph\<lparr>g_props := [''q1'' \<mapsto> create_draft]\<rparr>" by blast
  have d1: "g_props (kv_graph (map_of d1)) ''q1'' = Some create_draft" unfolding G1 by simp
  have r1: "badger_run {''p1''} False gov_db alist_txn map_of d1"
    by (rule propose [OF r0 create_draft_new create_draft_stable u1])
  obtain p2 where m2: "move_spec ''q1'' ProposalSubmitted ''u'' 7 '''' (kv_graph (map_of d1)) =
      Some (p2, (kv_graph (map_of d1))\<lparr>g_props := (g_props (kv_graph (map_of d1)))(''q1'' \<mapsto> p2)\<rparr>)"
    and p2: "Q_state p2 = ProposalSubmitted" "Q_action p2 = ProposalActionCreate"
    "Q_entityKind p2 = EntityKindPerson" "Q_payload p2 = Q_payload create_draft"
    using move_spec_next [OF d1, of ProposalSubmitted "''u''" 7 "''''"]
    by (auto simp: create_draft_def CanTransition_cases ProposalSubmitted_def ProposalRejected_def
        simp del: kv_graph_simps)
  from move [OF r1 m2] obtain d2 res2 where d2: "Submit (badger_store gov_db alist_txn (\<lambda>d. d)) (badger_WriteTx alist_txn) ''q1'' ''u'' 7 d1 =
      Some (res2, d2)" "g_props (kv_graph (map_of d2)) ''q1'' = Some p2"
      "g_persons (kv_graph (map_of d2)) = g_persons (kv_graph (map_of d1))"
    by (auto simp: Submit_def simp del: kv_graph_simps)
  have r2: "badger_run {''p1''} False gov_db alist_txn map_of d2"
    by (rule submit [OF r1 sample_ts d2(1)])
  obtain p3 where m3: "move_spec ''q1'' ProposalUnderReview ''u'' 7 '''' (kv_graph (map_of d2)) =
      Some (p3, (kv_graph (map_of d2))\<lparr>g_props := (g_props (kv_graph (map_of d2)))(''q1'' \<mapsto> p3)\<rparr>)"
    and p3: "Q_state p3 = ProposalUnderReview" "Q_action p3 = ProposalActionCreate"
    "Q_entityKind p3 = EntityKindPerson" "Q_payload p3 = Q_payload create_draft"
    using p2 move_spec_next [OF d2(2), of ProposalUnderReview "''u''" 7 "''''"]
    by (auto simp: CanTransition_cases ProposalUnderReview_def ProposalRejected_def simp del: kv_graph_simps)
  from move [OF r2 m3] obtain d3 res3 where d3: "Claim (badger_store gov_db alist_txn (\<lambda>d. d)) (badger_WriteTx alist_txn) ''q1'' ''u'' 7 d2 =
      Some (res3, d3)" "g_props (kv_graph (map_of d3)) ''q1'' = Some p3"
      "g_persons (kv_graph (map_of d3)) = g_persons (kv_graph (map_of d2))"
    by (auto simp: Claim_def simp del: kv_graph_simps)
  have r3: "badger_run {''p1''} False gov_db alist_txn map_of d3"
    by (rule claim [OF r2 sample_ts d3(1)])
  moreover have "g_persons (kv_graph (map_of d3)) = Map.empty"
    unfolding d3(3) d2(3) G1 by (simp add: empty_graph_def)
  ultimately show ?thesis using d3(2) p3 by blast
qed

section \<open>Properties\<close>

text \<open>
  C17: acceptance on the persistent adapter implements the same specification as in memory. Take a
  database of good layout with a well-formed graph whose person ids are separated, a library that
  does not fail, and a proposal whose payload asks for an entity in the form that the codecs keep.
  Then \<open>Accept\<close> returns: where \<open>accept_spec\<close> refuses, an error with nothing changed; otherwise the
  accepted proposal, with the graph of the specification in the database under the next version.
\<close>

theorem badger_Accept_implements_spec:
  fixes D :: "('d, 't, Version, Version \<times> Proposal) DB"
  assumes "txn_laws T view" "db_laws D view contents" and "txn_total T" "db_commits D"
    and "governed_db I (contents d)" "separated I" "holds_version (contents d) v"
    and "actor_ok actor ts ''''"
    and "\<And>p. g_props (kv_graph (contents d)) i = Some p \<Longrightarrow> payload_kept I env p"
  shows "case accept_spec env i actor ts (kv_graph (contents d)) of
      None \<Rightarrow> \<exists>e d'. Accept env (badger_store D T close) (badger_WriteTx T) i actor ts d = Some (Inl e, d') \<and>
        contents d' = contents d
    | Some (q, G) \<Rightarrow> \<exists>d'. Accept env (badger_store D T close) (badger_WriteTx T) i actor ts d = Some (Inr q, d') \<and>
        kv_ok (contents d') \<and> kv_graph (contents d') = G \<and> holds_version (contents d') (v + 1)"
proof -
  have "payload_kept I env q" if "accept_spec env i actor ts (kv_graph (contents d)) = Some (q, G')" for q G'
    using that
  proof (rule accept_spec_Some)
    fix p assume "g_props (kv_graph (contents d)) i = Some p" "q = accepted p actor ts"
    with assms(9) [of p] show ?thesis by (simp only: payload_kept_accepted)
  qed
  from badger_Accept_refines [OF assms(1-8) this] show ?thesis
    unfolding db_refines_def .
qed

text \<open>The sample person goes from the text of its payload into the database.\<close>

theorem badger_Accept_implements_spec_witness:
  "\<exists>d q d'. Accept (go_env ''n'') (badger_store gov_db alist_txn (\<lambda>d. d)) (badger_WriteTx alist_txn)
      ''q1'' ''u'' 7 d = Some (Inr q, d') \<and>
    g_persons (kv_graph (map_of d)) ''p1'' = None \<and>
    g_persons (kv_graph (map_of d')) ''p1'' = Some BadgerRead.sample_person"
proof -
  note A = alist_txn_laws alist_db_laws(1) alist_txn_total alist_db_laws(2)
  obtain d p where r: "badger_run {''p1''} False gov_db alist_txn map_of d"
    and none: "g_persons (kv_graph (map_of d)) = Map.empty"
    and p: "g_props (kv_graph (map_of d)) ''q1'' = Some p" "Q_state p = ProposalUnderReview"
      "Q_action p = ProposalActionCreate" "Q_entityKind p = EntityKindPerson"
      "Q_payload p = Q_payload create_draft"
    using sample_badger_run by blast
  have "sound_db {''p1''} False (map_of d)" by (rule badger_run_sound [OF A single_separated r])
  then obtain v where v: "governed_db {''p1''} (map_of d)" "holds_version (map_of d) v"
    by (auto simp: sound_db_def governed_db_def simp del: kv_graph_simps)
  let ?env = "go_env ''n''" and ?x = BadgerRead.sample_person
  have read: "env_person ?env (Q_payload p) = Inr sample_payload"
    using p(5) sample_payload_read by simp
  have x: "P_id ?x = ''p1''" by (simp add: BadgerRead.sample_person_def)
  have "payload_kept {''p1''} ?env p"
    using p(4) read sample_person_ok x by (simp add: payload_kept_def sample_payload_person)
  with p(1) have kept: "payload_kept {''p1''} ?env p'" if "g_props (kv_graph (map_of d)) ''q1'' = Some p'" for p'
    using that by simp
  have acc: "Q_action (accepted p a t) = Q_action p" "Q_entityKind (accepted p a t) = Q_entityKind p"
    "Q_payload (accepted p a t) = Q_payload p" for a t by (simp_all add: accepted_def)
  have "\<not> fabricated sample_payload" by (simp add: fabricated_def sample_payload_def)
  then have "apply_spec ?env (accepted p ''u'' 7) (kv_graph (map_of d)) =
      Some ((kv_graph (map_of d))\<lparr>g_persons := [''p1'' \<mapsto> ?x]\<rparr>)"
    using read sample_person_ok(1)
    by (simp add: apply_spec_def create_spec_def acc p(3,4) sample_payload_person x none Let_def
        del: kv_graph_simps go_env_simps)
  then obtain G' where a: "accept_spec ?env ''q1'' ''u'' 7 (kv_graph (map_of d)) = Some (accepted p ''u'' 7, G')"
    and G': "g_persons G' ''p1'' = Some ?x"
    using p(1,2) by (simp add: accept_spec_def Let_def del: kv_graph_simps)
  from badger_Accept_implements_spec [where i = "''q1''" and env = ?env and close = "\<lambda>d. d",
      OF A v(1) single_separated v(2) sample_ts kept, simplified a option.case prod.case]
  obtain d' where d': "Accept ?env (badger_store gov_db alist_txn (\<lambda>d. d)) (badger_WriteTx alist_txn) ''q1'' ''u'' 7 d =
      Some (Inr (accepted p ''u'' 7), d')" "kv_graph (map_of d') = G'" by blast
  show ?thesis
    by (rule exI [of _ d], rule exI [of _ "accepted p ''u'' 7"], rule exI [of _ d'])
      (simp only: d' none G' simp_thms)
qed



text \<open>
  Governance uses the id in a payload as it is, while the codec trims what it reads: the person is stored
  under the key of one id and read as another, or not at all.
\<close>

lemma decodePerson_trims: "decodePerson buf = Inr p \<Longrightarrow> P_id p = trim_space (P_id p)"
  using decodePerson_stable [of buf p] by (simp add: Person_stable_def id_stable_def)

lemma payload_range_ok: "TimeRange_ok r \<Longrightarrow> pred_option timeRangeWire_ok (range_pointer r)"
  by (auto simp: range_pointer_def TimeRange_ok_def timeRangeWire_ok_def encodeTimeRange_def Let_def)

lemma payload_person_wire_ok:
  assumes "utf8 (P_id p)" "list_all Name_ok (P_names p)" "utf8 (P_gender p)" "utf8 (P_notes p)"
    and "TimeRange_ok (P_birth p)" "TimeRange_ok (P_death p)"
  shows "personWire_ok (person_wire p)"
  using assms
  by (simp add: personWire_ok_def person_wire_def ID_String_def payload_range_ok list.pred_map)
    (simp add: list_all_iff Name_ok_def nameWire_ok_def name_wire_def)

lemma payload_wire_ok:
  assumes "person_payload_ok pl" and "utf8 (choose_id env (PP_NewID pl))"
  shows "personWire_ok (person_wire (spec_person env pl))"
  using assms TimeRange_read(2)
  by (intro payload_person_wire_ok) (auto simp: spec_person_def person_payload_ok_def GenderUnset_def)

text \<open>What the create handler stores.\<close>

lemma create_person_stores:
  assumes "create_person env W q w = Inr w'" and "env_person env (Q_payload q) = Inr pl"
  shows "wt_PutPerson W (spec_person env pl) w = Inr w'" "choose_id env (PP_NewID pl) \<noteq> ''''"
proof -
  from assms have "\<exists>x. x = spec_person env pl \<and> P_id x \<noteq> '''' \<and> wt_PutPerson W x w = Inr w'"
    by (auto simp: create_person_def Let_def bindE_eq_Inr NewPerson_Inr NewUnknownAncestor_Inr
        spec_person_def split: if_splits)
  then show "wt_PutPerson W (spec_person env pl) w = Inr w'" "choose_id env (PP_NewID pl) \<noteq> ''''"
    by (auto simp: spec_person_def split: if_splits)
qed

lemma decode_spaced:
  assumes "personWire_ok (person_wire p)" and "encodePerson p = Inr buf" and "decodePerson buf = Inr x"
  shows "trim_space (P_id p) \<noteq> ''''" "P_id x = trim_space (P_id p)"
proof -
  have buf: "buf = print_json (personWire_json (person_wire p))"
    using assms(2) by (simp add: encodePerson_def Marshal_def)
  have "person_of_wire (person_wire p) = Inr x"
    using assms(1,3) unfolding buf
    by (simp add: decodePerson_def Unmarshal_plain personWire_plain decode_personWire_json)
  then obtain j where "ParseID (P_id p) = Inr j" "P_id x = j"
    by (auto simp: person_of_wire_def person_wire_def ID_String_def bindE_eq_Inr NewPerson_Inr
        NewUnknownAncestor_Inr split: if_splits)
  then show "trim_space (P_id p) \<noteq> ''''" "P_id x = trim_space (P_id p)"
    by (auto simp: ParseID_def Let_def split: if_splits)
qed

lemma decode_loop_error:
  "item \<in> set items \<Longrightarrow> bindE (snd item) dec = Inl e \<Longrightarrow> snd (decode_loop dec items) \<noteq> None"
  by (induction items) (auto split: sum.split)


text \<open>A person without a name under the id of one blank, stored and lost.\<close>

definition blank_payload :: PayloadCreatePerson where
  "blank_payload = sample_payload\<lparr>PP_NewID := '' ''\<rparr>"

definition blank_draft :: Proposal where
  "blank_draft = create_draft\<lparr>Q_payload := print_json (person_payload_json blank_payload)\<rparr>"


end
