(* ===== verification/Callbacks.thy ===== *)
theory Callbacks
  imports Governance
begin

text \<open>
  What the callbacks of package governance keep (src/governance/apply.go). They reach a transaction
  through the interface \<open>WriteTx\<close> only, so whatever its seven writes keep of the transaction, every
  callback keeps.
\<close>

locale tx_keeps =
  fixes W :: "'s WriteTx" and P :: "'s \<Rightarrow> bool"
  assumes PutPerson: "wt_PutPerson W p w = Inr w' \<Longrightarrow> P w \<Longrightarrow> P w'"
    and DeletePerson: "wt_DeletePerson W i w = Inr w' \<Longrightarrow> P w \<Longrightarrow> P w'"
    and PutRelationship: "wt_PutRelationship W r w = Inr w' \<Longrightarrow> P w \<Longrightarrow> P w'"
    and DeleteRelationship: "wt_DeleteRelationship W i w = Inr w' \<Longrightarrow> P w \<Longrightarrow> P w'"
    and PutSource: "wt_PutSource W s w = Inr w' \<Longrightarrow> P w \<Longrightarrow> P w'"
    and DeleteSource: "wt_DeleteSource W i w = Inr w' \<Longrightarrow> P w \<Longrightarrow> P w'"
    and PutProposal: "wt_PutProposal W q w = Inr w' \<Longrightarrow> P w \<Longrightarrow> P w'"
begin

lemmas writes_keep = PutPerson DeletePerson PutRelationship DeleteRelationship PutSource DeleteSource PutProposal

lemma create_keeps:
  "create_person env W q w = Inr w' \<Longrightarrow> P w \<Longrightarrow> P w'"
  "create_relationship env W q w = Some (Inr w') \<Longrightarrow> P w \<Longrightarrow> P w'"
  "create_source env W q w = Inr w' \<Longrightarrow> P w \<Longrightarrow> P w'"
  unfolding create_person_def create_relationship_def create_source_def liftP_def Let_def
  by (auto simp: bindE_eq_Inr bindP_eq_Inr dest: writes_keep split: sum.splits if_splits)

lemma merge_loop_keeps: "merge_loop W t x rs w = Inr w' \<Longrightarrow> P w \<Longrightarrow> P w'"
proof (induction rs arbitrary: w)
  case (Cons r rs)
  then show ?case
    by (auto simp: bindE_eq_Inr Let_def dest!: writes_keep(3,4) split: if_splits)
qed simp

lemma apply_keeps:
  assumes "apply_proposal env W q w = Some (Inr w')" and "P w"
  shows "P w'"
proof -
  have r: "applyRetract W q w = Inr w' \<Longrightarrow> P w'"
    using assms(2) unfolding applyRetract_def
    by (auto dest: writes_keep split: if_splits)
  have m: "applyMerge W q w = Inr w' \<Longrightarrow> P w'"
    using assms(2) unfolding applyMerge_def Let_def
    by (auto simp: bindE_eq_Inr dest: writes_keep merge_loop_keeps
        split: if_splits prod.splits option.splits)
  have s: "applySameAs W q w = Inr w' \<Longrightarrow> P w'"
    using assms(2) unfolding applySameAs_def Let_def
    by (auto simp: bindE_eq_Inr dest: writes_keep)
  show ?thesis
    using assms r m s create_keeps
    by (auto simp: apply_proposal_def applyCreate_def applyUpdate_def liftP_def split: if_splits)
qed

lemma tx_keeps:
  "accept_tx env W i actor ts w = Some (Inr (w', q)) \<Longrightarrow> P w \<Longrightarrow> P w'"
  "transition_tx W i to actor ts reason w = Some (Inr (w', q)) \<Longrightarrow> P w \<Longrightarrow> P w'"
  unfolding accept_tx_def transition_tx_def liftP_def
  by (auto simp: bindP_eq_Inr dest: writes_keep(7) apply_keeps)

end

end
