(* ===== verification/BadgerThreads.thy ===== *)
theory BadgerThreads
  imports BadgerRuns Callbacks
begin

text \<open>
  Concurrent calls of \<open>Update\<close> on the persistent adapter (src/store/badger/badger.go). The library runs
  transactions side by side, each on the snapshot of its begin, and refuses a commit when a key that
  the transaction got has been committed since (\<open>occ_laws\<close>). Scans are not covered by that: a key
  that a scan would have met may appear. What makes the calls serial is the version counter, which
  every \<open>Update\<close> gets first and sets last.
\<close>

section \<open>The library under concurrent calls\<close>

text \<open>
  \<open>NewTransaction(true)\<close>, and \<open>Commit\<close>, whose first argument is the set of the keys that the
  transaction has got (the library records them in it).
\<close>

record ('d, 't) SharedDB =
  sd_NewTransaction :: "'d \<Rightarrow> 't"
  sd_Commit :: "string set \<Rightarrow> 't \<Rightarrow> 'd \<Rightarrow> error option \<times> 'd"

text \<open>What the library remembers to detect conflicts: times of commits.\<close>

record ('d, 't) Oracle =
  oc_now :: "'d \<Rightarrow> nat"
  oc_last :: "'d \<Rightarrow> string \<Rightarrow> nat"
  oc_began :: "'t \<Rightarrow> nat"
  oc_sets :: "'t \<Rightarrow> string set"

definition occ_laws ::
    "('d, 't) SharedDB \<Rightarrow> 't Txn \<Rightarrow> ('d, 't) Oracle \<Rightarrow> ('t \<Rightarrow> kv) \<Rightarrow> ('d \<Rightarrow> kv) \<Rightarrow> bool" where
  "occ_laws S T O' view contents \<longleftrightarrow>
     (\<forall>d. view (sd_NewTransaction S d) = contents d \<and> oc_sets O' (sd_NewTransaction S d) = {} \<and>
        oc_began O' (sd_NewTransaction S d) = oc_now O' d) \<and>
     (\<forall>k v t t'. tx_Set T k v t = Inr t' \<longrightarrow>
        oc_sets O' t' = insert k (oc_sets O' t) \<and> oc_began O' t' = oc_began O' t) \<and>
     (\<forall>k t t'. tx_Delete T k t = Inr t' \<longrightarrow>
        oc_sets O' t' = insert k (oc_sets O' t) \<and> oc_began O' t' = oc_began O' t) \<and>
     (\<forall>gets t d d' e. sd_Commit S gets t d = (Some e, d') \<longrightarrow>
        contents d' = contents d \<and> oc_now O' d' = oc_now O' d \<and> oc_last O' d' = oc_last O' d) \<and>
     (\<forall>gets t d d'. sd_Commit S gets t d = (None, d') \<longrightarrow>
        (\<forall>k \<in> gets. oc_last O' d k \<le> oc_began O' t) \<and>
        contents d' = (\<lambda>k. if k \<in> oc_sets O' t then view t k else contents d k) \<and>
        oc_now O' d < oc_now O' d' \<and>
        oc_last O' d' = (\<lambda>k. if k \<in> oc_sets O' t then oc_now O' d' else oc_last O' d k))"

lemma occ_lawsD:
  assumes "occ_laws S T O' view contents"
  shows "view (sd_NewTransaction S d) = contents d" "oc_began O' (sd_NewTransaction S d) = oc_now O' d"
    and "tx_Set T k v t = Inr t' \<Longrightarrow> oc_sets O' t' = insert k (oc_sets O' t) \<and> oc_began O' t' = oc_began O' t"
    and "tx_Delete T k t = Inr t' \<Longrightarrow> oc_sets O' t' = insert k (oc_sets O' t) \<and> oc_began O' t' = oc_began O' t"
    and "sd_Commit S gets t d = (Some e, d') \<Longrightarrow>
      contents d' = contents d \<and> oc_now O' d' = oc_now O' d \<and> oc_last O' d' = oc_last O' d"
    and "sd_Commit S gets t d = (None, d') \<Longrightarrow> (\<forall>k \<in> gets. oc_last O' d k \<le> oc_began O' t) \<and>
      contents d' = (\<lambda>k. if k \<in> oc_sets O' t then view t k else contents d k) \<and>
      oc_now O' d < oc_now O' d' \<and>
      oc_last O' d' = (\<lambda>k. if k \<in> oc_sets O' t then oc_now O' d' else oc_last O' d k)"
  using assms unfolding occ_laws_def by blast+


section \<open>Goroutines that call \<open>Update\<close>\<close>

text \<open>The callback that \<open>Update\<close> hands to the library.\<close>

definition update_callback ::
    "'t Txn \<Rightarrow> ('t badgerTx \<Rightarrow> (error, 't badgerTx \<times> 'o) partial_res) \<Rightarrow> 't \<Rightarrow>
     (error, 't \<times> Version \<times> 'o) partial_res" where
  "update_callback T f btx =
     bindP (Some (readVersion T btx)) (\<lambda>curVer.
     bindP (f \<lparr>bt_tx = btx, bt_version = curVer\<rparr>) (\<lambda>(w, out).
       let newVer = curVer + 1 in
       Some (bindE (tx_Set T metaVersionKey (PutUint64 newVer) (bt_tx w))
         (\<lambda>btx. Inr (btx, (newVer, out))))))"

lemma badger_Update_callback: "badger_Update D T f = db_Update D (update_callback T f)"
  by (simp add: badger_Update_def update_callback_def [abs_def])

text \<open>
  The calls under way, each with its transaction, and what has been returned, in order. A callback
  runs on its own transaction only, so the moments that matter are the begin and the commit.
\<close>

type_synonym ('t, 'o) Callback = "'t badgerTx \<Rightarrow> (error, 't badgerTx \<times> 'o) partial_res"

record ('d, 't, 'o) Conc =
  cc_db :: 'd
  cc_calls :: "nat \<Rightarrow> (('t, 'o) Callback \<times> 't) option"
  cc_done :: "(('t, 'o) Callback \<times> (error + Version \<times> 'o)) list"

inductive conc_step ::
    "('d, 't) SharedDB \<Rightarrow> 't Txn \<Rightarrow> ('t, 'o) Callback set \<Rightarrow> ('d, 't, 'o) Conc \<Rightarrow> ('d, 't, 'o) Conc \<Rightarrow> bool"
  for S T F where
  start: "cc_calls c i = None \<Longrightarrow> f \<in> F \<Longrightarrow>
    conc_step S T F c (c\<lparr>cc_calls := (cc_calls c)(i \<mapsto> (f, sd_NewTransaction S (cc_db c)))\<rparr>)"
| fail: "cc_calls c i = Some (f, t) \<Longrightarrow> update_callback T f t = Some (Inl e) \<Longrightarrow>
    conc_step S T F c (c\<lparr>cc_calls := (cc_calls c)(i := None), cc_done := cc_done c @ [(f, Inl e)]\<rparr>)"
| commit: "cc_calls c i = Some (f, t) \<Longrightarrow> update_callback T f t = Some (Inr (t', out)) \<Longrightarrow>
    metaVersionKey \<in> gets \<Longrightarrow> sd_Commit S gets t' (cc_db c) = (res, d') \<Longrightarrow>
    conc_step S T F c (c\<lparr>cc_db := d', cc_calls := (cc_calls c)(i := None),
      cc_done := cc_done c @ [(f, case res of None \<Rightarrow> Inr out | Some e \<Rightarrow> Inl e)]\<rparr>)"

lemma start_to:
  "cc_calls c i = None \<Longrightarrow> f \<in> F \<Longrightarrow>
   c' = c\<lparr>cc_calls := (cc_calls c)(i \<mapsto> (f, sd_NewTransaction S (cc_db c)))\<rparr> \<Longrightarrow> conc_step S T F c c'"
  by (simp add: conc_step.start)

lemma commit_to:
  "cc_calls c i = Some (f, t) \<Longrightarrow> update_callback T f t = Some (Inr (t', out)) \<Longrightarrow>
   metaVersionKey \<in> gets \<Longrightarrow> cc_db c = d \<Longrightarrow> sd_Commit S gets t' d = (res, d') \<Longrightarrow>
   c' = c\<lparr>cc_db := d', cc_calls := (cc_calls c)(i := None),
     cc_done := cc_done c @ [(f, case res of None \<Rightarrow> Inr out | Some e \<Rightarrow> Inl e)]\<rparr> \<Longrightarrow> conc_step S T F c c'"
  by (auto intro: conc_step.commit)

definition start_conc :: "'d \<Rightarrow> ('d, 't, 'o) Conc" where
  "start_conc d = \<lparr>cc_db = d, cc_calls = \<lambda>_. None, cc_done = []\<rparr>"


section \<open>The calls one after the other\<close>

text \<open>Every call that succeeded, run alone on what the one before it left.\<close>

fun serial ::
    "'t Txn \<Rightarrow> ('t \<Rightarrow> kv) \<Rightarrow> kv \<Rightarrow> (('t, 'o) Callback \<times> (error + Version \<times> 'o)) list \<Rightarrow> kv \<Rightarrow> bool" where
  "serial T view m [] m' = (m' = m)"
| "serial T view m ((f, Inl e) # cs) m' = serial T view m cs m'"
| "serial T view m ((f, Inr out) # cs) m' =
     (\<exists>t t'. view t = m \<and> update_callback T f t = Some (Inr (t', out)) \<and> serial T view (view t') cs m')"

lemma serial_snoc:
  "serial T view m (cs @ [c]) m' \<longleftrightarrow> (\<exists>m1. serial T view m cs m1 \<and> serial T view m1 [c] m')"
proof (induction cs arbitrary: m)
  case (Cons x cs)
  show ?case
  proof (cases "snd x")
    case (Inl e)
    then show ?thesis using Cons by (cases x) simp
  next
    case (Inr out)
    then show ?thesis using Cons by (cases x) (simp, blast)
  qed
qed simp

text \<open>A callback works through the transaction it is given.\<close>

inductive derived :: "'t Txn \<Rightarrow> 't \<Rightarrow> 't \<Rightarrow> bool" for T t where
  derived_refl: "derived T t t"
| derived_set: "derived T t t1 \<Longrightarrow> tx_Set T k v t1 = Inr t2 \<Longrightarrow> derived T t t2"
| derived_delete: "derived T t t1 \<Longrightarrow> tx_Delete T k t1 = Inr t2 \<Longrightarrow> derived T t t2"

definition works_through :: "'t Txn \<Rightarrow> ('t, 'o) Callback \<Rightarrow> bool" where
  "works_through T f \<longleftrightarrow> (\<forall>w w' out. f w = Some (Inr (w', out)) \<longrightarrow> derived T (bt_tx w) (bt_tx w'))"

lemma derived_facts:
  assumes laws: "txn_laws T view" "occ_laws S T O' view contents" and "derived T t t'"
  shows "oc_began O' t' = oc_began O' t \<and> (\<forall>k. k \<notin> oc_sets O' t' \<longrightarrow> view t' k = view t k)"
  using assms(3)
proof (induction rule: derived.induct)
  case (derived_set t1 k v t2)
  have "view t2 = (view t1)(k \<mapsto> v)"
    using laws(1) derived_set.hyps(2) unfolding txn_laws_def by blast
  with derived_set occ_lawsD(3) [OF laws(2) derived_set.hyps(2)] show ?case by auto
next
  case (derived_delete t1 k t2)
  have "view t2 = (view t1)(k := None)"
    using laws(1) derived_delete.hyps(2) unfolding txn_laws_def by blast
  with derived_delete occ_lawsD(4) [OF laws(2) derived_delete.hyps(2)] show ?case by auto
qed simp

lemma callback_facts:
  assumes laws: "txn_laws T view" "occ_laws S T O' view contents" and f: "works_through T f"
    and u: "update_callback T f t = Some (Inr (t', out))"
  shows "oc_began O' t' = oc_began O' t" "metaVersionKey \<in> oc_sets O' t'"
    "\<forall>k. k \<notin> oc_sets O' t' \<longrightarrow> view t' k = view t k"
proof -
  from u obtain v w x where w: "f \<lparr>bt_tx = t, bt_version = v\<rparr> = Some (Inr (w, x))"
    and s: "tx_Set T metaVersionKey (PutUint64 (v + 1)) (bt_tx w) = Inr t'"
    by (auto simp: update_callback_def bindP_eq_Inr Let_def bindE_eq_Inr)
  from f w have d: "derived T t (bt_tx w)" by (fastforce simp: works_through_def)
  from derived_facts [OF laws derived_set [OF d s]]
  show "oc_began O' t' = oc_began O' t" "\<forall>k. k \<notin> oc_sets O' t' \<longrightarrow> view t' k = view t k" by simp_all
  show "metaVersionKey \<in> oc_sets O' t'" using occ_lawsD(3) [OF laws(2) s] by simp
qed

lemma commit_contents:
  assumes laws: "txn_laws T view" "occ_laws S T O' view contents" and f: "works_through T f"
    and u: "update_callback T f t = Some (Inr (t', out))" and t: "view t = contents d"
    and c: "sd_Commit S gets t' d = (None, d')"
  shows "contents d' = view t'"
  using occ_lawsD(6) [OF laws(2) c] callback_facts(3) [OF laws f u] t by auto

text \<open>
  A transaction that can still commit is on the contents of now: every commit since its begin has
  set the version counter.
\<close>

definition conc_ok ::
    "'t Txn \<Rightarrow> ('d, 't) Oracle \<Rightarrow> ('t \<Rightarrow> kv) \<Rightarrow> ('d \<Rightarrow> kv) \<Rightarrow> ('t, 'o) Callback set \<Rightarrow> kv \<Rightarrow> ('d, 't, 'o) Conc \<Rightarrow> bool" where
  "conc_ok T O' view contents F m c \<longleftrightarrow>
     serial T view m (cc_done c) (contents (cc_db c)) \<and> fst ` set (cc_done c) \<subseteq> F \<and>
     (\<forall>i f t. cc_calls c i = Some (f, t) \<longrightarrow> f \<in> F \<and> oc_began O' t \<le> oc_now O' (cc_db c) \<and>
        (oc_last O' (cc_db c) metaVersionKey \<le> oc_began O' t \<longrightarrow> view t = contents (cc_db c)))"

lemma conc_step_ok:
  assumes laws: "txn_laws T view" "occ_laws S T O' view contents" and F: "\<forall>f \<in> F. works_through T f"
    and c: "conc_ok T O' view contents F m c" and step: "conc_step S T F c c'"
  shows "conc_ok T O' view contents F m c'"
  using step
proof cases
  case (start i f)
  then show ?thesis using c occ_lawsD(1,2) [OF laws(2), of "cc_db c"] by (auto simp: conc_ok_def)
next
  case (fail i f t e)
  then show ?thesis using c by (auto simp: conc_ok_def serial_snoc split: if_splits)
next
  case (commit i f t t' out gets res d')
  with c have t: "f \<in> F" "oc_began O' t \<le> oc_now O' (cc_db c)"
    "oc_last O' (cc_db c) metaVersionKey \<le> oc_began O' t \<Longrightarrow> view t = contents (cc_db c)"
    by (auto simp: conc_ok_def)
  note C = callback_facts [OF laws bspec [OF F t(1)] commit(3)]
  show ?thesis
  proof (cases res)
    case None
    note D = occ_lawsD(6) [OF laws(2) commit(5) [unfolded None]]
    have "view t = contents (cc_db c)" using t(3) D commit(4) C(1) by auto
    moreover from commit_contents [OF laws bspec [OF F t(1)] commit(3) this commit(5) [unfolded None]]
    have "contents d' = view t'" .
    ultimately have s: "serial T view m (cc_done c') (contents (cc_db c'))"
      using c commit(1,3) None by (auto simp: conc_ok_def serial_snoc)
    moreover have "oc_last O' d' metaVersionKey = oc_now O' d'" "oc_now O' (cc_db c) < oc_now O' d'"
      using D C(2) by simp_all
    then have "oc_began O' t \<le> oc_now O' d' \<and> \<not> oc_last O' d' metaVersionKey \<le> oc_began O' t"
      if "cc_calls c j = Some (g, t)" for j g t
      using c that by (fastforce simp: conc_ok_def)
    ultimately show ?thesis
      using c commit(1) t(1) by (auto simp: conc_ok_def None split: if_splits)
  next
    case (Some e)
    from occ_lawsD(5) [OF laws(2) commit(5) [unfolded Some]] show ?thesis
      using c commit(1) t(1) Some by (auto simp: conc_ok_def serial_snoc split: if_splits)
  qed
qed

lemma conc_run_ok:
  assumes laws: "txn_laws T view" "occ_laws S T O' view contents" and F: "\<forall>f \<in> F. works_through T f"
    and run: "(conc_step S T F)\<^sup>*\<^sup>* (start_conc d) c"
  shows "conc_ok T O' view contents F (contents d) c"
  using run
proof (induction rule: rtranclp_induct)
  case base
  show ?case by (simp add: conc_ok_def start_conc_def)
next
  case (step c c')
  show ?case using conc_step_ok [OF laws F step.IH step.hyps(2)] .
qed


section \<open>Versions\<close>

definition committed :: "(('t, 'o) Callback \<times> (error + Version \<times> 'o)) list \<Rightarrow> (Version \<times> 'o) list" where
  "committed cs = List.map_filter (\<lambda>(_, r). case r of Inl _ \<Rightarrow> None | Inr out \<Rightarrow> Some out) cs"

lemma committed_simps [simp]:
  "committed [] = []" "committed ((f, Inl e) # cs) = committed cs"
  "committed ((f, Inr out) # cs) = out # committed cs"
  by (simp_all add: committed_def List.map_filter_simps)

lemma callback_version:
  assumes "txn_laws T view" and "holds_version (view t) v" and "update_callback T f t = Some (Inr (t', out))"
  shows "\<exists>w. f \<lparr>bt_tx = t, bt_version = v\<rparr> = Some (Inr (w, snd out)) \<and> fst out = v + 1 \<and>
    view t' = (view (bt_tx w))(metaVersionKey \<mapsto> PutUint64 (v + 1))"
proof -
  have "readVersion T t = Inr v" using readVersion_eq [OF assms(1,2)] .
  with assms(3) obtain w x where w: "f \<lparr>bt_tx = t, bt_version = v\<rparr> = Some (Inr (w, x))" "out = (v + 1, x)"
    and s: "tx_Set T metaVersionKey (PutUint64 (v + 1)) (bt_tx w) = Inr t'"
    by (auto simp: update_callback_def bindP_eq_Inr Let_def bindE_eq_Inr)
  from s have "view t' = (view (bt_tx w))(metaVersionKey \<mapsto> PutUint64 (v + 1))"
    using assms(1) unfolding txn_laws_def by blast
  with w show ?thesis by simp
qed

lemma serial_versions:
  assumes "txn_laws T view"
  shows "serial T view m cs m' \<Longrightarrow> holds_version m v \<Longrightarrow>
    map fst (committed cs) = map (\<lambda>k. v + of_nat (Suc k)) [0..<length (committed cs)] \<and>
    holds_version m' (v + of_nat (length (committed cs)))"
proof (induction cs arbitrary: m v)
  case (Cons x cs)
  show ?case
  proof (cases "snd x")
    case (Inl e)
    then show ?thesis using Cons by (cases x) simp
  next
    case (Inr out)
    then obtain f where x: "x = (f, Inr out)" by (cases x) simp
    with Cons.prems obtain t t' where t: "view t = m" "update_callback T f t = Some (Inr (t', out))"
      and s: "serial T view (view t') cs m'" by auto
    have "holds_version (view t) v" using Cons.prems(2) t(1) by simp
    from callback_version [OF assms this t(2)] have v: "fst out = v + 1" "holds_version (view t') (v + 1)"
      by (auto simp del: fun_upd_apply)
    show ?thesis
      using Cons.IH [OF s v(2)] v(1) by (simp add: x map_upt_Suc algebra_simps del: upt_Suc)
  qed
qed simp

section \<open>Governance\<close>

text \<open>The callbacks of governance work through their transaction.\<close>

lemma set_key_derived: "set_key T k v w = Inr w' \<Longrightarrow> derived T t (bt_tx w) \<Longrightarrow> derived T t (bt_tx w')"
  "delete_key T k w = Inr w' \<Longrightarrow> derived T t (bt_tx w) \<Longrightarrow> derived T t (bt_tx w')"
  by (auto simp: set_key_def delete_key_def bindE_eq_Inr intro: derived_set derived_delete)

lemma index_derived:
  "writeRelIndices T r w = Inr w' \<Longrightarrow> derived T t (bt_tx w) \<Longrightarrow> derived T t (bt_tx w')"
  "removeRelIndices T r w = Inr w' \<Longrightarrow> derived T t (bt_tx w) \<Longrightarrow> derived T t (bt_tx w')"
  by (auto simp: writeRelIndices_def removeRelIndices_def Let_def bindE_eq_Inr dest: set_key_derived
      split: if_splits)

interpretation badger_derived: tx_keeps "badger_WriteTx T" "\<lambda>w. derived T t (bt_tx w)" for T t
  by unfold_locales
    (auto simp: badger_PutPerson_def badger_DeletePerson_def badger_PutRelationship_def
      badger_DeleteRelationship_def badger_PutSource_def badger_DeleteSource_def badger_PutProposal_def
      Let_def bindE_eq_Inr dest: set_key_derived index_derived split: if_splits sum.splits)

text \<open>
  What the goroutines call: they store drafts whose payloads are in the form that the codecs keep (whatever
  id of \<open>Envs\<close> is drawn at acceptance) and move and accept proposals.
\<close>

definition kept_intent :: "ID set \<Rightarrow> bool \<Rightarrow> Env set \<Rightarrow> Proposal \<Rightarrow> bool" where
  "kept_intent I merges Envs p \<longleftrightarrow> (\<forall>env \<in> Envs. payload_kept I env p) \<and>
     (merges \<or> Q_action p \<noteq> ProposalActionMerge)"

inductive badger_gov_tx ::
    "ID set \<Rightarrow> bool \<Rightarrow> Env set \<Rightarrow> 't Txn \<Rightarrow> ('t, Proposal) Callback \<Rightarrow> bool" for I merges Envs T where
  gov_propose: "NewProposal i a k opts = Inr p \<Longrightarrow> Proposal_stable p \<Longrightarrow> kept_intent I merges Envs p \<Longrightarrow>
    badger_gov_tx I merges Envs T (badger_propose_tx T p)"
| gov_move: "actor_ok actor ts reason \<Longrightarrow>
    badger_gov_tx I merges Envs T (transition_tx (badger_WriteTx T) i to actor ts reason)"
| gov_accept: "env \<in> Envs \<Longrightarrow> actor_ok actor ts '''' \<Longrightarrow>
    badger_gov_tx I merges Envs T (accept_tx env (badger_WriteTx T) i actor ts)"

lemma gov_works_through: "badger_gov_tx I m Envs T f \<Longrightarrow> works_through T f"
  unfolding works_through_def
proof (intro allI impI)
  fix w w' out
  assume g: "badger_gov_tx I m Envs T f" and r: "f w = Some (Inr (w', out))"
  from g show "derived T (bt_tx w) (bt_tx w')"
  proof cases
    case (gov_propose i a k opts p)
    then have "wt_PutProposal (badger_WriteTx T) p w = Inr w'"
      using r by (auto simp: badger_propose_tx_def liftP_def bindP_eq_Inr)
    from badger_derived.PutProposal [OF this derived_refl] show ?thesis .
  next
    case (gov_move actor ts reason i to)
    from badger_derived.tx_keeps(2) [OF r [unfolded gov_move(1)] derived_refl] show ?thesis .
  next
    case (gov_accept env actor ts i)
    from badger_derived.tx_keeps(1) [OF r [unfolded gov_accept(1)] derived_refl] show ?thesis .
  qed
qed

definition intents_kept :: "ID set \<Rightarrow> bool \<Rightarrow> Env set \<Rightarrow> kv \<Rightarrow> bool" where
  "intents_kept I merges Envs kv \<longleftrightarrow> sound_db I merges kv \<and>
     (\<forall>p \<in> ran (g_props (kv_graph kv)). kept_intent I merges Envs p)"

lemma kept_intent_same:
  "kept_intent I m Envs p \<Longrightarrow> Q_action q = Q_action p \<Longrightarrow> Q_entityKind q = Q_entityKind p \<Longrightarrow>
   Q_payload q = Q_payload p \<Longrightarrow> kept_intent I m Envs q"
  by (simp add: kept_intent_def payload_kept_def)

text \<open>What the specifications keep, for the graph of such a database.\<close>

definition good_intents :: "ID set \<Rightarrow> bool \<Rightarrow> Env set \<Rightarrow> Graph \<Rightarrow> bool" where
  "good_intents I merges Envs G \<longleftrightarrow> good_graph I merges G \<and> (\<forall>p \<in> ran (g_props G). kept_intent I merges Envs p)"

lemma intents_kept_graph:
  "intents_kept I m Envs kv \<longleftrightarrow> (\<exists>v. holds_version kv v) \<and> kv_ok kv \<and> good_intents I m Envs (kv_graph kv)"
  by (auto simp: intents_kept_def good_intents_def sound_db_graph simp del: kv_graph_simps)

lemma kept_intents_upd:
  assumes "\<forall>p \<in> ran P. kept_intent I m Envs p" and "P i = Some p"
    and "Q_action q = Q_action p" and "Q_entityKind q = Q_entityKind p" and "Q_payload q = Q_payload p"
  shows "\<forall>p \<in> ran (P(i \<mapsto> q)). kept_intent I m Envs p"
proof -
  have "kept_intent I m Envs q" using assms kept_intent_same by (metis ranI)
  with assms(1) show ?thesis by (auto simp: ran_def)
qed

lemma move_intents:
  assumes s: "intents_kept I m Envs kv" and a: "move_spec i to actor ts reason (kv_graph kv) = Some (q, G')"
    and actor: "actor_ok actor ts reason"
  shows "good_intents I m Envs G'"
proof -
  from a obtain p where p: "g_props (kv_graph kv) i = Some p" "Q_action q = Q_action p" "Q_entityKind q = Q_entityKind p" "Q_payload q = Q_payload p"
    and G': "g_props G' = (g_props (kv_graph kv))(i \<mapsto> q)"
    by (auto simp: move_spec_Some Transition_Inr simp del: kv_graph_simps)
  from s have ps: "\<forall>p \<in> ran (g_props (kv_graph kv)). kept_intent I m Envs p" and d: "sound_db I m kv"
    by (simp_all add: intents_kept_def del: kv_graph_simps)
  show ?thesis
    unfolding good_intents_def G' using kept_intents_upd [OF ps p] move_spec_good(1) [OF d a actor] by blast
qed

lemma accept_intents:
  assumes s: "intents_kept I m Envs kv" and a: "accept_spec env i actor ts (kv_graph kv) = Some (q, G')"
    and actor: "actor_ok actor ts ''''" and env: "env \<in> Envs"
  shows "good_intents I m Envs G'" and "kv_storable G'"
proof -
  have d: "sound_db I m kv" and ps: "\<forall>p \<in> ran (g_props (kv_graph kv)). kept_intent I m Envs p"
    using s by (simp_all add: intents_kept_def del: kv_graph_simps)
  then have "payload_kept I env p \<and> (m \<or> Q_action p \<noteq> ProposalActionMerge)"
    if "g_props (kv_graph kv) i = Some p" for p
    using that env by (auto simp: kept_intent_def ran_def simp del: kv_graph_simps)
  note good = accept_spec_good [OF d a actor this]
  show "kv_storable G'" by (rule good(2))
  from a show "good_intents I m Envs G'"
  proof (rule accept_spec_Some)
    fix p G1
    assume "g_props (kv_graph kv) i = Some p" "q = accepted p actor ts" "apply_spec env q (kv_graph kv) = Some G1"
      "G' = G1\<lparr>g_props := (g_props G1)(i \<mapsto> q)\<rparr>"
    with kept_intents_upd [OF ps, of i p q] good(1) apply_spec_props show ?thesis
      by (simp add: good_intents_def accepted_def del: kv_graph_simps)
  qed
qed

lemma propose_intents:
  assumes s: "intents_kept I m Envs kv" and p: "NewProposal i a k opts = Inr p" "kept_intent I m Envs p"
    and a: "propose_spec p (kv_graph kv) = Some (q, G')"
  shows "good_intents I m Envs G'"
proof -
  have "g_props G' = (g_props (kv_graph kv))(Q_id p \<mapsto> p)"
    using a by (auto simp: propose_spec_def simp del: kv_graph_simps split: if_splits)
  with s p(2) propose_spec_good [OF _ p(1) a] show ?thesis
    by (auto simp: intents_kept_def good_intents_def ran_def simp del: kv_graph_simps)
qed

text \<open>A callback of governance refines a specification that keeps the invariant.\<close>

lemma gov_callback_refines:
  assumes laws: "txn_laws T view" and total: "txn_total T" and sep: "separated I"
    and g: "badger_gov_tx I m Envs T f" and s: "intents_kept I m Envs (view (bt_tx w))"
  shows "\<exists>spec. refines_db view (f w) spec \<and> (\<forall>q G'. spec = Some (q, G') \<longrightarrow> good_intents I m Envs G')"
proof -
  have d: "sound_db I m (view (bt_tx w))" using s by (simp add: intents_kept_def)
  have gd: "governed_db I (view (bt_tx w))" using sound_governed [OF d] by blast
  then have G: "kv_ok (view (bt_tx w))" "graph_wf (kv_graph (view (bt_tx w)))"
    by (simp_all add: governed_db_def del: kv_graph_simps)
  from g show ?thesis
  proof cases
    case (gov_propose i a k opts p)
    with badger_propose_tx [OF laws total G(1) gov_propose(2,3)] propose_intents [OF s gov_propose(2,4)]
    show ?thesis by blast
  next
    case (gov_move actor ts reason i to)
    with badger_transition_tx [OF laws total G, of i to actor ts reason] move_spec_good(2) [OF d _ gov_move(2)]
      move_intents [OF s _ gov_move(2)]
    show ?thesis by blast
  next
    case (gov_accept env actor ts i)
    with badger_accept_tx [OF laws total G(1) governed_db_scannable [OF gd sep] G(2), of env i actor ts]
      accept_intents [OF s _ gov_accept(3,2)]
    show ?thesis by blast
  qed
qed

lemma gov_callback_sound:
  assumes laws: "txn_laws T view" and total: "txn_total T" and sep: "separated I"
    and g: "badger_gov_tx I m Envs T f" and s: "intents_kept I m Envs (view t)"
    and u: "update_callback T f t = Some (Inr (t', out))"
  shows "intents_kept I m Envs (view t')"
proof -
  obtain v where v: "holds_version (view t) v" using s by (auto simp: intents_kept_graph)
  obtain w where w: "f \<lparr>bt_tx = t, bt_version = v\<rparr> = Some (Inr (w, snd out))"
    and t': "view t' = (view (bt_tx w))(metaVersionKey \<mapsto> PutUint64 (v + 1))"
    using callback_version [OF laws v u] by blast
  obtain spec where "refines_db view (f \<lparr>bt_tx = t, bt_version = v\<rparr>) spec"
    and good: "\<And>q G'. spec = Some (q, G') \<Longrightarrow> good_intents I m Envs G'"
    using gov_callback_refines [OF laws total sep g, of "\<lparr>bt_tx = t, bt_version = v\<rparr>"] s by auto
  with w have "kv_ok (view (bt_tx w))" "good_intents I m Envs (kv_graph (view (bt_tx w)))"
    by (auto simp: refines_db_def simp del: kv_graph_simps split: option.splits)
  then show ?thesis
    unfolding intents_kept_graph t' by (auto simp: kv_ok_put(6))
qed

lemma serial_sound:
  assumes laws: "txn_laws T view" and total: "txn_total T" and sep: "separated I"
  shows "serial T view kv cs kv' \<Longrightarrow> intents_kept I m Envs kv \<Longrightarrow>
    \<forall>f \<in> fst ` set cs. badger_gov_tx I m Envs T f \<Longrightarrow> intents_kept I m Envs kv'"
proof (induction cs arbitrary: kv)
  case (Cons x cs)
  show ?case
  proof (cases "snd x")
    case (Inl e)
    then show ?thesis using Cons by (cases x) simp
  next
    case (Inr out)
    then obtain f where x: "x = (f, Inr out)" by (cases x) simp
    with Cons.prems(1) obtain t t' where t: "view t = kv" "update_callback T f t = Some (Inr (t', out))"
      and s: "serial T view (view t') cs kv'" by auto
    have "intents_kept I m Envs (view t')"
      using gov_callback_sound [OF laws total sep _ _ t(2)] Cons.prems(2,3) t(1) by (auto simp: x)
    from Cons.IH [OF s this] Cons.prems(3) show ?thesis by simp
  qed
qed simp


section \<open>A library with conflict detection\<close>

text \<open>
  The hypotheses hold for this one: a database is its keys with the time of the last commit and the
  time of each key, a transaction its keys with the time of its begin and the keys it has set.
\<close>

type_synonym occ_t = "(string \<times> string) list \<times> nat \<times> string set"
type_synonym occ_d = "(string \<times> string) list \<times> nat \<times> (string \<Rightarrow> nat)"

definition occ_txn :: "occ_t Txn" where
  "occ_txn =
     \<lparr>tx_ErrKeyNotFound = tx_ErrKeyNotFound alist_txn,
      tx_Get = (\<lambda>k t. tx_Get alist_txn k (fst t)),
      tx_Set = (\<lambda>k v (a, b, s). bindE (tx_Set alist_txn k v a) (\<lambda>a'. Inr (a', b, insert k s))),
      tx_Delete = (\<lambda>k (a, b, s). bindE (tx_Delete alist_txn k a) (\<lambda>a'. Inr (a', b, insert k s))),
      tx_Scan = (\<lambda>p t. tx_Scan alist_txn p (fst t))\<rparr>"

definition occ_db :: "(occ_d, occ_t) SharedDB" where
  "occ_db =
     \<lparr>sd_NewTransaction = (\<lambda>(a, n, l). (a, n, {})),
      sd_Commit = (\<lambda>gets (ta, b, s) (a, n, l).
        if \<exists>k \<in> gets. b < l k
        then (Some (ForeignError ''Transaction Conflict. Please retry''), a, n, l)
        else (None, filter (\<lambda>kv. fst kv \<in> s) ta @ filter (\<lambda>kv. fst kv \<notin> s) a, n + 1,
              \<lambda>k. if k \<in> s then n + 1 else l k))\<rparr>"

definition occ_oracle :: "(occ_d, occ_t) Oracle" where
  "occ_oracle = \<lparr>oc_now = fst \<circ> snd, oc_last = snd \<circ> snd, oc_began = fst \<circ> snd, oc_sets = snd \<circ> snd\<rparr>"

abbreviation occ_view :: "(string \<times> string) list \<times> 'x \<Rightarrow> kv" where
  "occ_view \<equiv> map_of \<circ> fst"

lemma occ_txn_laws: "txn_laws occ_txn occ_view"
  using alist_txn_laws unfolding txn_laws_def
  by (auto simp: occ_txn_def bindE_eq_Inr split: option.split)

lemma occ_txn_total: "txn_total occ_txn"
  by (simp add: txn_total_def occ_txn_def alist_txn_def)

lemma map_of_filter_keys:
  "map_of (filter (\<lambda>kv. fst kv \<in> A) xs) k = (if k \<in> A then map_of xs k else None)"
  "map_of (filter (\<lambda>kv. fst kv \<notin> A) xs) k = (if k \<in> A then None else map_of xs k)"
  by (induction xs) auto

lemma occ_db_laws: "occ_laws occ_db occ_txn occ_oracle occ_view occ_view"
  by (auto simp: occ_laws_def occ_db_def occ_txn_def occ_oracle_def bindE_eq_Inr map_of_filter_keys map_add_def
      fun_eq_iff not_less split: if_splits option.splits)

section \<open>Properties\<close>

text \<open>
  C21: concurrent calls of \<open>Update\<close> on the persistent adapter are serializable. Take a library that
  refuses a commit when a key that was got has been committed since (it need not notice anything
  about scans), and any callbacks that work through their transaction. Then, in every execution of
  goroutines, the calls that succeeded are, in the order of their commits, calls that ran one after
  the other, each on what the one before it left; a call that failed has changed nothing; and the
  versions returned are the ones after the first version, without a gap and without one given twice.
\<close>

theorem badger_updates_serializable:
  assumes "txn_laws T view" and "occ_laws S T O' view contents" and "\<forall>f \<in> F. works_through T f"
    and "holds_version (contents d) v" and "(conc_step S T F)\<^sup>*\<^sup>* (start_conc d) c"
  shows "serial T view (contents d) (cc_done c) (contents (cc_db c)) \<and>
    map fst (committed (cc_done c)) = map (\<lambda>k. v + of_nat (Suc k)) [0..<length (committed (cc_done c))] \<and>
    holds_version (contents (cc_db c)) (v + of_nat (length (committed (cc_done c))))"
proof -
  from conc_run_ok [OF assms(1-3,5)] have s: "serial T view (contents d) (cc_done c) (contents (cc_db c))"
    by (simp add: conc_ok_def)
  with serial_versions [OF assms(1) s assms(4)] show ?thesis by simp
qed

text \<open>
  Two goroutines begin, both on version 0. The first commits version 1, so the second is refused; it
  calls again and gets version 2.
\<close>

definition idle_callback :: "(occ_t, unit) Callback" where
  "idle_callback = (\<lambda>w. Some (Inr (w, ())))"

definition new_occ :: occ_d where
  "new_occ = ([(metaVersionKey, PutUint64 0)], 0, \<lambda>_. 0)"

lemma idle_run:
  assumes "map_of a metaVersionKey = Some (PutUint64 v)"
  shows "update_callback occ_txn idle_callback (a, b, s) =
    Some (Inr (((metaVersionKey, PutUint64 (v + 1)) # a, b, insert metaVersionKey s), v + 1, ()))"
proof -
  have "readVersion occ_txn (a, b, s) = Inr v"
    by (rule readVersion_eq [OF occ_txn_laws]) (simp add: holds_version_def assms)
  then show ?thesis
    by (simp add: update_callback_def idle_callback_def bindP_def Let_def occ_txn_def alist_txn_def)
qed

theorem badger_updates_serializable_witness:
  "\<exists>c. (conc_step occ_db occ_txn {idle_callback})\<^sup>*\<^sup>* (start_conc new_occ) c \<and>
     map snd (cc_done c) = [Inr (1, ()), Inl (ForeignError ''Transaction Conflict. Please retry''), Inr (2, ())] \<and>
     holds_version (occ_view (cc_db c)) 2"
proof -
  let ?m = metaVersionKey and ?f = idle_callback and ?step = "conc_step occ_db occ_txn {idle_callback}"
  let ?t0 = "([(?m, PutUint64 0)], 0, {}) :: occ_t" and ?t1 = "([(?m, PutUint64 1), (?m, PutUint64 0)], 1, {}) :: occ_t"
  let ?d1 = "([(?m, PutUint64 1), (?m, PutUint64 0)], 1, \<lambda>k. if k = ?m then 1 else 0) :: occ_d"
  let ?d2 = "([(?m, PutUint64 2), (?m, PutUint64 1), (?m, PutUint64 0)], 2, \<lambda>k. if k = ?m then 2 else 0) :: occ_d"
  let ?e = "ForeignError ''Transaction Conflict. Please retry''"
  let ?c = "\<lambda>d calls out. \<lparr>cc_db = d, cc_calls = calls, cc_done = out\<rparr>"
  have new: "sd_NewTransaction occ_db new_occ = ?t0" "sd_NewTransaction occ_db ?d1 = ?t1"
    by (simp_all add: occ_db_def new_occ_def)
  have runs: "update_callback occ_txn ?f ?t0 = Some (Inr (((?m, PutUint64 1) # fst ?t0, 0, {?m}), 1, ()))"
    "update_callback occ_txn ?f ?t1 = Some (Inr (((?m, PutUint64 2) # fst ?t1, 1, {?m}), 2, ()))"
    using idle_run [of "fst ?t0" 0 0 "{}"] idle_run [of "fst ?t1" 1 1 "{}"] by simp_all
  have commits: "sd_Commit occ_db {?m} ((?m, PutUint64 1) # fst ?t0, 0, {?m}) new_occ = (None, ?d1)"
    "sd_Commit occ_db {?m} ((?m, PutUint64 1) # fst ?t0, 0, {?m}) ?d1 = (Some ?e, ?d1)"
    "sd_Commit occ_db {?m} ((?m, PutUint64 2) # fst ?t1, 1, {?m}) ?d1 = (None, ?d2)"
    by (auto simp: occ_db_def new_occ_def fun_eq_iff)
  have 1: "?step (start_conc new_occ) (?c new_occ [0 \<mapsto> (?f, ?t0)] [])"
    by (rule start_to [where i = 0 and f = ?f]) (simp_all add: start_conc_def new)
  have 2: "?step (?c new_occ [0 \<mapsto> (?f, ?t0)] []) (?c new_occ [0 \<mapsto> (?f, ?t0), 1 \<mapsto> (?f, ?t0)] [])"
    by (rule start_to [where i = 1 and f = ?f]) (simp_all add: new)
  have 3: "?step (?c new_occ [0 \<mapsto> (?f, ?t0), 1 \<mapsto> (?f, ?t0)] []) (?c ?d1 [1 \<mapsto> (?f, ?t0)] [(?f, Inr (1, ()))])"
    by (rule commit_to [where i = 0, OF _ runs(1) _ _ commits(1)]) (simp_all add: fun_eq_iff)
  have 4: "?step (?c ?d1 [1 \<mapsto> (?f, ?t0)] [(?f, Inr (1, ()))])
      (?c ?d1 Map.empty [(?f, Inr (1, ())), (?f, Inl ?e)])"
    by (rule commit_to [where i = 1, OF _ runs(1) _ _ commits(2)]) (simp_all add: fun_eq_iff)
  have 5: "?step (?c ?d1 Map.empty [(?f, Inr (1, ())), (?f, Inl ?e)])
      (?c ?d1 [1 \<mapsto> (?f, ?t1)] [(?f, Inr (1, ())), (?f, Inl ?e)])"
    by (rule start_to [where i = 1 and f = ?f]) (insert new, simp_all)
  let ?C = "?c ?d2 Map.empty [(?f, Inr (1, ())), (?f, Inl ?e), (?f, Inr (2, ()))]"
  have 6: "?step (?c ?d1 [1 \<mapsto> (?f, ?t1)] [(?f, Inr (1, ())), (?f, Inl ?e)]) ?C"
    by (rule commit_to [where i = 1, OF _ runs(2) _ _ commits(3)]) (simp_all add: fun_eq_iff)
  from 1 2 3 4 5 6 have run: "?step\<^sup>*\<^sup>* (start_conc new_occ) ?C"
    by (meson converse_rtranclp_into_rtranclp rtranclp.rtrancl_refl)
  have "works_through occ_txn ?f" by (auto simp: works_through_def idle_callback_def intro: derived_refl)
  moreover have "holds_version (occ_view new_occ) 0" by (simp add: holds_version_def new_occ_def)
  ultimately have "holds_version (occ_view ?d2) 2"
    using badger_updates_serializable [OF occ_txn_laws occ_db_laws _ _ run, of 0] by simp
  with run show ?thesis by (intro exI [of _ ?C]) simp
qed


lemma new_occ_intents: "intents_kept {''p1''} False {go_env ''x''} (occ_view new_occ)"
proof -
  have "occ_view new_occ = [metaVersionKey \<mapsto> PutUint64 0]" by (simp add: new_occ_def)
  moreover have "kv_graph [metaVersionKey \<mapsto> PutUint64 0] = empty_graph"
    using new_tx_ok by (simp add: new_tx_def del: kv_graph_simps)
  ultimately show ?thesis
    using sound_new by (simp add: intents_kept_def empty_graph_def del: kv_graph_simps)
qed

lemma metaVersionKey_nonempty: "metaVersionKey \<noteq> []"
  by (simp add: metaVersionKey_def)


end
