(* ===== verification/MemoryThreads.thy ===== *)
theory MemoryThreads
  imports MemoryStore
begin

text \<open>
  Goroutines that share one in-memory store (src/store/memory/memory.go), statement by statement.
  Snapshots are objects in a heap, the store and the handles of readers point to them, and the
  mutex \<open>s.mu\<close> is held from the first statement of a call to its return. The scheduler may switch
  between goroutines at every statement, and between any two assignments that \<open>commitState\<close> makes
  to the maps of the new snapshot; a reader looks at its snapshot without the mutex. Every such
  execution is one in which each call happens at once.
\<close>

section \<open>Shared memory\<close>

type_synonym addr = nat

record Shared =
  sh_lock :: "nat option"
  sh_heap :: "addr \<Rightarrow> state"
  sh_next :: addr
  sh_current :: addr
  sh_history :: "(Version, addr) gomap"
  sh_maxKeep :: int
  sh_closed :: bool

definition NewShared :: "int \<Rightarrow> Shared" where
  "NewShared n = \<lparr>sh_lock = None, sh_heap = (\<lambda>_. emptyState), sh_next = 1, sh_current = 0,
     sh_history = gm_put 0 0 [], sh_maxKeep = (if n < 0 then 0 else n), sh_closed = False\<rparr>"

text \<open>The handle that \<open>View\<close> returns is a \<open>readTx\<close> whose field points to the snapshot.\<close>

definition read_at :: "Shared \<Rightarrow> addr \<Rightarrow> readTx" where
  "read_at S a = \<lparr>rx_state = sh_heap S a, rx_closed = False\<rparr>"

text \<open>The fields of a transaction that point to its base.\<close>

definition reload :: "state \<Rightarrow> writeTx \<Rightarrow> writeTx" where
  "reload b w = w\<lparr>wx_readTx := (wx_readTx w)\<lparr>rx_state := b\<rparr>, wx_base := b\<rparr>"


lemma reload_iff: "reload b w = w \<longleftrightarrow> rx_state (wx_readTx w) = b \<and> wx_base w = b"
  by (cases w; cases "wx_readTx w") (auto simp: reload_def)

section \<open>Calls\<close>

text \<open>
  A call on the store, with what a goroutine does on a handle it got before (\<open>DoRead n\<close> reads through
  the \<open>n\<close>-th). The callback of an \<open>Update\<close> is a sequence of steps over its own variables and the
  transaction; a step that does not return is \<open>None\<close>.
\<close>

type_synonym 'l TxStep = "'l \<times> writeTx \<Rightarrow> (error, 'l \<times> writeTx) partial_res"

datatype ('l, 'o) Call =
    DoCurrentVersion
  | DoView
  | DoViewAt Version
  | DoUpdate 'l "'l TxStep list"
  | DoClose
  | DoRead nat "readTx \<Rightarrow> 'o"

datatype ('l, 'o) Result =
    ResVersion "error + Version"
  | ResView "error option"
  | ResUpdate "error + Version \<times> 'l"
  | ResClose
  | ResRead "'o option"

text \<open>Where a goroutine stands in its call.\<close>

datatype ('l, 'o) pc =
    Idle
  | Locking
  | Locked
  | Callback 'l addr writeTx "'l TxStep list"
  | Filling addr addr 'l "(state \<Rightarrow> state \<Rightarrow> state) list"
  | Recorded addr 'l
  | Swapped 'l
  | Closing
  | Dropping
  | Unlocking "addr list" "('l, 'o) Result"

record ('l, 'o) Thread =
  th_pc :: "('l, 'o) pc"
  th_todo :: "('l, 'o) Call list"
  th_done :: "('l, 'o) Result list"
  th_handles :: "addr list"


section \<open>Statements\<close>

text \<open>The body of a call up to its first write, with the mutex held.\<close>

fun begin_call :: "('l, 'o) Call \<Rightarrow> Shared \<Rightarrow> ('l, 'o) pc" where
  "begin_call DoCurrentVersion S = Unlocking [] (ResVersion
     (if sh_closed S then Inl closed_error else Inr (st_version (sh_heap S (sh_current S)))))"
| "begin_call DoView S =
     (if sh_closed S then Unlocking [] (ResView (Some closed_error))
      else Unlocking [sh_current S] (ResView None))"
| "begin_call (DoViewAt v) S =
     (if sh_closed S then Unlocking [] (ResView (Some closed_error))
      else case gm_get (sh_history S) v of
        None \<Rightarrow> Unlocking [] (ResView (Some (New CodeVersionNotFound
                  (''version '' @ show_int (uint v) @ '' not available''))))
      | Some a \<Rightarrow> Unlocking [a] (ResView None))"
| "begin_call (DoUpdate l fs) S =
     (if sh_closed S then Unlocking [] (ResUpdate (Inl closed_error))
      else Callback l (sh_current S) (newWriteTx (sh_heap S (sh_current S))) fs)"
| "begin_call DoClose S = Closing"
| "begin_call (DoRead n q) S = Idle"

text \<open>
  The assignments of \<open>commitState\<close> to the new snapshot: the four maps are cloned from the base, then
  each overlay is applied entry by entry. The base is read when the assignment is made.
\<close>

definition overlay_put :: "ID \<times> 'v option \<Rightarrow> (ID, 'v) gomap \<Rightarrow> (ID, 'v) gomap" where
  "overlay_put e m = (case snd e of None \<Rightarrow> gm_del (fst e) m | Some x \<Rightarrow> gm_put (fst e) x m)"

definition fill_writes :: "writeTx \<Rightarrow> (state \<Rightarrow> state \<Rightarrow> state) list" where
  "fill_writes w =
     [\<lambda>b st. st\<lparr>st_persons := cloneMap (st_persons b)\<rparr>,
      \<lambda>b st. st\<lparr>st_relationships := cloneMap (st_relationships b)\<rparr>,
      \<lambda>b st. st\<lparr>st_sources := cloneMap (st_sources b)\<rparr>,
      \<lambda>b st. st\<lparr>st_proposals := cloneMap (st_proposals b)\<rparr>]
     @ map (\<lambda>e b st. st\<lparr>st_persons := overlay_put e (st_persons st)\<rparr>) (wx_personOver w)
     @ map (\<lambda>e b st. st\<lparr>st_relationships := overlay_put e (st_relationships st)\<rparr>) (wx_relOver w)
     @ map (\<lambda>e b st. st\<lparr>st_sources := overlay_put e (st_sources st)\<rparr>) (wx_srcOver w)
     @ map (\<lambda>e b st. st\<lparr>st_proposals := overlay_put e (st_proposals st)\<rparr>) (wx_propOver w)"

definition prune_shared :: "Shared \<Rightarrow> Shared" where
  "prune_shared S =
     (if sh_maxKeep S \<le> 0 then S
      else
        let cur = st_version (sh_heap S (sh_current S));
            keepFrom = (if cur > word_of_int (sh_maxKeep S)
                        then cur - word_of_int (sh_maxKeep S) else 0)
        in S\<lparr>sh_history :=
              filter (\<lambda>(v, _). v = 0 \<or> v = cur \<or> \<not> v < keepFrom) (sh_history S)\<rparr>)"

text \<open>
  The next statement of the goroutine \<open>i\<close>; \<open>None\<close> where it waits for the mutex, has finished its
  program, or is in a step that does not return.
\<close>

definition advance :: "nat \<Rightarrow> Shared \<Rightarrow> ('l, 'o) Thread \<Rightarrow> (Shared \<times> ('l, 'o) Thread) option" where
  "advance i S t =
     (case th_pc t of
        Idle \<Rightarrow>
          (case th_todo t of
             [] \<Rightarrow> None
           | c # cs \<Rightarrow>
              (case c of
                 DoRead n q \<Rightarrow> Some (S, t\<lparr>th_todo := cs, th_done := th_done t @ [ResRead
                   (if n < length (th_handles t) then Some (q (read_at S (th_handles t ! n)))
                    else None)]\<rparr>)
               | _ \<Rightarrow> Some (S, t\<lparr>th_pc := Locking\<rparr>)))
      | Locking \<Rightarrow>
          (if sh_lock S = None then Some (S\<lparr>sh_lock := Some i\<rparr>, t\<lparr>th_pc := Locked\<rparr>) else None)
      | Locked \<Rightarrow> Some (S, t\<lparr>th_pc := begin_call (hd (th_todo t)) S\<rparr>)
      | Callback l b w fs \<Rightarrow>
          (case fs of
             [] \<Rightarrow> let a = sh_next S; v = st_version (sh_heap S (sh_current S)) + 1 in
               Some (S\<lparr>sh_heap := (sh_heap S)(a := emptyState\<lparr>st_version := v\<rparr>), sh_next := a + 1\<rparr>,
                     t\<lparr>th_pc := Filling b a l (fill_writes w)\<rparr>)
           | f # fs' \<Rightarrow>
              (case f (l, reload (sh_heap S b) w) of
                 None \<Rightarrow> None
               | Some (Inl e) \<Rightarrow> Some (S, t\<lparr>th_pc := Unlocking [] (ResUpdate (Inl e))\<rparr>)
               | Some (Inr (l', w')) \<Rightarrow> Some (S, t\<lparr>th_pc := Callback l' b w' fs'\<rparr>)))
      | Filling b a l gs \<Rightarrow>
          (case gs of
             [] \<Rightarrow> Some (S\<lparr>sh_history := gm_put (st_version (sh_heap S a)) a (sh_history S)\<rparr>,
                         t\<lparr>th_pc := Recorded a l\<rparr>)
           | g # gs' \<Rightarrow> Some (S\<lparr>sh_heap := (sh_heap S)(a := g (sh_heap S b) (sh_heap S a))\<rparr>,
                               t\<lparr>th_pc := Filling b a l gs'\<rparr>))
      | Recorded a l \<Rightarrow> Some (S\<lparr>sh_current := a\<rparr>, t\<lparr>th_pc := Swapped l\<rparr>)
      | Swapped l \<Rightarrow> Some (prune_shared S, t\<lparr>th_pc :=
          Unlocking [] (ResUpdate (Inr (st_version (sh_heap S (sh_current S)), l)))\<rparr>)
      | Closing \<Rightarrow> Some (S\<lparr>sh_closed := True\<rparr>, t\<lparr>th_pc := Dropping\<rparr>)
      | Dropping \<Rightarrow> Some (S\<lparr>sh_history := []\<rparr>, t\<lparr>th_pc := Unlocking [] ResClose\<rparr>)
      | Unlocking as r \<Rightarrow> Some (S\<lparr>sh_lock := None\<rparr>,
          t\<lparr>th_pc := Idle, th_todo := tl (th_todo t), th_done := th_done t @ [r],
            th_handles := th_handles t @ as\<rparr>))"

text \<open>One statement of some goroutine; an execution is a sequence of these.\<close>

type_synonym ('l, 'o) config = "Shared \<times> ('l, 'o) Thread list"

inductive interleaved :: "('l, 'o) config \<Rightarrow> ('l, 'o) config \<Rightarrow> bool" where
  statement: "i < length Ts \<Longrightarrow> advance i S (Ts ! i) = Some (S', t') \<Longrightarrow>
    interleaved (S, Ts) (S', Ts[i := t'])"

inductive_cases interleavedE: "interleaved (S, Ts) cfg"

definition start_config :: "int \<Rightarrow> ('l, 'o) Call list list \<Rightarrow> ('l, 'o) config" where
  "start_config n progs = (NewShared n,
     map (\<lambda>p. \<lparr>th_pc = Idle, th_todo = p, th_done = [], th_handles = []\<rparr>) progs)"


section \<open>Calls that happen at once\<close>

fun run_body :: "'l TxStep list \<Rightarrow> 'l \<Rightarrow> writeTx \<Rightarrow> (error, writeTx \<times> 'l) partial_res" where
  "run_body [] l w = Some (Inr (w, l))"
| "run_body (f # fs) l w = bindP (f (l, w)) (\<lambda>(l', w'). run_body fs l' w')"

text \<open>A call as the operations of the store have it, on the handles of its goroutine.\<close>

fun call_effect :: "('l, 'o) Call \<Rightarrow> readTx list \<Rightarrow> MemStore \<Rightarrow>
    (('l, 'o) Result \<times> readTx list \<times> MemStore) option" where
  "call_effect DoCurrentVersion hs M = Some (ResVersion (CurrentVersion M), hs, M)"
| "call_effect DoView hs M = (case View M of
     Inl e \<Rightarrow> Some (ResView (Some e), hs, M) | Inr r \<Rightarrow> Some (ResView None, hs @ [r], M))"
| "call_effect (DoViewAt v) hs M = (case ViewAt v M of
     Inl e \<Rightarrow> Some (ResView (Some e), hs, M) | Inr r \<Rightarrow> Some (ResView None, hs @ [r], M))"
| "call_effect (DoUpdate l fs) hs M =
     map_option (\<lambda>(r, M'). (ResUpdate r, hs, M')) (Update (run_body fs l) M)"
| "call_effect DoClose hs M = Some (ResClose, hs, CloseStore M)"
| "call_effect (DoRead n q) hs M =
     Some (ResRead (if n < length hs then Some (q (hs ! n)) else None), hs, M)"

record ('l, 'o) Caller =
  ca_todo :: "('l, 'o) Call list"
  ca_done :: "('l, 'o) Result list"
  ca_handles :: "readTx list"

inductive atomic :: "MemStore \<times> ('l, 'o) Caller list \<Rightarrow> MemStore \<times> ('l, 'o) Caller list \<Rightarrow> bool" where
  call: "i < length As \<Longrightarrow> ca_todo (As ! i) = c # cs \<Longrightarrow>
    call_effect c (ca_handles (As ! i)) M = Some (r, hs, M') \<Longrightarrow>
    atomic (M, As) (M', As[i := \<lparr>ca_todo = cs, ca_done = ca_done (As ! i) @ [r], ca_handles = hs\<rparr>])"

definition start_atomic :: "int \<Rightarrow> ('l, 'o) Call list list \<Rightarrow> MemStore \<times> ('l, 'o) Caller list" where
  "start_atomic n progs = (NewStore [WithHistoryLimit n],
     map (\<lambda>p. \<lparr>ca_todo = p, ca_done = [], ca_handles = []\<rparr>) progs)"

text \<open>What shared memory and a goroutine are in these terms.\<close>

definition store_of :: "Shared \<Rightarrow> MemStore" where
  "store_of S = \<lparr>ms_current = sh_heap S (sh_current S),
     ms_history = map (\<lambda>(v, a). (v, sh_heap S a)) (sh_history S),
     ms_maxKeep = sh_maxKeep S, ms_closed = sh_closed S\<rparr>"

definition caller_of :: "Shared \<Rightarrow> ('l, 'o) Thread \<Rightarrow> ('l, 'o) Caller" where
  "caller_of S t = \<lparr>ca_todo = th_todo t, ca_done = th_done t,
     ca_handles = map (read_at S) (th_handles t)\<rparr>"

section \<open>The simulation\<close>

text \<open>A callback can reach its transaction through the interface only, so it keeps the base.\<close>

definition keeps_base :: "'l TxStep \<Rightarrow> bool" where
  "keeps_base f \<longleftrightarrow> (\<forall>b l w l' w'. reload b w = w \<longrightarrow> f (l, w) = Some (Inr (l', w')) \<longrightarrow> reload b w' = w')"

fun Call_ok :: "('l, 'o) Call \<Rightarrow> bool" where
  "Call_ok (DoUpdate l fs) = (\<forall>f \<in> set fs. keeps_base f)"
| "Call_ok _ = True"

fun is_read :: "('l, 'o) Call \<Rightarrow> bool" where
  "is_read (DoRead n q) = True"
| "is_read _ = False"

fun holds :: "('l, 'o) pc \<Rightarrow> bool" where
  "holds Idle = False"
| "holds Locking = False"
| "holds _ = True"

text \<open>The call \<open>c\<close> is an \<open>Update\<close> whose callback returns nil with the transaction \<open>w\<close> on the store \<open>M\<close>.\<close>

definition returns :: "('l, 'o) Call \<Rightarrow> MemStore \<Rightarrow> writeTx \<Rightarrow> 'l \<Rightarrow> bool" where
  "returns c M w l \<longleftrightarrow> (\<exists>l0 fs. c = DoUpdate l0 fs \<and> \<not> ms_closed M \<and>
     run_body fs l0 (newWriteTx (ms_current M)) = Some (Inr (w, l)))"

definition next_state :: "MemStore \<Rightarrow> writeTx \<Rightarrow> state" where
  "next_state M w = commitState w (st_version (ms_current M) + 1)"

definition with_next :: "MemStore \<Rightarrow> writeTx \<Rightarrow> MemStore" where
  "with_next M w = M\<lparr>ms_history := gm_put (st_version (next_state M w)) (next_state M w) (ms_history M)\<rparr>"

text \<open>
  What shared memory has become when the goroutine in the call \<open>c\<close> stands at a statement, if \<open>M\<close>
  was the store when it took the mutex. \<open>H\<close> are the handles of all goroutines: the snapshot that is
  being filled is not among them, nor in the store.
\<close>

fun underway :: "('l, 'o) pc \<Rightarrow> ('l, 'o) Call \<Rightarrow> Shared \<Rightarrow> addr set \<Rightarrow> MemStore \<Rightarrow> bool" where
  "underway Idle c S H M = False"
| "underway Locking c S H M = False"
| "underway Locked c S H M = (store_of S = M)"
| "underway (Callback l b w fs) c S H M =
     (store_of S = M \<and> \<not> ms_closed M \<and> b = sh_current S \<and> reload (sh_heap S b) w = w \<and>
      (\<forall>f \<in> set fs. keeps_base f) \<and>
      (\<exists>l0 body. c = DoUpdate l0 body \<and> run_body body l0 (newWriteTx (ms_current M)) = run_body fs l w))"
| "underway (Filling b a l gs) c S H M =
     (store_of S = M \<and> b = sh_current S \<and> a < sh_next S \<and> a \<noteq> sh_current S \<and>
      a \<notin> snd ` set (sh_history S) \<union> H \<and>
      (\<exists>w. returns c M w l \<and> fold (\<lambda>g. g (sh_heap S b)) gs (sh_heap S a) = next_state M w))"
| "underway (Recorded a l) c S H M =
     (a < sh_next S \<and> (\<exists>w. returns c M w l \<and> sh_heap S a = next_state M w \<and> store_of S = with_next M w))"
| "underway (Swapped l) c S H M =
     (\<exists>w. returns c M w l \<and> store_of S = (with_next M w)\<lparr>ms_current := next_state M w\<rparr>)"
| "underway Closing c S H M = (c = DoClose \<and> store_of S = M)"
| "underway Dropping c S H M = (c = DoClose \<and> store_of S = M\<lparr>ms_closed := True\<rparr>)"
| "underway (Unlocking as r) c S H M =
     (set as \<subseteq> {..<sh_next S} \<and>
      (\<forall>hs. call_effect c hs M = Some (r, hs @ map (read_at S) as, store_of S)))"

definition all_handles :: "('l, 'o) Thread list \<Rightarrow> addr set" where
  "all_handles Ts = (\<Union>hs \<in> set (map th_handles Ts). set hs)"

definition addr_ok :: "Shared \<Rightarrow> addr set \<Rightarrow> bool" where
  "addr_ok S H \<longleftrightarrow> sh_current S < sh_next S \<and> snd ` set (sh_history S) \<subseteq> {..<sh_next S} \<and>
     H \<subseteq> {..<sh_next S}"

definition ready :: "nat \<Rightarrow> Shared \<Rightarrow> ('l, 'o) Thread \<Rightarrow> bool" where
  "ready i S t \<longleftrightarrow> (holds (th_pc t) \<longleftrightarrow> sh_lock S = Some i) \<and> (\<forall>c \<in> set (th_todo t). Call_ok c) \<and>
     (th_pc t \<noteq> Idle \<longrightarrow> th_todo t \<noteq> [] \<and> \<not> is_read (hd (th_todo t)))"

definition sim :: "Shared \<Rightarrow> ('l, 'o) Thread list \<Rightarrow> MemStore \<Rightarrow> bool" where
  "sim S Ts M \<longleftrightarrow> addr_ok S (all_handles Ts) \<and> (\<forall>i < length Ts. ready i S (Ts ! i)) \<and>
     (case sh_lock S of
        None \<Rightarrow> store_of S = M
      | Some i \<Rightarrow> i < length Ts \<and>
          underway (th_pc (Ts ! i)) (hd (th_todo (Ts ! i))) S (all_handles Ts) M)"

text \<open>The maps of addresses and of snapshots.\<close>

lemma map_gm_put: "map (\<lambda>(v, a). (v, h a)) (gm_put v a m) = gm_put v (h a) (map (\<lambda>(v, a). (v, h a)) m)"
  unfolding gm_put_def by (induction m) auto

lemma map_gm_get: "gm_get (map (\<lambda>(v, a). (v, h a)) m) v = map_option h (gm_get m v)"
  unfolding gm_get_def by (induction m) auto

lemma gm_put_range: "snd ` set (gm_put v a m) \<subseteq> insert a (snd ` set m)"
  unfolding gm_put_def by (induction m) auto

lemma gm_get_range: "gm_get m v = Some a \<Longrightarrow> a \<in> snd ` set m"
  unfolding gm_get_def by (force dest: map_of_SomeD)

lemma store_of_simps [simp]:
  "ms_current (store_of S) = sh_heap S (sh_current S)"
  "ms_history (store_of S) = map (\<lambda>(v, a). (v, sh_heap S a)) (sh_history S)"
  "ms_maxKeep (store_of S) = sh_maxKeep S" "ms_closed (store_of S) = sh_closed S"
  "store_of (S\<lparr>sh_lock := x\<rparr>) = store_of S"
  by (simp_all add: store_of_def)

lemma store_of_history [simp]: "store_of (S\<lparr>sh_history := gm_put v a (sh_history S)\<rparr>) =
    (store_of S)\<lparr>ms_history := gm_put v (sh_heap S a) (ms_history (store_of S))\<rparr>"
  by (simp add: store_of_def map_gm_put)

lemma store_of_fresh:
  assumes "a \<noteq> sh_current S" and "a \<notin> snd ` set (sh_history S)"
  shows "store_of (S\<lparr>sh_heap := (sh_heap S)(a := x), sh_next := n\<rparr>) = store_of S"
    "store_of (S\<lparr>sh_heap := (sh_heap S)(a := x)\<rparr>) = store_of S"
  using assms by (force simp: store_of_def)+

lemma filter_map_values:
  "filter (\<lambda>(v, _). P v) (map (\<lambda>(v, a). (v, h a)) m) = map (\<lambda>(v, a). (v, h a)) (filter (\<lambda>(v, _). P v) m)"
  by (induction m) auto

lemma store_of_prune: "store_of (prune_shared S) = pruneHistoryLocked (store_of S)"
  by (simp add: store_of_def prune_shared_def pruneHistoryLocked_def Let_def filter_map_values
      [of "\<lambda>v. v = 0 \<or> v = c \<or> \<not> v < k" for c k])

lemma prune_shared_simps [simp]:
  "sh_lock (prune_shared S) = sh_lock S" "sh_next (prune_shared S) = sh_next S"
  "sh_current (prune_shared S) = sh_current S" "sh_heap (prune_shared S) = sh_heap S"
  "set (sh_history (prune_shared S)) \<subseteq> set (sh_history S)"
  by (auto simp: prune_shared_def Let_def)

text \<open>The assignments of a commit build the state that \<open>commitState\<close> returns.\<close>

lemma applyOverlay_fold: "applyOverlay m over = fold overlay_put over m"
  by (induction m over rule: applyOverlay.induct) (simp_all add: overlay_put_def split: option.split)

lemma fold_field:
  assumes "\<And>x st. sel (upd (\<lambda>_. x) st) = x" and "\<And>x y st. upd (\<lambda>_. x) (upd (\<lambda>_. y) st) = upd (\<lambda>_. x) st"
    and "\<And>st. upd (\<lambda>_. sel st) st = st"
  shows "fold (\<lambda>g. g b) (map (\<lambda>e b st. upd (\<lambda>_. overlay_put e (sel st)) st) over) st =
    upd (\<lambda>_. applyOverlay (sel st) over) st"
  unfolding applyOverlay_fold
  by (induction over arbitrary: st) (simp_all add: assms)

lemmas fold_fields =
  fold_field [of st_persons st_persons_update, simplified]
  fold_field [of st_relationships st_relationships_update, simplified]
  fold_field [of st_sources st_sources_update, simplified]
  fold_field [of st_proposals st_proposals_update, simplified]

lemma fill_commit:
  "fold (\<lambda>g. g (wx_base w)) (fill_writes w) (emptyState\<lparr>st_version := v\<rparr>) = commitState w v"
  by (simp add: fill_writes_def fold_fields commitState_def emptyState_def)

lemma all_handles_upd:
  assumes "i < length Ts" and "th_handles t' = th_handles (Ts ! i)"
  shows "all_handles (Ts[i := t']) = all_handles Ts"
proof -
  have "map th_handles (Ts[i := t']) = map th_handles Ts"
    using assms by (simp add: map_update list_update_same_conv)
  then show ?thesis by (simp only: all_handles_def)
qed

lemma all_handles_more:
  assumes "i < length Ts" and "th_handles t' = th_handles (Ts ! i) @ as"
  shows "all_handles (Ts[i := t']) = all_handles Ts \<union> set as"
  unfolding all_handles_def map_update assms(2)
  using assms(1) by (subst (2) id_take_nth_drop [OF assms(1)])
    (auto simp: upd_conv_take_nth_drop take_map drop_map)

lemma handle_in: "i < length Ts \<Longrightarrow> set (th_handles (Ts ! i)) \<subseteq> all_handles Ts"
  by (force simp: all_handles_def)

text \<open>Callers are read through the heap at their handles only.\<close>

lemma callers_stable:
  assumes i: "i < length Ts" and t: "th_todo t' = th_todo (Ts ! i)" "th_done t' = th_done (Ts ! i)"
    "th_handles t' = th_handles (Ts ! i)"
    and heap: "\<forall>a \<in> all_handles Ts. sh_heap S' a = sh_heap S a"
  shows "map (caller_of S') (Ts[i := t']) = map (caller_of S) Ts"
proof (rule nth_equalityI)
  fix j assume "j < length (map (caller_of S') (Ts[i := t']))"
  then have j: "j < length Ts" by simp
  have "map (read_at S') (th_handles (Ts ! j)) = map (read_at S) (th_handles (Ts ! j))"
    using heap handle_in [OF j] by (auto simp: read_at_def)
  then have "caller_of S' (Ts ! j) = caller_of S (Ts ! j)" by (simp add: caller_of_def)
  moreover from this have "caller_of S' t' = caller_of S (Ts ! i)" if "i = j"
    using that t by (simp add: caller_of_def)
  ultimately show "map (caller_of S') (Ts[i := t']) ! j = map (caller_of S) Ts ! j"
    using i j by (simp add: nth_list_update)
qed simp

text \<open>Another goroutine sees of the shared state only who has the mutex.\<close>

lemma ready_upd:
  fixes Ts :: "('l, 'o) Thread list"
  assumes "\<forall>j < length Ts. ready j S (Ts ! j)" and "sh_lock S' = sh_lock S" and "ready i S' t'"
  shows "\<forall>j < length (Ts[i := t']). ready j S' (Ts[i := t'] ! j)"
proof -
  have "ready j S' t = ready j S t" for j and t :: "('l, 'o) Thread" by (simp add: ready_def assms(2))
  with assms(1,3) have "ready j S' (Ts[i := t'] ! j)" if "j < length Ts" for j
    using that by (cases "j = i") simp_all
  then show ?thesis by simp
qed

lemma holder_step:
  assumes sim: "sim S Ts M" and i: "i < length Ts" and lock: "sh_lock S = Some i" "sh_lock S' = Some i"
    and t: "t' = (Ts ! i)\<lparr>th_pc := pc\<rparr>" and pc: "holds pc"
    and addr: "addr_ok S' (all_handles Ts)" and heap: "\<forall>a \<in> all_handles Ts. sh_heap S' a = sh_heap S a"
    and under: "underway pc (hd (th_todo (Ts ! i))) S' (all_handles Ts) M"
  shows "sim S' (Ts[i := t']) M \<and> map (caller_of S') (Ts[i := t']) = map (caller_of S) Ts"
proof -
  have r: "\<forall>j < length Ts. ready j S (Ts ! j)" using sim by (simp add: sim_def)
  from r i lock(1) have "holds (th_pc (Ts ! i))" "ready i S (Ts ! i)" by (auto simp: ready_def)
  then have "ready i S' t'"
    using lock t pc by (cases "th_pc (Ts ! i)") (auto simp: ready_def)
  from ready_upd [OF r _ this] lock have "\<forall>j < length (Ts[i := t']). ready j S' (Ts[i := t'] ! j)" by simp
  moreover have "all_handles (Ts[i := t']) = all_handles Ts"
    using i t by (intro all_handles_upd) simp_all
  ultimately have "sim S' (Ts[i := t']) M"
    using i t lock(2) addr under by (simp add: sim_def)
  moreover have "map (caller_of S') (Ts[i := t']) = map (caller_of S) Ts"
    using i t heap by (intro callers_stable) simp_all
  ultimately show ?thesis ..
qed

lemma simD:
  assumes "sim S Ts M" and "i < length Ts"
  shows "addr_ok S (all_handles Ts)" "ready i S (Ts ! i)"
    "holds (th_pc (Ts ! i)) \<Longrightarrow> sh_lock S = Some i"
    "holds (th_pc (Ts ! i)) \<Longrightarrow> underway (th_pc (Ts ! i)) (hd (th_todo (Ts ! i))) S (all_handles Ts) M"
  using assms by (auto simp: sim_def ready_def split: option.splits)

lemma addr_fresh:
  assumes "addr_ok S H"
  shows "sh_next S \<noteq> sh_current S" "sh_next S \<notin> snd ` set (sh_history S)" "sh_next S \<notin> H"
  using assms by (auto simp: addr_ok_def)

text \<open>The first statement of a call, with the mutex held.\<close>

lemma begin_underway:
  assumes "store_of S = M" and "addr_ok S H" and "\<not> is_read c" and "Call_ok c"
  shows "underway (begin_call c S) c S H M" "holds (begin_call c S)"
proof -
  have r: "reload b (newWriteTx b) = newWriteTx b" for b by (simp add: reload_def newWriteTx_def)
  have v: "read_at S a = \<lparr>rx_state = sh_heap S a, rx_closed = False\<rparr>" for a by (simp add: read_at_def)
  have h: "a < sh_next S" if "gm_get (sh_history S) v = Some a" for v a
    using gm_get_range [OF that] assms(2) by (auto simp: addr_ok_def)
  show "underway (begin_call c S) c S H M"
  proof (cases c)
    case (DoViewAt v)
    then show ?thesis
      using assms h [of v]
      by (auto simp: ViewAt_def map_gm_get v assms(1) [symmetric] simp del: store_of_history split: option.split)
  qed (use assms in \<open>auto simp: CurrentVersion_def View_def Update_def v r assms(1) [symmetric]
      addr_ok_def\<close>)
  show "holds (begin_call c S)"
    using assms(3) by (cases c) (auto split: option.split)
qed

lemma Update_returns:
  assumes "returns c M w l"
  shows "call_effect c hs M = Some (ResUpdate (Inr (st_version (next_state M w), l)), hs,
    pruneHistoryLocked ((with_next M w)\<lparr>ms_current := next_state M w\<rparr>))"
  using assms
  by (auto simp: returns_def Update_def Let_def commit_tx_def next_state_def with_next_def)

text \<open>
  The mutex holder: every statement between taking the mutex and returning. What such a statement
  does, for the invariant: it changes the holder's place and what is behind no handle.
\<close>

definition holder_to ::
    "Shared \<Rightarrow> addr set \<Rightarrow> MemStore \<Rightarrow> ('l, 'o) Thread \<Rightarrow> Shared \<Rightarrow> ('l, 'o) Thread \<Rightarrow> bool" where
  "holder_to S H M t S' t' \<longleftrightarrow> (\<exists>pc. t' = t\<lparr>th_pc := pc\<rparr> \<and> holds pc \<and> sh_lock S' = sh_lock S \<and>
     addr_ok S' H \<and> (\<forall>a \<in> H. sh_heap S' a = sh_heap S a) \<and> underway pc (hd (th_todo t)) S' H M)"

lemma holder_toI:
  "t' = t\<lparr>th_pc := pc\<rparr> \<Longrightarrow> holds pc \<Longrightarrow> sh_lock S' = sh_lock S \<Longrightarrow> addr_ok S' H \<Longrightarrow>
   \<forall>a \<in> H. sh_heap S' a = sh_heap S a \<Longrightarrow> underway pc (hd (th_todo t)) S' H M \<Longrightarrow> holder_to S H M t S' t'"
  by (auto simp: holder_to_def)

lemma allocate_step:
  assumes under: "underway (th_pc t) (hd (th_todo t)) S H M" and addr: "addr_ok S H"
    and pc: "th_pc t = Callback l b w []" and adv: "advance i S t = Some (S', t')"
  shows "holder_to S H M t S' t'"
proof -
  let ?c = "hd (th_todo t)" and ?a = "sh_next S" and ?v = "st_version (sh_heap S (sh_current S)) + 1"
  have M: "store_of S = M" and opn: "\<not> ms_closed M" and b: "b = sh_current S" and w: "reload (sh_heap S b) w = w"
    using under pc by auto
  obtain l0 body where call: "?c = DoUpdate l0 body"
    and run: "run_body body l0 (newWriteTx (ms_current M)) = run_body [] l w"
    using under pc by auto
  have S': "S' = S\<lparr>sh_heap := (sh_heap S)(?a := emptyState\<lparr>st_version := ?v\<rparr>), sh_next := ?a + 1\<rparr>"
    and t': "t' = t\<lparr>th_pc := Filling b ?a l (fill_writes w)\<rparr>"
    using adv pc by (auto simp: advance_def Let_def)
  have "wx_base w = sh_heap S b" using arg_cong [OF w, of wx_base] by (simp add: reload_def)
  then have "fold (\<lambda>g. g (sh_heap S b)) (fill_writes w) (emptyState\<lparr>st_version := ?v\<rparr>) = next_state M w"
    using fill_commit [of w ?v] by (simp add: next_state_def M [symmetric])
  moreover have "returns ?c M w l" using call run opn by (simp add: returns_def)
  ultimately show ?thesis
    using addr_fresh [OF addr] addr b M
    by (intro holder_toI [OF t']) (auto simp: S' addr_ok_def store_of_fresh)
qed

lemma callback_step:
  assumes under: "underway (th_pc t) (hd (th_todo t)) S H M" and addr: "addr_ok S H"
    and pc: "th_pc t = Callback l b w (f # fs)" and adv: "advance i S t = Some (S', t')"
  shows "holder_to S H M t S' t'"
proof -
  let ?c = "hd (th_todo t)"
  have M: "store_of S = M" and opn: "\<not> ms_closed M" and b: "b = sh_current S"
    and w: "reload (sh_heap S b) w = w" and f: "keeps_base f" "\<forall>f \<in> set fs. keeps_base f"
    using under pc by auto
  obtain l0 body where call: "?c = DoUpdate l0 body"
    and run: "run_body body l0 (newWriteTx (ms_current M)) = run_body (f # fs) l w"
    using under pc by auto
  obtain r where r: "f (l, w) = Some r"
    using adv pc w by (cases "f (l, w)") (simp_all add: advance_def)
  show ?thesis
  proof (cases r)
    case (Inl e)
    have "S' = S" and t': "t' = t\<lparr>th_pc := Unlocking [] (ResUpdate (Inl e))\<rparr>"
      using adv pc w r Inl by (auto simp: advance_def)
    moreover have "call_effect ?c hs M = Some (ResUpdate (Inl e), hs, M)" for hs
      using call run opn r Inl by (simp add: Update_def)
    ultimately show ?thesis using addr M by (intro holder_toI [OF t']) simp_all
  next
    case (Inr x)
    obtain l' w' where x: "x = (l', w')" by (cases x)
    have S': "S' = S" and t': "t' = t\<lparr>th_pc := Callback l' b w' fs\<rparr>"
      using adv pc w r Inr x by (auto simp: advance_def)
    have "reload (sh_heap S b) w' = w'" using r Inr x w f(1) unfolding keeps_base_def by blast
    moreover have "run_body body l0 (newWriteTx (ms_current M)) = run_body fs l' w'"
      using run r Inr x by simp
    ultimately have "underway (Callback l' b w' fs) ?c S H M"
      unfolding underway.simps using M opn b f call by (intro conjI) simp_all
    then show ?thesis
      unfolding S' by (intro holder_toI [OF t' _ _ addr]) (simp_all only: holds.simps simp_thms ball_triv)
  qed
qed

lemma filling_step:
  assumes under: "underway (th_pc t) (hd (th_todo t)) S H M" and addr: "addr_ok S H"
    and pc: "th_pc t = Filling b a l gs" and adv: "advance i S t = Some (S', t')"
  shows "holder_to S H M t S' t'"
proof -
  let ?c = "hd (th_todo t)"
  have M: "store_of S = M" and b: "b = sh_current S" and a: "a < sh_next S" "a \<noteq> sh_current S"
    "a \<notin> snd ` set (sh_history S)" "a \<notin> H"
    using under pc by auto
  obtain w where w: "returns ?c M w l" "fold (\<lambda>g. g (sh_heap S b)) gs (sh_heap S a) = next_state M w"
    using under pc by auto
  show ?thesis
  proof (cases gs)
    case Nil
    have S': "S' = S\<lparr>sh_history := gm_put (st_version (sh_heap S a)) a (sh_history S)\<rparr>"
      and t': "t' = t\<lparr>th_pc := Recorded a l\<rparr>"
      using adv pc Nil by (auto simp: advance_def)
    have "addr_ok S' H"
      using addr a(1) gm_put_range [of "st_version (sh_heap S a)" a "sh_history S"]
      by (auto simp: S' addr_ok_def)
    moreover have "sh_heap S a = next_state M w" using w(2) Nil by simp
    moreover from this have "store_of S' = with_next M w"
      using M by (simp add: S' with_next_def del: store_of_simps(2))
    ultimately show ?thesis
      using w(1) a(1) by (intro holder_toI [OF t']) (auto simp: S' simp del: store_of_history)
  next
    case (Cons g gs')
    have S': "S' = S\<lparr>sh_heap := (sh_heap S)(a := g (sh_heap S b) (sh_heap S a))\<rparr>"
      and t': "t' = t\<lparr>th_pc := Filling b a l gs'\<rparr>"
      using adv pc Cons by (auto simp: advance_def)
    show ?thesis
      using addr a b M w Cons by (intro holder_toI [OF t']) (auto simp: S' addr_ok_def store_of_fresh)
  qed
qed

lemma publish_step:
  assumes under: "underway (th_pc t) (hd (th_todo t)) S H M" and addr: "addr_ok S H"
    and pc: "th_pc t = Recorded a l" and adv: "advance i S t = Some (S', t')"
  shows "holder_to S H M t S' t'"
proof -
  have S': "S' = S\<lparr>sh_current := a\<rparr>" and t': "t' = t\<lparr>th_pc := Swapped l\<rparr>"
    using adv pc by (auto simp: advance_def)
  obtain w where w: "returns (hd (th_todo t)) M w l" "sh_heap S a = next_state M w" "store_of S = with_next M w"
    and a: "a < sh_next S"
    using under pc by auto
  have "store_of S' = (with_next M w)\<lparr>ms_current := next_state M w\<rparr>"
    unfolding w(2,3) [symmetric] by (simp add: S' store_of_def)
  with w(1) have "underway (Swapped l) (hd (th_todo t)) S' H M" by auto
  then show ?thesis
    using addr a by (intro holder_toI [OF t']) (simp_all add: S' addr_ok_def)
qed

lemma prune_step:
  assumes under: "underway (th_pc t) (hd (th_todo t)) S H M" and addr: "addr_ok S H"
    and pc: "th_pc t = Swapped l" and adv: "advance i S t = Some (S', t')"
  shows "holder_to S H M t S' t'"
proof -
  let ?c = "hd (th_todo t)"
  have S': "S' = prune_shared S"
    and t': "t' = t\<lparr>th_pc := Unlocking [] (ResUpdate (Inr (st_version (sh_heap S (sh_current S)), l)))\<rparr>"
    using adv pc by (auto simp: advance_def)
  obtain w where w: "returns ?c M w l" "store_of S = (with_next M w)\<lparr>ms_current := next_state M w\<rparr>"
    using under pc by auto
  have "sh_heap S (sh_current S) = next_state M w" using arg_cong [OF w(2), of ms_current] by simp
  with Update_returns [OF w(1)] w(2)
  have "call_effect ?c hs M = Some (ResUpdate (Inr (st_version (sh_heap S (sh_current S)), l)), hs,
      store_of (prune_shared S))" for hs
    by (simp add: store_of_prune)
  moreover have "addr_ok (prune_shared S) H"
    using addr prune_shared_simps(5) [of S] unfolding addr_ok_def prune_shared_simps(2,3) by blast
  ultimately show ?thesis
    by (intro holder_toI [OF t']) (simp_all add: S')
qed

lemma close_step:
  assumes under: "underway (th_pc t) (hd (th_todo t)) S H M" and addr: "addr_ok S H"
    and pc: "th_pc t \<in> {Closing, Dropping}" and adv: "advance i S t = Some (S', t')"
  shows "holder_to S H M t S' t'"
proof (cases "th_pc t")
  case Closing
  have S': "S' = S\<lparr>sh_closed := True\<rparr>" and t': "t' = t\<lparr>th_pc := Dropping\<rparr>"
    using adv Closing by (auto simp: advance_def)
  have "store_of (S\<lparr>sh_closed := True\<rparr>) = (store_of S)\<lparr>ms_closed := True\<rparr>" by (simp add: store_of_def)
  then show ?thesis
    using addr under Closing by (intro holder_toI [OF t']) (auto simp: S' addr_ok_def)
next
  case Dropping
  have S': "S' = S\<lparr>sh_history := []\<rparr>" and t': "t' = t\<lparr>th_pc := Unlocking [] ResClose\<rparr>"
    using adv Dropping by (auto simp: advance_def)
  have c: "hd (th_todo t) = DoClose" and M: "store_of S = M\<lparr>ms_closed := True\<rparr>"
    using under Dropping by simp_all
  have "store_of S' = (store_of S)\<lparr>ms_history := []\<rparr>" by (simp add: S' store_of_def)
  then have "store_of S' = CloseStore M" by (simp add: M CloseStore_def)
  then show ?thesis
    using addr c by (intro holder_toI [OF t']) (simp_all add: S' addr_ok_def)
qed (use pc in simp_all)

lemma holder_advance:
  assumes sim: "sim S Ts M" and i: "i < length Ts" and pc: "holds (th_pc (Ts ! i))"
    and ret: "\<And>as r. th_pc (Ts ! i) \<noteq> Unlocking as r" and adv: "advance i S (Ts ! i) = Some (S', t')"
  shows "sim S' (Ts[i := t']) M \<and> map (caller_of S') (Ts[i := t']) = map (caller_of S) Ts"
proof -
  let ?t = "Ts ! i" and ?H = "all_handles Ts"
  have lock: "sh_lock S = Some i" and under: "underway (th_pc ?t) (hd (th_todo ?t)) S ?H M"
    using simD(3,4) [OF sim i pc] by simp_all
  have addr: "addr_ok S ?H" and rdy: "ready i S ?t" by (rule simD [OF sim i])+
  have c: "\<not> is_read (hd (th_todo ?t))" "Call_ok (hd (th_todo ?t))" using rdy pc by (auto simp: ready_def)
  note steps = callback_step allocate_step filling_step publish_step prune_step close_step
  have "holder_to S ?H M ?t S' t'"
  proof (cases "th_pc ?t")
    case Locked
    have "store_of S = M" using under Locked by simp
    note B = begin_underway [OF this addr c]
    have "S' = S" "t' = ?t\<lparr>th_pc := begin_call (hd (th_todo ?t)) S\<rparr>" using adv Locked by (auto simp: advance_def)
    then show ?thesis using holder_toI [OF _ B(2) refl addr _ B(1)] by simp
  next
    case (Callback l b w fs)
    then show ?thesis using steps(1,2) [OF under addr _ adv] by (cases fs) auto
  qed (use pc ret steps(3-) [OF under addr _ adv] in \<open>simp_all\<close>)
  then show ?thesis using holder_step [OF sim i lock] lock unfolding holder_to_def by auto
qed

text \<open>A goroutine without the mutex changes only itself.\<close>

lemma bystander_step:
  assumes sim: "sim S Ts M" and i: "i < length Ts" and lock: "sh_lock S \<noteq> Some i"
    and t': "ready i S t'" "th_handles t' = th_handles (Ts ! i)"
  shows "sim S (Ts[i := t']) M"
proof -
  have "\<forall>j < length (Ts[i := t']). ready j S (Ts[i := t'] ! j)"
    using sim t'(1) by (intro ready_upd) (simp_all add: sim_def)
  then show ?thesis
    using sim lock unfolding sim_def all_handles_upd [OF i t'(2)]
    by (auto split: option.splits)
qed

lemma read_step:
  assumes t: "th_todo t = DoRead n q # cs"
  shows "call_effect (DoRead n q) (ca_handles (caller_of S t)) M =
    Some (ResRead (if n < length (th_handles t) then Some (q (read_at S (th_handles t ! n))) else None),
      ca_handles (caller_of S t), M)"
  by (simp add: caller_of_def)

lemma lock_step:
  assumes sim: "sim S Ts M" and i: "i < length Ts" and pc: "th_pc (Ts ! i) = Locking"
    and lock: "sh_lock S = None"
  shows "sim (S\<lparr>sh_lock := Some i\<rparr>) (Ts[i := (Ts ! i)\<lparr>th_pc := Locked\<rparr>]) M"
proof -
  let ?S = "S\<lparr>sh_lock := Some i\<rparr>" and ?t' = "(Ts ! i)\<lparr>th_pc := Locked\<rparr>"
  have "ready j ?S (Ts[i := ?t'] ! j)" if "j < length Ts" for j
    using simD(2) [OF sim that] pc lock by (cases "j = i") (simp_all add: ready_def i)
  moreover have "all_handles (Ts[i := ?t']) = all_handles Ts" using i by (simp add: all_handles_upd)
  ultimately show ?thesis
    using sim i lock by (simp add: sim_def addr_ok_def)
qed

lemma unlock_step:
  assumes sim: "sim S Ts M" and i: "i < length Ts" and pc: "th_pc (Ts ! i) = Unlocking as r"
    and t': "t' = (Ts ! i)\<lparr>th_pc := Idle, th_todo := tl (th_todo (Ts ! i)),
      th_done := th_done (Ts ! i) @ [r], th_handles := th_handles (Ts ! i) @ as\<rparr>"
  shows "sim (S\<lparr>sh_lock := None\<rparr>) (Ts[i := t']) (store_of S)"
    "atomic (M, map (caller_of S) Ts)
       (store_of S, (map (caller_of S) Ts)[i := caller_of S t'])"
proof -
  let ?t = "Ts ! i"
  have lock: "sh_lock S = Some i" and under: "underway (th_pc ?t) (hd (th_todo ?t)) S (all_handles Ts) M"
    using simD(3,4) [OF sim i] pc by simp_all
  have "ready j (S\<lparr>sh_lock := None\<rparr>) (Ts[i := t'] ! j)" if "j < length Ts" for j
  proof (cases "j = i")
    case True
    then show ?thesis
      using simD(2) [OF sim i] i by (cases "th_todo ?t") (auto simp: ready_def t')
  qed (use simD(2) [OF sim that] lock in \<open>auto simp: ready_def\<close>)
  moreover have "all_handles (Ts[i := t']) = all_handles Ts \<union> set as"
    using i by (intro all_handles_more) (simp_all add: t')
  moreover have "addr_ok (S\<lparr>sh_lock := None\<rparr>) (all_handles Ts \<union> set as)"
    using simD(1) [OF sim i] under pc by (simp add: addr_ok_def)
  ultimately show "sim (S\<lparr>sh_lock := None\<rparr>) (Ts[i := t']) (store_of S)"
    by (simp add: sim_def)
  obtain c cs where todo: "th_todo ?t = c # cs"
    using simD(2) [OF sim i] pc by (cases "th_todo ?t") (auto simp: ready_def)
  have eff: "call_effect c (ca_handles (map (caller_of S) Ts ! i)) M =
      Some (r, ca_handles (caller_of S ?t) @ map (read_at S) as, store_of S)"
    using under pc todo i by simp
  have "caller_of S t' = \<lparr>ca_todo = cs, ca_done = ca_done (map (caller_of S) Ts ! i) @ [r],
      ca_handles = ca_handles (caller_of S ?t) @ map (read_at S) as\<rparr>"
    using i by (simp add: caller_of_def t' todo)
  then show "atomic (M, map (caller_of S) Ts)
      (store_of S, (map (caller_of S) Ts)[i := caller_of S t'])"
    using atomic.call [OF _ _ eff] i todo by (simp add: caller_of_def)
qed

text \<open>One statement is one call that happens at once, or no call.\<close>

lemma interleaved_sim:
  fixes Ts :: "('l, 'o) Thread list"
  assumes sim: "sim S Ts M" and i: "i < length Ts" and adv: "advance i S (Ts ! i) = Some (S', t')"
  shows "\<exists>M'. sim S' (Ts[i := t']) M' \<and>
    atomic\<^sup>*\<^sup>* (M, map (caller_of S) Ts) (M', map (caller_of S') (Ts[i := t']))"
proof -
  let ?t = "Ts ! i"
  have rdy: "ready i S ?t" by (rule simD [OF sim i])
  show ?thesis
  proof (cases "th_pc ?t")
    case Idle
    then have nl: "sh_lock S \<noteq> Some i" using rdy by (simp add: ready_def)
    obtain c cs where todo: "th_todo ?t = c # cs"
      using adv Idle by (cases "th_todo ?t") (auto simp: advance_def)
    show ?thesis
    proof (cases "is_read c")
      case True
      then obtain n q where c: "c = DoRead n q" by (cases c) simp_all
      let ?r = "if n < length (th_handles ?t) then Some (q (read_at S (th_handles ?t ! n))) else None"
      have S': "S' = S" and t': "t' = ?t\<lparr>th_todo := cs, th_done := th_done ?t @ [ResRead ?r]\<rparr>"
        using adv Idle todo c by (auto simp: advance_def)
      have "ready i S t'" using rdy Idle todo by (simp add: t' ready_def)
      then have "sim S (Ts[i := t']) M" using sim i nl by (intro bystander_step) (simp_all add: t')
      moreover have "atomic (M, map (caller_of S) Ts) (M, (map (caller_of S) Ts)[i := caller_of S t'])"
        using atomic.call [of i "map (caller_of S) Ts" "DoRead n q" cs M "ResRead ?r"
            "ca_handles (caller_of S ?t)" M] read_step [of ?t n q cs S M] i todo c
        by (simp add: caller_of_def t')
      ultimately show ?thesis unfolding S' map_update by blast
    next
      case False
      have S': "S' = S" and t': "t' = ?t\<lparr>th_pc := Locking\<rparr>"
        using adv Idle todo False by (cases c; auto simp: advance_def)+
      have "ready i S t'" using rdy nl todo False by (simp add: t' ready_def)
      then have "sim S (Ts[i := t']) M" using sim i nl by (intro bystander_step) (simp_all add: t')
      moreover have "map (caller_of S) (Ts[i := t']) = map (caller_of S) Ts"
        using i by (intro callers_stable) (simp_all add: t')
      ultimately show ?thesis unfolding S' by auto
    qed
  next
    case Locking
    have lock: "sh_lock S = None" and S': "S' = S\<lparr>sh_lock := Some i\<rparr>" and t': "t' = ?t\<lparr>th_pc := Locked\<rparr>"
      using adv Locking by (auto simp: advance_def split: if_splits)
    have "map (caller_of S') (Ts[i := t']) = map (caller_of S) Ts"
      using i by (intro callers_stable) (simp_all add: S' t')
    then show ?thesis using lock_step [OF sim i Locking lock] unfolding S' t' by auto
  next
    case (Unlocking as r)
    have S': "S' = S\<lparr>sh_lock := None\<rparr>" and t': "t' = ?t\<lparr>th_pc := Idle, th_todo := tl (th_todo ?t),
        th_done := th_done ?t @ [r], th_handles := th_handles ?t @ as\<rparr>"
      using adv Unlocking by (auto simp: advance_def)
    have eq: "caller_of S' t = caller_of S t" for t :: "('l, 'o) Thread"
      by (simp add: S' caller_of_def read_at_def)
    have map: "map (caller_of S') Ts = map (caller_of S) Ts" by (simp add: eq)
    show ?thesis
      using unlock_step [OF sim i Unlocking t'] unfolding map_update map eq S' [symmetric] by blast
  qed (use holder_advance [OF sim i _ _ adv] in auto)
qed

text \<open>Along an execution.\<close>

lemma sim_start:
  assumes "\<forall>p \<in> set progs. \<forall>c \<in> set p. Call_ok c" and "start_config n progs = (S, Ts)"
  shows "sim S Ts (fst (start_atomic n progs))" "map (caller_of S) Ts = snd (start_atomic n progs)"
proof -
  have S: "S = NewShared n" and Ts: "Ts = map (\<lambda>p. \<lparr>th_pc = Idle, th_todo = p, th_done = [], th_handles = []\<rparr>) progs"
    using assms(2) by (simp_all add: start_config_def)
  have "store_of S = NewStore [WithHistoryLimit n]"
    by (simp add: S NewShared_def store_of_def NewStore_def WithHistoryLimit_def Let_def gm_put_def)
  moreover have "ready i S (Ts ! i)" if "i < length Ts" for i
    using assms(1) that nth_mem [of i progs] by (auto simp: ready_def Ts S NewShared_def)
  moreover have "addr_ok S (all_handles Ts)"
    by (auto simp: S Ts addr_ok_def all_handles_def NewShared_def gm_put_def)
  moreover have "sh_lock S = None" by (simp add: S NewShared_def)
  ultimately show "sim S Ts (fst (start_atomic n progs))"
    by (simp add: sim_def start_atomic_def)
  show "map (caller_of S) Ts = snd (start_atomic n progs)"
    by (simp add: Ts start_atomic_def caller_of_def comp_def)
qed

lemma execution_sim:
  assumes ok: "\<forall>p \<in> set progs. \<forall>c \<in> set p. Call_ok c"
    and run: "interleaved\<^sup>*\<^sup>* (start_config n progs) (S, Ts)"
  shows "\<exists>M. sim S Ts M \<and> atomic\<^sup>*\<^sup>* (start_atomic n progs) (M, map (caller_of S) Ts)"
  using run
proof (induction "(S, Ts)" arbitrary: S Ts rule: rtranclp_induct)
  case base
  from sim_start [OF ok base] show ?case
    by (metis prod.collapse rtranclp.rtrancl_refl)
next
  case (step cfg)
  obtain S0 Ts0 where cfg: "cfg = (S0, Ts0)" by (cases cfg)
  with step.hyps(3) obtain M where M: "sim S0 Ts0 M"
    "atomic\<^sup>*\<^sup>* (start_atomic n progs) (M, map (caller_of S0) Ts0)" by blast
  from step.hyps(2) [unfolded cfg] obtain i t' where "i < length Ts0"
    "advance i S0 (Ts0 ! i) = Some (S, t')" "Ts = Ts0[i := t']"
    by (auto elim: interleavedE)
  with interleaved_sim [OF M(1)] obtain M' where "sim S Ts M'"
    "atomic\<^sup>*\<^sup>* (M, map (caller_of S0) Ts0) (M', map (caller_of S) Ts)" by metis
  with M(2) show ?case by (meson rtranclp_trans)
qed

section \<open>Properties\<close>

text \<open>
  C11: the in-memory store is serializable. Let goroutines run programs of calls on one store,
  interleaved statement by statement, with commits that fill their snapshot assignment by
  assignment while others read. Then at every moment there is a sequence of calls that happen at
  once, each as the operation of the store has it, in which every goroutine has made the calls that
  it has returned from, got the results that it got, and holds the handles that it holds, which
  show what they showed when they were opened; and whenever the mutex is free, shared memory is the
  store that this sequence leaves.
\<close>

theorem threads_serializable:
  assumes "\<forall>p \<in> set progs. \<forall>c \<in> set p. Call_ok c"
    and "interleaved\<^sup>*\<^sup>* (start_config n progs) (S, Ts)"
  shows "\<exists>M. atomic\<^sup>*\<^sup>* (start_atomic n progs) (M, map (caller_of S) Ts) \<and>
    (sh_lock S = None \<longrightarrow> store_of S = M)"
  using execution_sim [OF assms] by (auto simp: sim_def)

section \<open>Waiting and termination\<close>

definition diverges :: "Shared \<Rightarrow> ('l, 'o) Thread \<Rightarrow> bool" where
  "diverges S t \<longleftrightarrow> (case th_pc t of
     Callback l b w (f # fs) \<Rightarrow> f (l, reload (sh_heap S b) w) = None | _ \<Rightarrow> False)"

definition finished :: "('l, 'o) Thread \<Rightarrow> bool" where
  "finished t \<longleftrightarrow> (case th_pc t of Idle \<Rightarrow> th_todo t = [] | _ \<Rightarrow> False)"

lemma advance_None:
  "advance i S t = None \<longleftrightarrow> finished t \<or> th_pc t = Locking \<and> sh_lock S \<noteq> None \<or> diverges S t"
  by (auto simp: advance_def finished_def diverges_def Let_def
      split: pc.split list.split Call.split option.split sum.split prod.split)

lemma sim_stuck:
  assumes sim: "sim S Ts M" and stuck: "\<forall>i < length Ts. advance i S (Ts ! i) = None"
  shows "(\<forall>t \<in> set Ts. finished t) \<or> (\<exists>t \<in> set Ts. diverges S t)"
proof (cases "sh_lock S")
  case None
  have "finished (Ts ! i) \<or> diverges S (Ts ! i)" if "i < length Ts" for i
    using stuck that None by (simp add: advance_None)
  then show ?thesis unfolding set_conv_nth by auto
next
  case (Some i)
  with sim have i: "i < length Ts" and "underway (th_pc (Ts ! i)) (hd (th_todo (Ts ! i))) S (all_handles Ts) M"
    by (simp_all add: sim_def)
  then have "\<not> finished (Ts ! i)" "th_pc (Ts ! i) \<noteq> Locking"
    by (auto simp: finished_def split: pc.splits)
  with stuck i have "diverges S (Ts ! i)" by (auto simp: advance_None)
  with i show ?thesis by auto
qed

text \<open>Every statement lowers the calls to make, or the place in a call, or what is left of a list.\<close>

definition stage :: "('l, 'o) Thread \<Rightarrow> nat" where
  "stage t = (case th_pc t of
     Idle \<Rightarrow> (if th_todo t = [] then 0 else if is_read (hd (th_todo t)) then 1 else 10)
   | Locking \<Rightarrow> 9 | Locked \<Rightarrow> 8 | Callback _ _ _ _ \<Rightarrow> 7 | Filling _ _ _ _ \<Rightarrow> 6 | Recorded _ _ \<Rightarrow> 5
   | Swapped _ \<Rightarrow> 4 | Closing \<Rightarrow> 3 | Dropping \<Rightarrow> 2 | Unlocking _ _ \<Rightarrow> 1)"

definition items :: "('l, 'o) Thread \<Rightarrow> nat" where
  "items t = (case th_pc t of Callback _ _ _ fs \<Rightarrow> length fs | Filling _ _ _ gs \<Rightarrow> length gs | _ \<Rightarrow> 0)"

definition left :: "('l, 'o) Thread \<Rightarrow> nat \<times> nat \<times> nat" where
  "left t = (length (th_todo t), stage t, items t)"

definition total :: "('l, 'o) config \<Rightarrow> nat \<times> nat \<times> nat" where
  "total cfg = (sum_list (map (\<lambda>t. length (th_todo t)) (snd cfg)),
     sum_list (map stage (snd cfg)), sum_list (map items (snd cfg)))"

abbreviation order3 :: "((nat \<times> nat \<times> nat) \<times> nat \<times> nat \<times> nat) set" where
  "order3 \<equiv> less_than <*lex*> less_than <*lex*> less_than"

lemma advance_left: "advance i S t = Some (S', t') \<Longrightarrow> (left t', left t) \<in> order3"
proof (cases "th_pc t")
  case Locked
  assume "advance i S t = Some (S', t')"
  then have t': "t' = t\<lparr>th_pc := begin_call (hd (th_todo t)) S\<rparr>" using Locked by (auto simp: advance_def)
  show ?thesis
    by (cases "hd (th_todo t)") (auto simp: t' Locked left_def stage_def split: option.split)
next
  case (Unlocking as r)
  assume "advance i S t = Some (S', t')"
  then show ?thesis
    using Unlocking by (cases "th_todo t") (auto simp: advance_def left_def stage_def)
qed (auto simp: advance_def left_def stage_def items_def Let_def
    split: list.splits Call.splits option.splits sum.splits if_splits)

lemma sum_list_upd:
  "i < length xs \<Longrightarrow> sum_list (map f (xs[i := y])) + f (xs ! i) = sum_list (map f xs) + (f y :: nat)"
  by (induction xs arbitrary: i) (auto split: nat.split simp: less_Suc_eq_0_disj)

lemma interleaved_total:
  assumes "interleaved cfg cfg'"
  shows "(total cfg', total cfg) \<in> order3"
  using assms
proof (cases rule: interleaved.cases)
  case (statement i Ts S S' t')
  note U = sum_list_upd [OF statement(3), of _ t']
  from advance_left [OF statement(4)] U [of "\<lambda>t. length (th_todo t)"] U [of stage] U [of items] show ?thesis
    by (auto simp: statement(1,2) total_def left_def)
qed

lemma no_endless_execution: "\<nexists>run. \<forall>k. interleaved (run k) (run (Suc k))"
proof -
  have "wf (inv_image order3 total)" by auto
  then show ?thesis
    using interleaved_total unfolding wf_iff_no_infinite_down_chain by (fastforce simp: in_inv_image)
qed

text \<open>A callback that does not return does not return on the store as its goroutine found it.\<close>

lemma diverges_run:
  assumes sim: "sim S Ts M" and i: "i < length Ts" and div: "diverges S (Ts ! i)"
  shows "\<exists>l fs. DoUpdate l fs \<in> set (th_todo (Ts ! i)) \<and> \<not> ms_closed M \<and>
    run_body fs l (newWriteTx (ms_current M)) = None"
proof -
  obtain l b w f fs where pc: "th_pc (Ts ! i) = Callback l b w (f # fs)"
    and f: "f (l, reload (sh_heap S b) w) = None"
    using div by (auto simp: diverges_def split: pc.splits list.splits)
  from simD(4) [OF sim i] pc have u: "reload (sh_heap S b) w = w" "\<not> ms_closed M"
    "\<exists>l0 body. hd (th_todo (Ts ! i)) = DoUpdate l0 body \<and>
       run_body body l0 (newWriteTx (ms_current M)) = run_body (f # fs) l w"
    by auto
  moreover have "run_body (f # fs) l w = None" using f u(1) by simp
  moreover have "hd (th_todo (Ts ! i)) \<in> set (th_todo (Ts ! i))"
    using simD(2) [OF sim i] pc by (simp add: ready_def)
  ultimately show ?thesis by metis
qed

text \<open>An execution that cannot go on has finished, or is in a callback that does not return.\<close>

lemma execution_stuck:
  assumes "\<forall>p \<in> set progs. \<forall>c \<in> set p. Call_ok c"
    and "interleaved\<^sup>*\<^sup>* (start_config n progs) (S, Ts)" and stuck: "\<nexists>cfg. interleaved (S, Ts) cfg"
  shows "(\<forall>t \<in> set Ts. finished t) \<or> (\<exists>t \<in> set Ts. diverges S t)"
proof -
  have "advance i S (Ts ! i) = None" if "i < length Ts" for i
    using stuck that by (cases "advance i S (Ts ! i)") (auto intro: interleaved.statement)
  then show ?thesis using execution_sim [OF assms(1,2)] sim_stuck by blast
qed

section \<open>A schedule\<close>

fun run_schedule :: "nat list \<Rightarrow> ('l, 'o) config \<Rightarrow> ('l, 'o) config option" where
  "run_schedule [] cfg = Some cfg"
| "run_schedule (i # js) (S, Ts) =
     (if i < length Ts
      then Option.bind (advance i S (Ts ! i)) (\<lambda>(S', t'). run_schedule js (S', Ts[i := t']))
      else None)"

lemma run_schedule_interleaved: "run_schedule js cfg = Some cfg' \<Longrightarrow> interleaved\<^sup>*\<^sup>* cfg cfg'"
proof (induction js cfg rule: run_schedule.induct)
  case (2 i js S Ts)
  from "2.prems" obtain S' t' where i: "i < length Ts" and adv: "advance i S (Ts ! i) = Some (S', t')"
    and run: "run_schedule js (S', Ts[i := t']) = Some cfg'"
    by (auto split: if_splits bind_splits)
  from "2.IH" [OF i adv refl run] interleaved.statement [OF i adv] show ?case
    by (rule converse_rtranclp_into_rtranclp [rotated])
qed simp

text \<open>
  A writer puts a person; a reader has opened a snapshot before and looks at it while the writer
  fills the next one, and then asks for the version.
\<close>

definition put_step :: "Person \<Rightarrow> unit TxStep" where
  "put_step p = (\<lambda>(l, w). case writeTx_PutPerson p w of Inl e \<Rightarrow> Some (Inl e) | Inr w' \<Rightarrow> Some (Inr (l, w')))"

lemma put_step_keeps: "keeps_base (put_step p)"
  by (auto simp: keeps_base_def put_step_def reload_iff writeTx_PutPerson_def split: sum.splits if_splits)

definition placeholder :: "ID \<Rightarrow> Person" where
  "placeholder i = \<lparr>P_id = i, P_names = [], P_gender = GenderUnset, P_birth = zero_TimeRange,
     P_death = zero_TimeRange, P_notes = '''', P_unknown = True\<rparr>"

definition person_count :: "readTx \<Rightarrow> nat" where
  "person_count r = length (fst (readTx_IteratePersons r))"

definition sample_programs :: "(unit, nat) Call list list" where
  "sample_programs =
     [[DoUpdate () [put_step (placeholder ''a'')]],
      [DoView, DoRead 0 person_count, DoCurrentVersion, DoView, DoRead 1 person_count]]"

definition sample_schedule :: "nat list" where
  "sample_schedule = replicate 4 1 @ replicate 8 0 @ [1] @ replicate 3 0 @ [1] @ replicate 3 0 @ replicate 8 1"

lemma sample_schedule_run:
  "map_option (\<lambda>(S, Ts). (sh_lock S, map th_done Ts)) (run_schedule sample_schedule (start_config 0 sample_programs)) =
    Some (None, [[ResUpdate (Inr (1, ()))],
      [ResView None, ResRead (Some 0), ResVersion (Inr 1), ResView None, ResRead (Some 1)]])"
  by code_simp

lemma sample_programs_ok: "\<forall>p \<in> set sample_programs. \<forall>c \<in> set p. Call_ok c"
  by (simp add: sample_programs_def put_step_keeps)

theorem threads_serializable_witness:
  "\<exists>M As. atomic\<^sup>*\<^sup>* (start_atomic 0 sample_programs) (M, As) \<and> map ca_done As =
    [[ResUpdate (Inr (1, ()))],
     [ResView None, ResRead (Some 0), ResVersion (Inr 1), ResView None, ResRead (Some 1)]]"
proof -
  obtain S Ts where run: "run_schedule sample_schedule (start_config 0 sample_programs) = Some (S, Ts)"
    and "map th_done Ts = [[ResUpdate (Inr (1, ()))],
      [ResView None, ResRead (Some 0), ResVersion (Inr 1), ResView None, ResRead (Some 1)]]"
    using sample_schedule_run by auto
  moreover have "map ca_done (map (caller_of S) Ts) = map th_done Ts" by (simp add: caller_of_def comp_def)
  ultimately show ?thesis
    using threads_serializable [OF sample_programs_ok run_schedule_interleaved [OF run]] by metis
qed

end
