(* ===== verification/GovernanceThreads.thy ===== *)
theory GovernanceThreads
  imports GovernanceRun MemoryThreads Callbacks
begin

text \<open>
  Package governance called from concurrent goroutines on one in-memory store
  (src/governance/apply.go over src/store/memory/memory.go): its callbacks reach the transaction
  through the interface only, so every execution is a sequence of whole calls, and every snapshot
  that a goroutine ever holds is a sound graph.
\<close>

section \<open>The callbacks keep the base of their transaction\<close>

definition at_base :: "state \<Rightarrow> writeTx \<Rightarrow> bool" where
  "at_base b w \<longleftrightarrow> rx_state (wx_readTx w) = b \<and> wx_base w = b"

lemma ops_base:
  "wt_PutPerson mem_WriteTx p w = Inr w' \<Longrightarrow> at_base b w \<Longrightarrow> at_base b w'"
  "wt_DeletePerson mem_WriteTx i w = Inr w' \<Longrightarrow> at_base b w \<Longrightarrow> at_base b w'"
  "wt_PutRelationship mem_WriteTx r w = Inr w' \<Longrightarrow> at_base b w \<Longrightarrow> at_base b w'"
  "wt_DeleteRelationship mem_WriteTx i w = Inr w' \<Longrightarrow> at_base b w \<Longrightarrow> at_base b w'"
  "wt_PutSource mem_WriteTx s w = Inr w' \<Longrightarrow> at_base b w \<Longrightarrow> at_base b w'"
  "wt_DeleteSource mem_WriteTx i w = Inr w' \<Longrightarrow> at_base b w \<Longrightarrow> at_base b w'"
  "wt_PutProposal mem_WriteTx q w = Inr w' \<Longrightarrow> at_base b w \<Longrightarrow> at_base b w'"
  by (auto simp: at_base_def writeTx_PutPerson_def writeTx_DeletePerson_def writeTx_PutRelationship_def
      writeTx_DeleteRelationship_def writeTx_PutSource_def writeTx_DeleteSource_def
      writeTx_PutProposal_def bindE_eq_Inr split: if_splits option.splits)

interpretation mem_base: tx_keeps mem_WriteTx "at_base b" for b
  by unfold_locales (fact ops_base)+

lemma tx_base:
  "accept_tx env mem_WriteTx i actor ts w = Some (Inr (w', q)) \<Longrightarrow> at_base b w \<Longrightarrow> at_base b w'"
  "transition_tx mem_WriteTx i to actor ts reason w = Some (Inr (w', q)) \<Longrightarrow> at_base b w \<Longrightarrow> at_base b w'"
  "propose_tx p w = Some (Inr (w', q)) \<Longrightarrow> at_base b w \<Longrightarrow> at_base b w'"
  by (fact mem_base.tx_keeps)+
    (auto simp del: mem_WriteTx_simps simp: propose_tx_def liftP_def bindP_eq_Inr dest: ops_base(7))


section \<open>Programs of governance\<close>

text \<open>The callback of a move keeps the proposal in a variable \<open>out\<close> of its caller.\<close>

definition callback :: "(writeTx \<Rightarrow> (error, writeTx \<times> Proposal) partial_res) \<Rightarrow> Proposal option TxStep" where
  "callback g = (\<lambda>(l, w). bindP (g w) (\<lambda>(w', q). Some (Inr (Some q, w'))))"

text \<open>
  What a goroutine may call: governance, drafts stored by the caller, and reads. Without \<open>merges\<close> no
  draft asks for a merge.
\<close>

inductive gov_tx :: "bool \<Rightarrow> (writeTx \<Rightarrow> (error, writeTx \<times> Proposal) partial_res) \<Rightarrow> bool" for merges where
  "NewProposal i a k opts = Inr p \<Longrightarrow> merges \<or> a \<noteq> ProposalActionMerge \<Longrightarrow> gov_tx merges (propose_tx p)"
| "to \<in> {ProposalSubmitted, ProposalUnderReview, ProposalWithdrawn, ProposalRejected} \<Longrightarrow>
    gov_tx merges (transition_tx mem_WriteTx i to actor ts reason)"
| "gov_tx merges (accept_tx env mem_WriteTx i actor ts)"

fun gov_call :: "bool \<Rightarrow> (Proposal option, 'o) Call \<Rightarrow> bool" where
  "gov_call merges (DoUpdate l fs) = (\<exists>g. gov_tx merges g \<and> fs = [callback g])"
| "gov_call merges _ = True"

lemma gov_call_ok: "gov_call merges c \<Longrightarrow> Call_ok c"
proof (cases c)
  case (DoUpdate l fs)
  assume "gov_call merges c"
  then obtain g where g: "gov_tx merges g" "fs = [callback g]" using DoUpdate by auto
  have "at_base b w'" if "g w = Some (Inr (w', q))" "at_base b w" for b w w' q
    using g(1) that by (cases rule: gov_tx.cases) (auto dest: tx_base)
  then show ?thesis
    by (auto simp: DoUpdate g(2) keeps_base_def callback_def reload_iff at_base_def bindP_eq_Inr)
qed simp_all

section \<open>Sound snapshots\<close>

definition sound_state :: "bool \<Rightarrow> state \<Rightarrow> bool" where
  "sound_state merges st \<longleftrightarrow> state_ok st \<and> graph_wf (state_graph st) \<and>
     (\<not> merges \<longrightarrow> acyclic (pc_rel (state_graph st)) \<and>
        (\<forall>p \<in> ran (g_props (state_graph st)). Q_action p \<noteq> ProposalActionMerge))"

definition sound_store :: "bool \<Rightarrow> MemStore \<Rightarrow> bool" where
  "sound_store merges M \<longleftrightarrow> sound_state merges (ms_current M) \<and>
     (\<forall>st \<in> snd ` set (ms_history M). sound_state merges st)"

lemma sound_empty: "sound_state m emptyState"
  using graph_wf_empty by (simp add: sound_state_def acyclic_def pc_rel_def) (simp add: empty_graph_def)

lemma accept_spec_action:
  assumes "accept_spec env i actor ts G = Some (q, G')"
  obtains p where "g_props G i = Some p" "Q_action q = Q_action p" "g_props G' = (g_props G)(i \<mapsto> q)"
  using assms
proof (rule accept_spec_Some)
  fix p G1
  assume "g_props G i = Some p" "q = accepted p actor ts" "apply_spec env q G = Some G1"
    "G' = G1\<lparr>g_props := (g_props G1)(i \<mapsto> q)\<rparr>"
  then show thesis using that [of p] by (simp add: accepted_def apply_spec_props)
qed

lemma move_spec_action:
  assumes "move_spec i to actor ts reason G = Some (q, G')"
  obtains p where "g_props G i = Some p" "Q_action q = Q_action p" "g_props G' = (g_props G)(i \<mapsto> q)"
  using assms by (auto simp: move_spec_Some Transition_Inr)

lemma actions_kept:
  assumes "\<forall>p \<in> ran P. Q_action p \<noteq> ProposalActionMerge" and "P i = Some p" and "Q_action q = Q_action p"
  shows "\<forall>p \<in> ran (P(i \<mapsto> q)). Q_action p \<noteq> ProposalActionMerge"
  using assms by (auto simp: ran_def)

lemma gov_tx_sound:
  assumes g: "gov_tx m g" and M: "sound_state m (ms_current M)" "\<not> ms_closed M"
    and run: "g (newWriteTx (ms_current M)) = Some (Inr (w, q))"
  shows "sound_state m (ms_current (commit_tx w M))"
proof -
  let ?M = "commit_tx w M"
  let ?P = "\<lambda>M. \<not> m \<longrightarrow> (\<forall>p \<in> ran (g_props (mem_graph M)). Q_action p \<noteq> ProposalActionMerge)"
  have gov: "governed m M" and act: "?P M"
    using M by (simp_all add: governed_def mem_live_def mem_graph_def sound_state_def)
  have upd: "Update g M = Some (Inr (st_version (ms_current M) + 1, q), ?M)"
    using M(2) run by (simp add: Update_Inr)
  have "governed m ?M \<and> ?P ?M"
    using g
  proof cases
    case (1 i a k opts p)
    have u: "Update (propose_tx p) M = Some (Inr (st_version (ms_current M) + 1, q), ?M)"
      using upd 1 by simp
    have "mem_live M" using gov by (simp add: governed_def)
    note E = propose_effect(3) [OF this 1(2) u]
    have "m \<or> Q_action p \<noteq> ProposalActionMerge" using 1(2,3) by (simp add: NewProposal_Inr)
    then show ?thesis
      using governed_propose [OF gov 1(2) u] act by (auto simp: E ran_def)
  next
    case (2 to i actor ts reason)
    then have "transitionInStore mem_store mem_WriteTx i to actor ts reason M = Some (Inr q, ?M)"
      using upd by (simp add: transitionInStore_def mem_store_def drop_version_def)
    note T = this governed_move [OF gov this]
    have "move_spec i to actor ts reason (mem_graph M) = Some (q, mem_graph ?M)"
      using mem_transition_refines [of M i to actor ts reason] gov T(1)
      by (auto simp: governed_def split: option.splits)
    then obtain p where "g_props (mem_graph M) i = Some p" "Q_action q = Q_action p"
      "g_props (mem_graph ?M) = (g_props (mem_graph M))(i \<mapsto> q)" by (rule move_spec_action)
    then show ?thesis using T(2) act actions_kept [of "g_props (mem_graph M)" i p q] by auto
  next
    case (3 env i actor ts)
    then have "Accept env mem_store mem_WriteTx i actor ts M = Some (Inr q, ?M)"
      using upd by (simp add: Accept_def mem_store_def drop_version_def)
    note A = this
    have "accept_spec env i actor ts (mem_graph M) = Some (q, mem_graph ?M)"
      using mem_Accept_Inr [OF _ _ A] gov by (simp add: governed_def)
    then obtain p where p: "g_props (mem_graph M) i = Some p" "Q_action q = Q_action p"
      "g_props (mem_graph ?M) = (g_props (mem_graph M))(i \<mapsto> q)" by (rule accept_spec_action)
    have "m \<or> Q_action q \<noteq> ProposalActionMerge" using act p(1,2) by (auto simp: ran_def)
    then show ?thesis
      using governed_accept [OF gov A] act p actions_kept [of "g_props (mem_graph M)" i p q] by auto
  qed
  then show ?thesis
    by (simp add: sound_state_def governed_def mem_live_def mem_graph_def)
qed

lemma commit_history:
  "snd ` set (ms_history (commit_tx w M)) \<subseteq> insert (ms_current (commit_tx w M)) (snd ` set (ms_history M))"
proof -
  let ?st = "ms_current (commit_tx w M)"
  have "set (ms_history (commit_tx w M)) \<subseteq> set (gm_put (st_version ?st) ?st (ms_history M))"
    by (auto simp: commit_tx_def Let_def pruneHistoryLocked_def)
  then have "snd ` set (ms_history (commit_tx w M)) \<subseteq> snd ` set (gm_put (st_version ?st) ?st (ms_history M))"
    by (rule image_mono)
  also have "\<dots> \<subseteq> insert ?st (snd ` set (ms_history M))"
    by (rule gm_put_range)
  finally show ?thesis .
qed

lemma view_sound:
  assumes "sound_store m M"
  shows "View M = Inr r \<Longrightarrow> sound_state m (rx_state r)"
    "ViewAt v M = Inr r \<Longrightarrow> sound_state m (rx_state r)"
  using assms gm_get_range [of "ms_history M" v]
  by (auto simp: sound_store_def View_def ViewAt_def split: if_splits option.splits)

lemma call_sound:
  assumes M: "sound_store m M" and c: "gov_call m c" and hs: "\<forall>r \<in> set hs. sound_state m (rx_state r)"
    and eff: "call_effect c hs M = Some (res, hs', M')"
  shows "sound_store m M' \<and> (\<forall>r \<in> set hs'. sound_state m (rx_state r))"
proof (cases c)
  case (DoUpdate l fs)
  then obtain g where g: "gov_tx m g" "fs = [callback g]" using c by auto
  from eff DoUpdate obtain r where r: "Update (run_body fs l) M = Some (r, M')" and hs': "hs' = hs" by auto
  have "sound_store m M'"
  proof (cases r)
    case (Inl e)
    with r Update_Inl M show ?thesis by metis
  next
    case (Inr x)
    then obtain v out where "Update (run_body fs l) M = Some (Inr (v, out), M')" using r by (cases x) auto
    then obtain w where closed: "\<not> ms_closed M" and M': "M' = commit_tx w M"
      and "run_body fs l (newWriteTx (ms_current M)) = Some (Inr (w, out))"
      by (auto simp: Update_Inr)
    then obtain q where "g (newWriteTx (ms_current M)) = Some (Inr (w, q))"
      by (auto simp: g(2) callback_def bindP_eq_Inr)
    from gov_tx_sound [OF g(1) _ closed this] M have cur: "sound_state m (ms_current M')"
      by (simp only: sound_store_def M')
    have "sound_state m st" if "st \<in> snd ` set (ms_history M')" for st
    proof -
      have "st = ms_current M' \<or> st \<in> snd ` set (ms_history M)"
        using subsetD [OF commit_history that [unfolded M']] by (simp only: insert_iff M')
      with cur M show ?thesis unfolding sound_store_def by metis
    qed
    with cur show ?thesis unfolding sound_store_def by metis
  qed
  with hs hs' show ?thesis by simp
next
  case DoView
  then show ?thesis using eff M hs view_sound(1) [OF M] by (cases "View M") auto
next
  case (DoViewAt v)
  then show ?thesis using eff M hs view_sound(2) [OF M, of v] by (cases "ViewAt v M") auto
next
  case DoClose
  then show ?thesis using eff M hs by (auto simp: CloseStore_def sound_store_def)
qed (use eff M hs in auto)

definition sound_caller :: "bool \<Rightarrow> (Proposal option, 'o) Caller \<Rightarrow> bool" where
  "sound_caller m A \<longleftrightarrow> (\<forall>r \<in> set (ca_handles A). sound_state m (rx_state r)) \<and>
     (\<forall>c \<in> set (ca_todo A). gov_call m c)"

lemma atomic_sound:
  assumes "atomic cfg cfg'" and cfg: "sound_store m (fst cfg)" "\<forall>A \<in> set (snd cfg). sound_caller m A"
  shows "sound_store m (fst cfg')" "\<forall>A \<in> set (snd cfg'). sound_caller m A"
proof -
  obtain i As c cs M r hs M' where eq: "cfg = (M, As)"
    "cfg' = (M', As[i := \<lparr>ca_todo = cs, ca_done = ca_done (As ! i) @ [r], ca_handles = hs\<rparr>])"
    and i: "i < length As" "ca_todo (As ! i) = c # cs"
    and eff: "call_effect c (ca_handles (As ! i)) M = Some (r, hs, M')"
    using assms(1) by (cases rule: atomic.cases) metis
  have A: "sound_caller m (As ! i)" using cfg(2) i(1) by (simp add: eq(1))
  with i(2) have "gov_call m c" "\<forall>r \<in> set (ca_handles (As ! i)). sound_state m (rx_state r)"
    by (simp_all add: sound_caller_def)
  with call_sound [OF _ _ _ eff] cfg(1) have C: "sound_store m M'" "\<forall>r \<in> set hs. sound_state m (rx_state r)"
    by (auto simp: eq(1))
  then show "sound_store m (fst cfg')" by (simp add: eq(2))
  have "sound_caller m \<lparr>ca_todo = cs, ca_done = ca_done (As ! i) @ [r], ca_handles = hs\<rparr>"
    using A C(2) i(2) by (simp add: sound_caller_def)
  then show "\<forall>A \<in> set (snd cfg'). sound_caller m A"
    using cfg(2) set_update_subset_insert [of As i] by (auto simp: eq dest!: subsetD)
qed

lemma atomic_run_sound:
  assumes "atomic\<^sup>*\<^sup>* (start_atomic n progs) cfg" and "\<forall>p \<in> set progs. \<forall>c \<in> set p. gov_call m c"
  shows "sound_store m (fst cfg)" "\<forall>A \<in> set (snd cfg). sound_caller m A"
proof -
  have start: "sound_store m (fst (start_atomic n progs))"
    "\<forall>A \<in> set (snd (start_atomic n progs)). sound_caller m A"
    using assms(2) sound_empty
    by (auto simp: start_atomic_def sound_caller_def sound_store_def NewStore_def gm_put_def Let_def)
  from assms(1) have "sound_store m (fst cfg) \<and> (\<forall>A \<in> set (snd cfg). sound_caller m A)"
    by (induction rule: rtranclp_induct) (use start atomic_sound in blast)+
  then show "sound_store m (fst cfg)" "\<forall>A \<in> set (snd cfg). sound_caller m A" by simp_all
qed


section \<open>Properties\<close>

text \<open>
  C12: readers of a store that governance changes concurrently see sound graphs only. Let goroutines
  store drafts, submit, claim, withdraw, reject and accept proposals, open snapshots of any version
  and look at them, and close the store, interleaved statement by statement. Then every snapshot
  that any of them holds at any moment is well formed (no dangling edge, every entity valid), and
  free of parent-child cycles if no draft asks for a merge; and so is the current snapshot of the
  store whenever the mutex is free.
\<close>

theorem threads_see_sound_graphs:
  assumes "\<forall>p \<in> set progs. \<forall>c \<in> set p. gov_call merges c"
    and "interleaved\<^sup>*\<^sup>* (start_config n progs) (S, Ts)"
    and "(\<exists>t \<in> set Ts. a \<in> set (th_handles t)) \<or> sh_lock S = None \<and> a = sh_current S"
  shows "graph_wf (state_graph (sh_heap S a)) \<and> (\<not> merges \<longrightarrow> acyclic (pc_rel (state_graph (sh_heap S a))))"
proof -
  have "\<forall>p \<in> set progs. \<forall>c \<in> set p. Call_ok c" using assms(1) gov_call_ok by blast
  from execution_sim [OF this assms(2)] obtain M where M: "sim S Ts M"
    "atomic\<^sup>*\<^sup>* (start_atomic n progs) (M, map (caller_of S) Ts)" by blast
  note sound = atomic_run_sound [OF M(2) assms(1)]
  from assms(3) have "sound_state merges (sh_heap S a)"
  proof
    assume "\<exists>t \<in> set Ts. a \<in> set (th_handles t)"
    then show ?thesis
      using sound by (auto simp: sound_caller_def caller_of_def read_at_def)
  next
    assume "sh_lock S = None \<and> a = sh_current S"
    then show ?thesis
      using sound M(1) by (auto simp: sound_store_def sim_def)
  qed
  then show ?thesis by (simp add: sound_state_def)
qed

text \<open>
  A goroutine stores a draft and submits it; another opens a snapshot, looks at it while the
  submission is being committed, and opens a new one afterwards.
\<close>

definition note_draft :: Proposal where
  "note_draft = \<lparr>Q_id = ''q'', Q_state = ProposalDraft, Q_action = ProposalActionCreate,
     Q_entityKind = EntityKindPerson, Q_targetID = '''', Q_secondaryID = '''', Q_payload = ''p'',
     Q_reason = '''', Q_sources = [], Q_author = ''u'', Q_createdAt = 1, Q_history = []\<rparr>"

lemma note_draft_new: "NewProposal ''q'' ProposalActionCreate EntityKindPerson
   \<lparr>QO_TargetID = '''', QO_SecondaryID = '''', QO_Payload = ''p'', QO_Reason = '''', QO_Sources = [],
    QO_Author = ''u'', QO_CreatedAt = 1\<rparr> = Inr note_draft"
  by code_simp

definition submitted :: "readTx \<Rightarrow> bool list" where
  "submitted r = map (\<lambda>p. Q_state p = ProposalSubmitted) (fst (readTx_IterateProposals r))"

definition governed_programs :: "(Proposal option, bool list) Call list list" where
  "governed_programs =
     [[DoUpdate None [callback (propose_tx note_draft)],
       DoUpdate None [callback (transition_tx mem_WriteTx ''q'' ProposalSubmitted ''u'' 2 '''')]],
      [DoView, DoRead 0 submitted, DoView, DoRead 1 submitted]]"

definition governed_schedule :: "nat list" where
  "governed_schedule = replicate 14 0 @ replicate 4 1 @ replicate 8 0 @ [1] @ replicate 6 0 @ replicate 5 1"

lemma governed_schedule_run:
  "map_option (\<lambda>(S, Ts). (th_done (Ts ! 1), th_handles (Ts ! 1), length Ts))
     (run_schedule governed_schedule (start_config 0 governed_programs)) =
   Some ([ResView None, ResRead (Some [False]), ResView None, ResRead (Some [True])], [1, 2], 2)"
  by code_simp

lemma governed_schedule_end:
  "map_option (\<lambda>(S, Ts). (Option.is_none (advance 0 S (Ts ! 0)), Option.is_none (advance 1 S (Ts ! 1)), length Ts))
     (run_schedule governed_schedule (start_config 0 governed_programs)) = Some (True, True, 2)"
  by code_simp

lemma governed_programs_ok: "\<forall>p \<in> set governed_programs. \<forall>c \<in> set p. gov_call False c"
proof -
  have "gov_tx False (propose_tx note_draft)"
    using note_draft_new by (rule gov_tx.intros(1)) (simp add: go_consts)
  moreover have "gov_tx False (transition_tx mem_WriteTx ''q'' ProposalSubmitted ''u'' 2 '''')"
    by (rule gov_tx.intros(2)) simp
  ultimately show ?thesis by (auto simp: governed_programs_def)
qed

theorem threads_see_sound_graphs_witness:
  "\<exists>S Ts. interleaved\<^sup>*\<^sup>* (start_config 0 governed_programs) (S, Ts) \<and>
     th_done (Ts ! 1) = [ResView None, ResRead (Some [False]), ResView None, ResRead (Some [True])] \<and>
     (\<forall>a \<in> set (th_handles (Ts ! 1)). graph_wf (state_graph (sh_heap S a)) \<and>
        acyclic (pc_rel (state_graph (sh_heap S a))))"
proof -
  obtain S Ts where run: "run_schedule governed_schedule (start_config 0 governed_programs) = Some (S, Ts)"
    and t: "th_done (Ts ! 1) = [ResView None, ResRead (Some [False]), ResView None, ResRead (Some [True])]"
    and len: "length Ts = 2"
    using governed_schedule_run by auto
  have "Ts ! 1 \<in> set Ts" using len by simp
  with t run_schedule_interleaved [OF run] threads_see_sound_graphs [OF governed_programs_ok run_schedule_interleaved [OF run]]
  show ?thesis by blast
qed

lemma gov_tx_returns:
  fixes M :: MemStore
  assumes g: "gov_tx m g" and M: "sound_state m (ms_current M)" "\<not> ms_closed M"
  shows "g (newWriteTx (ms_current M)) \<noteq> None"
proof
  assume none: "g (newWriteTx (ms_current M)) = None"
  then have upd: "Update g M = None" using M(2) by (simp add: Update_def)
  have gov: "mem_live M" "graph_wf (mem_graph M)"
    using M by (simp_all add: mem_live_def mem_graph_def sound_state_def)
  from g show False
  proof cases
    case (1 i a k opts p)
    then show ?thesis using none by (auto simp: propose_tx_def liftP_def bindP_eq_None)
  next
    case (2 to i actor ts reason)
    then have "transitionInStore mem_store mem_WriteTx i to actor ts reason M = None"
      using upd by (simp add: transitionInStore_def mem_store_def drop_version_def)
    with mem_transition_refines [OF gov, of i to actor ts reason] show ?thesis
      by (auto split: option.splits)
  next
    case (3 env i actor ts)
    then have "Accept env mem_store mem_WriteTx i actor ts M = None"
      using upd by (simp add: Accept_def mem_store_def drop_version_def)
    with mem_Accept_refines [OF gov, of env i actor ts] show ?thesis
      by (auto split: option.splits)
  qed
qed

text \<open>
  C13: concurrent governance neither blocks nor hangs. Goroutines that call governance and read, with
  the cycle checks and merges this takes, cannot go on for ever, and an execution that cannot go
  on has finished every program: no goroutine is left waiting for the mutex or inside a callback.
\<close>

theorem governance_threads_finish:
  assumes "\<forall>p \<in> set progs. \<forall>c \<in> set p. gov_call merges c"
    and "interleaved\<^sup>*\<^sup>* (start_config n progs) (S, Ts)"
  shows "(\<nexists>run. run 0 = (S, Ts) \<and> (\<forall>k. interleaved (run k) (run (Suc k)))) \<and>
    ((\<nexists>cfg. interleaved (S, Ts) cfg) \<longrightarrow> (\<forall>t \<in> set Ts. finished t))"
proof (intro conjI impI)
  show "\<nexists>run. run 0 = (S, Ts) \<and> (\<forall>k. interleaved (run k) (run (Suc k)))"
    using no_endless_execution by blast
next
  have ok: "\<forall>p \<in> set progs. \<forall>c \<in> set p. Call_ok c" using assms(1) gov_call_ok by blast
  from execution_sim [OF this assms(2)] obtain M where sim: "sim S Ts M"
    and run: "atomic\<^sup>*\<^sup>* (start_atomic n progs) (M, map (caller_of S) Ts)" by blast
  note sound = atomic_run_sound [OF run assms(1)]
  have "\<not> diverges S (Ts ! i)" if i: "i < length Ts" for i
  proof
    assume "diverges S (Ts ! i)"
    from diverges_run [OF sim i this] obtain l fs where c: "DoUpdate l fs \<in> set (th_todo (Ts ! i))"
      and M: "\<not> ms_closed M" "run_body fs l (newWriteTx (ms_current M)) = None" by blast
    have "sound_caller merges (caller_of S (Ts ! i))" using sound(2) i by simp
    then have "\<forall>c \<in> set (th_todo (Ts ! i)). gov_call merges c" by (simp add: sound_caller_def caller_of_def)
    from bspec [OF this c] obtain g where g: "gov_tx merges g" "fs = [callback g]" by auto
    with M(2) have "g (newWriteTx (ms_current M)) = None"
      by (auto simp: callback_def bindP_eq_None)
    with gov_tx_returns [OF g(1) _ M(1)] sound(1) show False by (simp add: sound_store_def)
  qed
  moreover assume "\<nexists>cfg. interleaved (S, Ts) cfg"
  ultimately show "\<forall>t \<in> set Ts. finished t"
    using execution_stuck [OF ok assms(2)] unfolding set_conv_nth by blast
qed

theorem governance_threads_finish_witness:
  "\<exists>S Ts. interleaved\<^sup>*\<^sup>* (start_config 0 governed_programs) (S, Ts) \<and> (\<forall>t \<in> set Ts. finished t)"
proof -
  obtain S Ts where run: "run_schedule governed_schedule (start_config 0 governed_programs) = Some (S, Ts)"
    and stuck: "Option.is_none (advance 0 S (Ts ! 0))" "Option.is_none (advance 1 S (Ts ! 1))"
    and len: "length Ts = 2"
    using governed_schedule_end by auto
  have "advance i S (Ts ! i) = None" if "i < length Ts" for i
    using that stuck by (auto simp: len less_2_cases_iff Option.is_none_def)
  then have "\<nexists>cfg. interleaved (S, Ts) cfg" by (auto elim: interleavedE)
  with governance_threads_finish [OF governed_programs_ok run_schedule_interleaved [OF run]]
    run_schedule_interleaved [OF run] show ?thesis by blast
qed

end
