(* ===== verification/Ancestors.thy ===== *)
theory Ancestors
  imports Engine
begin

text \<open>
  The nearest known common ancestor (\<open>NearestKnownCommonAncestor\<close> and \<open>ancestorPaths\<close> of
  src/query/engine.go). The stack loop of \<open>ancestorPaths\<close> terminates by the multiset of the depths
  that its frames have left; \<open>ancestor_loop_visits\<close> shows that it visits exactly the upward walks
  of bounded length, and \<open>record_best\<close> that the entry of an ancestor is a best one among them.

  Go ranges over a map in an unspecified order, so the order in which the candidates are met is an
  argument (\<open>ord\<close>), any permutation of the entries.
\<close>

section \<open>The code\<close>

record ancestorEntry =
  AE_path :: Path
  AE_dist :: int
  AE_cert :: Certainty

record frame =
  Fr_id :: ID
  Fr_steps :: "Step list"
  Fr_dist :: int
  Fr_cert :: Certainty

definition edge_weight :: "Relationship \<Rightarrow> int" where
  "edge_weight rel =
     (if Continuity_IsGapped (R_continuity rel)
      then (if KnownSize (Cont_Gap (R_continuity rel))
            then wrap64 (1 + Gap_Size (Cont_Gap (R_continuity rel))) else GapWeight rel)
      else 1)"

text \<open>The callback over the parents: the frame that \<open>rel\<close> leads to goes on top of the stack.\<close>

definition next_frame :: "frame \<Rightarrow> Relationship \<Rightarrow> frame" where
  "next_frame f rel =
     \<lparr>Fr_id = R_from rel,
      Fr_steps = Fr_steps f @ [\<lparr>St_Relationship = rel, St_Direction = EdgeReverse,
        St_FromPerson = Fr_id f, St_ToPerson = R_from rel\<rparr>],
      Fr_dist = wrap64 (Fr_dist f + edge_weight rel),
      Fr_cert = Certainty_Min (Fr_cert f) (R_certainty rel)\<rparr>"

definition push_parent :: "frame \<Rightarrow> Relationship \<Rightarrow> frame list \<Rightarrow> frame list \<times> bool" where
  "push_parent f rel stack = (stack @ [next_frame f rel], True)"

definition frame_entry :: "ReadTx \<Rightarrow> frame \<Rightarrow> ancestorEntry" where
  "frame_entry rtx f = \<lparr>AE_path = makePath rtx (Fr_steps f), AE_dist = Fr_dist f,
     AE_cert = Fr_cert f\<rparr>"

definition record_frame ::
    "ReadTx \<Rightarrow> ID \<Rightarrow> frame \<Rightarrow> (ID, ancestorEntry) gomap \<Rightarrow> (ID, ancestorEntry) gomap" where
  "record_frame rtx from f out =
     (if Fr_id f \<noteq> from then
        (case gm_get out (Fr_id f) of
           None \<Rightarrow> gm_put (Fr_id f) (frame_entry rtx f) out
         | Some cur \<Rightarrow>
             if Fr_dist f < AE_dist cur \<or>
                Fr_dist f = AE_dist cur \<and> Certainty_Rank (Fr_cert f) > Certainty_Rank (AE_cert cur)
             then gm_put (Fr_id f) (frame_entry rtx f) out else out)
      else out)"

lemma push_parents: "run_iter it (push_parent f) st = (st @ map (next_frame f) (fst it), snd it)"
proof -
  have "push_parent f = (\<lambda>rel st. (st @ [next_frame f rel], True))"
    by (simp add: push_parent_def fun_eq_iff)
  moreover have "fold (\<lambda>rel st. st @ [next_frame f rel]) rels st = st @ map (next_frame f) rels" for rels
    by (induction rels arbitrary: st) auto
  ultimately show ?thesis by (simp add: run_iter_all)
qed

text \<open>The depth that a frame has left.\<close>

definition frame_left :: "int \<Rightarrow> frame \<Rightarrow> nat" where
  "frame_left maxd f = nat (maxd + 1 - int (length (Fr_steps f)))"

lemma next_frame_simps [simp]:
  "Fr_id (next_frame f rel) = R_from rel" "length (Fr_steps (next_frame f rel)) = Suc (length (Fr_steps f))"
  by (simp_all add: next_frame_def)

lemma frame_left_next:
  "\<not> int (length (Fr_steps f)) > maxd \<Longrightarrow> frame_left maxd (next_frame f rel) < frame_left maxd f"
  by (simp add: frame_left_def)

lemma mset_butlast_last:
  "xs \<noteq> [] \<Longrightarrow> mset (map h xs) = mset (map h (butlast xs)) + {#h (last xs)#}"
  by (cases xs rule: rev_cases) auto

text \<open>The top of the stack is its last element.\<close>

function ancestor_loop ::
    "ReadTx \<Rightarrow> ID \<Rightarrow> int \<Rightarrow> frame list \<Rightarrow> (ID, ancestorEntry) gomap \<Rightarrow> (ID, ancestorEntry) gomap" where
  "ancestor_loop rtx from maxd stack out =
     (if stack = [] then out
      else
        let f = last stack; stack1 = butlast stack in
        if int (length (Fr_steps f)) > maxd then ancestor_loop rtx from maxd stack1 out
        else ancestor_loop rtx from maxd
               (fst (run_iter (rt_IterateParents rtx (Fr_id f)) (push_parent f) stack1))
               (record_frame rtx from f out))"
  by pat_completeness auto

termination
proof (relation "inv_image (mult less_than)
    (\<lambda>(rtx, from, maxd, stack, out). mset (map (frame_left maxd) stack))", goal_cases)
  case (2 rtx frm maxd stack out f stack1)
  then have "mset (map (frame_left maxd) stack) =
      mset (map (frame_left maxd) stack1) + {#frame_left maxd f#}"
    using mset_butlast_last [of stack "frame_left maxd"] by simp
  then show ?case
    using one_step_implies_mult [of "{#frame_left maxd f#}" "{#}" less_than] by simp
next
  case (3 rtx frm maxd stack out f stack1)
  then have "mset (map (frame_left maxd) stack) =
      mset (map (frame_left maxd) stack1) + {#frame_left maxd f#}"
    using mset_butlast_last [of stack "frame_left maxd"] by simp
  moreover have "(mset (map (frame_left maxd) stack1) +
      mset (map (frame_left maxd \<circ> next_frame f) (fst (rt_IterateParents rtx (Fr_id f)))),
      mset (map (frame_left maxd) stack1) + {#frame_left maxd f#}) \<in> mult less_than"
    using 3(4) by (intro one_step_implies_mult) (auto simp: frame_left_next)
  ultimately show ?case by (simp add: push_parents multiset.map_comp)
qed (simp add: wf_mult)

declare ancestor_loop.simps [simp del]

definition ancestorPaths ::
    "ReadTx \<Rightarrow> ID \<Rightarrow> Options \<Rightarrow> error + (ID, ancestorEntry) gomap" where
  "ancestorPaths rtx from opts =
     bindE (rt_GetPerson rtx from)
       (\<lambda>_. Inr (ancestor_loop rtx from (maxDepth opts)
          [\<lparr>Fr_id = from, Fr_steps = [], Fr_dist = 0, Fr_cert = CertaintyCertain\<rparr>] []))"

record CommonAncestor =
  CA_AncestorID :: ID
  CA_Unknown :: bool
  CA_PathFromA :: Path
  CA_PathFromB :: Path
  CA_CombinedCertainty :: Certainty
  CA_TotalGenerations :: int
  CA_GraphVersion :: Version

definition CA_better :: "CommonAncestor \<Rightarrow> CommonAncestor \<Rightarrow> bool" where
  "CA_better c best \<longleftrightarrow>
     CA_TotalGenerations c < CA_TotalGenerations best \<or>
     (CA_TotalGenerations c = CA_TotalGenerations best \<and>
        Certainty_Rank (CA_CombinedCertainty c) > Certainty_Rank (CA_CombinedCertainty best)) \<or>
     (CA_TotalGenerations c = CA_TotalGenerations best \<and>
        CA_CombinedCertainty c = CA_CombinedCertainty best \<and>
        CA_AncestorID c < CA_AncestorID best)"

definition CA_candidate ::
    "ReadTx \<Rightarrow> ID \<Rightarrow> Person \<Rightarrow> ancestorEntry \<Rightarrow> ancestorEntry \<Rightarrow> CommonAncestor" where
  "CA_candidate rtx i anc ea eb =
     \<lparr>CA_AncestorID = i, CA_Unknown = P_unknown anc, CA_PathFromA = AE_path ea,
      CA_PathFromB = AE_path eb, CA_CombinedCertainty = Certainty_Min (AE_cert ea) (AE_cert eb),
      CA_TotalGenerations = wrap64 (AE_dist ea + AE_dist eb), CA_GraphVersion = rt_Version rtx\<rparr>"

text \<open>The loop over \<open>ancestorsA\<close>, in the order of the list.\<close>

fun nkca_loop ::
    "ReadTx \<Rightarrow> (ID, ancestorEntry) gomap \<Rightarrow> (ID \<times> ancestorEntry) list \<Rightarrow> CommonAncestor option \<Rightarrow>
     error + CommonAncestor option" where
  "nkca_loop rtx ancB [] best = Inr best"
| "nkca_loop rtx ancB ((i, ea) # rest) best =
     (case gm_get ancB i of
        None \<Rightarrow> nkca_loop rtx ancB rest best
      | Some eb \<Rightarrow>
          (case rt_GetPerson rtx i of
             Inl e \<Rightarrow> Inl e
           | Inr anc \<Rightarrow>
               let candidate = CA_candidate rtx i anc ea eb in
               nkca_loop rtx ancB rest
                 (case best of
                    None \<Rightarrow> Some candidate
                  | Some b \<Rightarrow> if CA_better candidate b then Some candidate else best)))"

text \<open>A person as an ancestor of itself: the zero path but for the version.\<close>

definition self_entry :: "ReadTx \<Rightarrow> ancestorEntry" where
  "self_entry rtx = \<lparr>AE_path = \<lparr>Pa_Steps = [], Pa_Certainty = 0, Pa_TotalGap = 0, Pa_GapEdges = 0,
     Pa_Length = 0, Pa_Classification = 0, Pa_GraphVersion = rt_Version rtx\<rparr>,
     AE_dist = 0, AE_cert = CertaintyCertain\<rparr>"

definition NearestKnownCommonAncestor ::
    "((ID \<times> ancestorEntry) list \<Rightarrow> (ID \<times> ancestorEntry) list) \<Rightarrow> ReadTx \<Rightarrow> ID \<Rightarrow> ID \<Rightarrow> Options \<Rightarrow>
     error + CommonAncestor" where
  "NearestKnownCommonAncestor ord rtx a b opts =
     (if a = b then Inl (New CodeInvalidArgument ''a and b must differ'')
      else bindE (ancestorPaths rtx a opts)
        (\<lambda>ancestorsA. bindE (ancestorPaths rtx b opts)
        (\<lambda>ancestorsB.
           let ancA = gm_put a (self_entry rtx) ancestorsA;
               ancB = gm_put b (self_entry rtx) ancestorsB
           in bindE (nkca_loop rtx ancB (ord ancA) None)
                (\<lambda>best. case best of None \<Rightarrow> Inl ErrNoKnownConnection | Some c \<Rightarrow> Inr c))))"


section \<open>The frames that the loop visits\<close>

primrec visits :: "nat \<Rightarrow> ReadTx \<Rightarrow> frame \<Rightarrow> frame list" where
  "visits 0 rtx f = []"
| "visits (Suc d) rtx f =
     f # concat (map (visits d rtx)
            (rev (map (next_frame f) (fst (rt_IterateParents rtx (Fr_id f))))))"

lemma ancestor_loop_visits:
  "ancestor_loop rtx frm maxd stack out =
     fold (record_frame rtx frm)
       (concat (map (\<lambda>f. visits (frame_left maxd f) rtx f) (rev stack))) out"
proof (induction rtx frm maxd stack out rule: ancestor_loop.induct)
  case (1 rtx frm maxd stack out)
  show ?case
  proof (cases "stack = []")
    case True
    then show ?thesis by (simp add: ancestor_loop.simps)
  next
    case False
    let ?f = "last stack" and ?rest = "butlast stack"
    let ?v = "\<lambda>f. visits (frame_left maxd f) rtx f"
    have rev: "rev stack = ?f # rev ?rest"
      using False by (metis append_butlast_last_id rev_append rev_singleton_conv append_Cons append_Nil)
    show ?thesis
    proof (cases "int (length (Fr_steps ?f)) > maxd")
      case True
      then have "?v ?f = []" by (simp add: frame_left_def)
      with 1(1) [OF False refl refl True] False True show ?thesis
        by (simp add: ancestor_loop.simps [of _ _ _ stack] rev)
    next
      case inner: False
      let ?ns = "map (next_frame ?f) (fst (rt_IterateParents rtx (Fr_id ?f)))"
      have left: "frame_left maxd ?f = Suc (frame_left maxd n)" if "n \<in> set ?ns" for n
        using that inner by (auto simp: frame_left_def)
      have v: "?v ?f = ?f # concat (map ?v (rev ?ns))"
      proof (cases "?ns = []")
        case True
        have "frame_left maxd ?f \<noteq> 0" using inner by (simp add: frame_left_def)
        then obtain d where "frame_left maxd ?f = Suc d" using not0_implies_Suc by blast
        with True show ?thesis by simp
      next
        case False
        then obtain n where "n \<in> set ?ns" by (cases ?ns) auto
        with left have d: "frame_left maxd ?f = Suc (frame_left maxd n)" by blast
        have same: "visits (frame_left maxd n) rtx m = ?v m" if "m \<in> set (rev ?ns)" for m
        proof -
          from that have "m \<in> set ?ns" by simp
          from left [OF this] d have "frame_left maxd n = frame_left maxd m" by simp
          then show ?thesis by simp
        qed
        have "map (visits (frame_left maxd n) rtx) (rev ?ns) = map ?v (rev ?ns)"
          by (rule map_cong [OF refl same])
        then show ?thesis unfolding d visits.simps by (rule arg_cong)
      qed
      show ?thesis
        using 1(2) [OF False refl refl inner] False inner
        by (simp add: ancestor_loop.simps [of _ _ _ stack] push_parents rev v Let_def)
    qed
  qed
qed

text \<open>The upward walks of a graph, and the frame at the end of a walk.\<close>

definition up_step :: "Graph \<Rightarrow> Step \<Rightarrow> bool" where
  "up_step G s \<longleftrightarrow> St_Relationship s \<in> ran (g_rels G) \<and> is_pc (St_Relationship s) \<and>
     St_Direction s = EdgeReverse \<and> St_FromPerson s = R_to (St_Relationship s) \<and>
     St_ToPerson s = R_from (St_Relationship s)"

definition up_walk :: "Graph \<Rightarrow> ID \<Rightarrow> Step list \<Rightarrow> ID \<Rightarrow> bool" where
  "up_walk G a ss b \<longleftrightarrow> list_all (up_step G) ss \<and> chained a ss b"

definition walk_dist :: "Step list \<Rightarrow> int" where
  "walk_dist ss = fold (\<lambda>s d. wrap64 (d + edge_weight (St_Relationship s))) ss 0"

definition walk_cert :: "Step list \<Rightarrow> Certainty" where
  "walk_cert ss = fold (\<lambda>s c. Certainty_Min c (R_certainty (St_Relationship s))) ss CertaintyCertain"

definition walk_frame :: "Step list \<Rightarrow> ID \<Rightarrow> frame" where
  "walk_frame ss b = \<lparr>Fr_id = b, Fr_steps = ss, Fr_dist = walk_dist ss, Fr_cert = walk_cert ss\<rparr>"

lemma next_walk_frame:
  "next_frame (walk_frame ss b) rel =
     walk_frame (ss @ [\<lparr>St_Relationship = rel, St_Direction = EdgeReverse, St_FromPerson = b,
       St_ToPerson = R_from rel\<rparr>]) (R_from rel)"
  by (simp add: next_frame_def walk_frame_def walk_dist_def walk_cert_def)

context graph_reader
begin

lemma visits_walks:
  assumes "ok r"
  shows "set (visits d (rd r) (walk_frame ss b)) =
    {walk_frame (ss @ us) c | us c. up_walk (gr r) b us c \<and> length us < d}"
proof (induction d arbitrary: ss b)
  case (Suc d)
  let ?s = "\<lambda>e. \<lparr>St_Relationship = e, St_Direction = EdgeReverse, St_FromPerson = b,
    St_ToPerson = R_from e\<rparr>"
  have par: "set (fst (rt_IterateParents (rd r) b)) = parents_of (gr r) b"
    using IterateParents [OF assms, of b] by (simp add: enumerates_def)
  have up: "up_step (gr r) s \<and> St_FromPerson s = b \<longleftrightarrow> (\<exists>e \<in> parents_of (gr r) b. s = ?s e)" for s
    by (cases s) (auto simp: up_step_def parents_of_def)
  have "set (visits (Suc d) (rd r) (walk_frame ss b)) = insert (walk_frame ss b)
      (\<Union>e \<in> parents_of (gr r) b. {walk_frame ((ss @ [?s e]) @ us) c | us c.
         up_walk (gr r) (R_from e) us c \<and> length us < d})"
    by (simp add: next_walk_frame Suc par) (simp add: walk_frame_def par)
  also have "\<dots> = {walk_frame (ss @ us) c | us c. up_walk (gr r) b us c \<and> length us < Suc d}"
    (is "insert ?f ?A = ?B")
  proof (intro set_eqI iffI)
    fix f assume "f \<in> insert ?f ?A"
    then show "f \<in> ?B"
    proof
      assume "f = ?f"
      then show "f \<in> ?B" by (auto simp: up_walk_def intro: exI [of _ "[]"])
    next
      assume "f \<in> ?A"
      then obtain e us c where e: "e \<in> parents_of (gr r) b" and f: "f = walk_frame (ss @ ?s e # us) c"
        and w: "up_walk (gr r) (R_from e) us c" "length us < d" by auto
      have "up_walk (gr r) b (?s e # us) c" using up [of "?s e"] e w by (auto simp: up_walk_def)
      with f w(2) show "f \<in> ?B" by (auto intro!: exI [of _ "?s e # us"])
    qed
  next
    fix f assume "f \<in> ?B"
    then obtain us c where f: "f = walk_frame (ss @ us) c" and w: "up_walk (gr r) b us c"
      "length us < Suc d" by auto
    show "f \<in> insert ?f ?A"
    proof (cases us)
      case Nil
      with f w show ?thesis by (auto simp: up_walk_def)
    next
      case (Cons s us')
      with w have "up_step (gr r) s \<and> St_FromPerson s = b"
        and w': "up_walk (gr r) (St_ToPerson s) us' c" "length us' < d"
        by (auto simp: up_walk_def)
      with up obtain e where e: "e \<in> parents_of (gr r) b" "s = ?s e" by blast
      with f w' Cons show ?thesis by (auto intro!: bexI [of _ e])
    qed
  qed
  finally show ?case .
qed simp

end


section \<open>The entry of an ancestor is a best one\<close>

text \<open>Fewer generations first, then the higher certainty.\<close>

definition frame_key :: "frame \<Rightarrow> int \<times> int" where
  "frame_key f = (Fr_dist f, - Certainty_Rank (Fr_cert f))"

definition entry_key :: "ancestorEntry \<Rightarrow> int \<times> int" where
  "entry_key e = (AE_dist e, - Certainty_Rank (AE_cert e))"

lemma frame_entry_key [simp]: "entry_key (frame_entry rtx f) = frame_key f"
  by (simp add: frame_entry_def entry_key_def frame_key_def)

lemma record_frame_get:
  "gm_get (record_frame rtx frm f out) i =
     (if i = Fr_id f \<and> i \<noteq> frm \<and>
         (case gm_get out i of None \<Rightarrow> True | Some cur \<Rightarrow> frame_key f < entry_key cur)
      then Some (frame_entry rtx f) else gm_get out i)"
  by (auto simp: record_frame_def frame_key_def entry_key_def less_prod_simp split: option.split)

lemma record_frame_ok: "gm_ok out \<Longrightarrow> gm_ok (record_frame rtx frm f out)"
  by (simp add: record_frame_def split: option.split)

lemma record_fold_ok: "gm_ok out \<Longrightarrow> gm_ok (fold (record_frame rtx frm) fs out)"
  by (induction fs arbitrary: out) (simp_all add: record_frame_ok)

text \<open>What the frames leave at an id, with what was there before as one more candidate.\<close>

definition best_entry :: "ReadTx \<Rightarrow> frame set \<Rightarrow> ancestorEntry option \<Rightarrow> ancestorEntry option \<Rightarrow> bool" where
  "best_entry rtx F old new \<longleftrightarrow>
     (case new of
        None \<Rightarrow> old = None \<and> F = {}
      | Some e \<Rightarrow> (old = Some e \<or> e \<in> frame_entry rtx ` F) \<and>
          (\<forall>f \<in> F. entry_key e \<le> frame_key f) \<and> (\<forall>o' \<in> set_option old. entry_key e \<le> entry_key o'))"

lemma record_best:
  "i \<noteq> frm \<Longrightarrow> best_entry rtx {f \<in> set fs. Fr_id f = i} (gm_get out i)
     (gm_get (fold (record_frame rtx frm) fs out) i)"
proof (induction fs arbitrary: out)
  case Nil
  then show ?case by (simp add: best_entry_def split: option.split)
next
  case (Cons f fs)
  let ?out = "record_frame rtx frm f out"
  have IH: "best_entry rtx {f \<in> set fs. Fr_id f = i} (gm_get ?out i)
     (gm_get (fold (record_frame rtx frm) fs ?out) i)" by (rule Cons.IH [OF Cons.prems])
  have step: "(Fr_id f = i \<and> gm_get ?out i = Some (frame_entry rtx f) \<and>
        (\<forall>o' \<in> set_option (gm_get out i). frame_key f \<le> entry_key o')) \<or>
      (gm_get ?out i = gm_get out i \<and>
        (Fr_id f = i \<longrightarrow> (\<exists>cur. gm_get out i = Some cur \<and> entry_key cur \<le> frame_key f)))"
    using Cons.prems by (auto simp: record_frame_get not_less split: option.splits)
  show ?case
  proof (cases "gm_get (fold (record_frame rtx frm) fs ?out) i")
    case None
    with IH step show ?thesis by (auto simp: best_entry_def)
  next
    case (Some e)
    with IH have e: "gm_get ?out i = Some e \<or> e \<in> frame_entry rtx ` {f \<in> set fs. Fr_id f = i}"
      "\<forall>f \<in> set fs. Fr_id f = i \<longrightarrow> entry_key e \<le> frame_key f"
      "\<forall>o'. gm_get ?out i = Some o' \<longrightarrow> entry_key e \<le> entry_key o'"
      by (auto simp: best_entry_def)
    from step show ?thesis
    proof
      assume a: "Fr_id f = i \<and> gm_get ?out i = Some (frame_entry rtx f) \<and>
        (\<forall>o' \<in> set_option (gm_get out i). frame_key f \<le> entry_key o')"
      then have "entry_key e \<le> frame_key f" using e(3) by auto
      with a e Some show ?thesis by (auto simp: best_entry_def)
    next
      assume a: "gm_get ?out i = gm_get out i \<and>
        (Fr_id f = i \<longrightarrow> (\<exists>cur. gm_get out i = Some cur \<and> entry_key cur \<le> frame_key f))"
      then have "entry_key e \<le> frame_key f" if "Fr_id f = i" using e(3) that by fastforce
      with a e Some show ?thesis by (auto simp: best_entry_def)
    qed
  qed
qed


section \<open>The best walks\<close>

definition walk_key :: "Step list \<Rightarrow> int \<times> int" where
  "walk_key ss = (walk_dist ss, - Certainty_Rank (walk_cert ss))"

definition up_within :: "Graph \<Rightarrow> nat \<Rightarrow> ID \<Rightarrow> ID \<Rightarrow> Step list \<Rightarrow> bool" where
  "up_within G d a i ss \<longleftrightarrow> up_walk G a ss i \<and> length ss \<le> d"

text \<open>A person is its own ancestor by the empty walk; to any other ancestor a best walk leads.\<close>

definition best_walk :: "Graph \<Rightarrow> nat \<Rightarrow> ID \<Rightarrow> ID \<Rightarrow> Step list \<Rightarrow> bool" where
  "best_walk G d a i ss \<longleftrightarrow>
     (if i = a then ss = []
      else up_within G d a i ss \<and> (\<forall>ss'. up_within G d a i ss' \<longrightarrow> walk_key ss \<le> walk_key ss'))"

definition walk_entry :: "ReadTx \<Rightarrow> Step list \<Rightarrow> ancestorEntry" where
  "walk_entry rtx ss = (if ss = [] then self_entry rtx
     else \<lparr>AE_path = makePath rtx ss, AE_dist = walk_dist ss, AE_cert = walk_cert ss\<rparr>)"

lemma walk_entry_simps [simp]:
  "AE_dist (walk_entry rtx ss) = walk_dist ss" "AE_cert (walk_entry rtx ss) = walk_cert ss"
  by (simp_all add: walk_entry_def self_entry_def walk_dist_def walk_cert_def)

lemma walk_frame_entry: "ss \<noteq> [] \<Longrightarrow> frame_entry rtx (walk_frame ss b) = walk_entry rtx ss"
  by (simp add: frame_entry_def walk_frame_def walk_entry_def)

lemma walk_frame_key [simp]: "frame_key (walk_frame ss b) = walk_key ss"
  by (simp add: frame_key_def walk_frame_def walk_key_def)

lemma walk_frame_id [simp]: "Fr_id (walk_frame ss b) = b"
  by (simp add: walk_frame_def)

text \<open>The map of the ancestors of \<open>a\<close>, with \<open>a\<close> itself.\<close>

definition ancestor_map :: "ReadTx \<Rightarrow> Graph \<Rightarrow> nat \<Rightarrow> ID \<Rightarrow> (ID, ancestorEntry) gomap \<Rightarrow> bool" where
  "ancestor_map rtx G d a m \<longleftrightarrow> gm_ok m \<and>
     (\<forall>i. case gm_get m i of
        None \<Rightarrow> i \<noteq> a \<and> (\<nexists>ss. up_within G d a i ss)
      | Some e \<Rightarrow> \<exists>ss. best_walk G d a i ss \<and> e = walk_entry rtx ss)"

context graph_reader
begin

lemma ancestorPaths_correct:
  assumes r: "ok r" and a: "g_persons (gr r) a \<noteq> None"
  shows "\<exists>m. ancestorPaths (rd r) a opts = Inr m \<and>
    ancestor_map (rd r) (gr r) (nat (maxDepth opts)) a (gm_put a (self_entry (rd r)) m)"
proof -
  let ?D = "nat (maxDepth opts)" and ?f = "walk_frame [] a"
  let ?fs = "visits (Suc ?D) (rd r) ?f"
  let ?m = "fold (record_frame (rd r) a) ?fs []"
  obtain p where p: "rt_GetPerson (rd r) a = Inr p"
    using a GetPerson_Inr [OF r] by (metis not_None_eq)
  have "frame_left (maxDepth opts) ?f = Suc ?D"
    using maxDepth_pos [of opts] by (simp add: frame_left_def walk_frame_def nat_add_distrib)
  then have eq: "ancestorPaths (rd r) a opts = Inr ?m"
    by (simp add: ancestorPaths_def p ancestor_loop_visits del: visits.simps)
      (simp add: walk_frame_def walk_dist_def walk_cert_def)
  have F: "{f \<in> set ?fs. Fr_id f = i} = {walk_frame us i | us. up_within (gr r) ?D a i us}" for i
  proof -
    have "set ?fs = {walk_frame us c | us c. up_walk (gr r) a us c \<and> length us < Suc ?D}"
      using visits_walks [OF r, of "Suc ?D" "[]" a] by simp
    then show ?thesis by (auto simp: up_within_def less_Suc_eq_le simp del: visits.simps)
  qed
  have "case gm_get (gm_put a (self_entry (rd r)) ?m) i of
        None \<Rightarrow> i \<noteq> a \<and> (\<nexists>ss. up_within (gr r) ?D a i ss)
      | Some e \<Rightarrow> \<exists>ss. best_walk (gr r) ?D a i ss \<and> e = walk_entry (rd r) ss" for i
  proof (cases "i = a")
    case True
    then show ?thesis by (simp add: best_walk_def walk_entry_def)
  next
    case False
    then have ne: "us \<noteq> []" if "up_within (gr r) ?D a i us" for us
      using that by (auto simp: up_within_def up_walk_def)
    from record_best [OF False, of "rd r" ?fs "[]"]
    have best: "best_entry (rd r) {walk_frame us i | us. up_within (gr r) ?D a i us} None
        (gm_get ?m i)" by (simp only: F) simp
    show ?thesis
    proof (cases "gm_get ?m i")
      case None
      with best False show ?thesis by (auto simp: best_entry_def)
    next
      case (Some e)
      with best obtain us where us: "up_within (gr r) ?D a i us"
        "e = frame_entry (rd r) (walk_frame us i)" by (auto simp: best_entry_def)
      have "walk_key us \<le> walk_key us'" if "up_within (gr r) ?D a i us'" for us'
        using best Some us(2) that by (fastforce simp: best_entry_def)
      with us ne False Some show ?thesis
        by (auto simp: best_walk_def walk_frame_entry intro!: exI [of _ us])
    qed
  qed
  moreover have "gm_ok (gm_put a (self_entry (rd r)) ?m)"
    by (intro gm_ok_put record_fold_ok) (simp add: gm_ok_def)
  ultimately have "ancestor_map (rd r) (gr r) ?D a (gm_put a (self_entry (rd r)) ?m)"
    unfolding ancestor_map_def by blast
  with eq show ?thesis by blast
qed

end


section \<open>The nearest candidate\<close>

definition CA_key :: "CommonAncestor \<Rightarrow> int \<times> int \<times> ID" where
  "CA_key c = (CA_TotalGenerations c, - Certainty_Rank (CA_CombinedCertainty c), CA_AncestorID c)"

lemma CA_better_key: "CA_better c b \<longleftrightarrow> CA_key c < CA_key b"
  by (auto simp: CA_better_def CA_key_def less_prod_simp)

definition candidates ::
    "ReadTx \<Rightarrow> (ID, ancestorEntry) gomap \<Rightarrow> (ID \<times> ancestorEntry) set \<Rightarrow> CommonAncestor set" where
  "candidates rtx ancB E =
     {CA_candidate rtx i p ea eb | i p ea eb. (i, ea) \<in> E \<and> gm_get ancB i = Some eb \<and>
        rt_GetPerson rtx i = Inr p}"

text \<open>The loop keeps the least candidate it has met.\<close>

lemma nkca_loop_best:
  assumes "\<forall>i \<in> fst ` set es. gm_get ancB i \<noteq> None \<longrightarrow> (\<exists>p. rt_GetPerson rtx i = Inr p)"
  shows "\<exists>res. nkca_loop rtx ancB es best = Inr res \<and>
    (case res of
       None \<Rightarrow> best = None \<and> candidates rtx ancB (set es) = {}
     | Some c \<Rightarrow> (best = Some c \<or> c \<in> candidates rtx ancB (set es)) \<and>
         (\<forall>c' \<in> candidates rtx ancB (set es). CA_key c \<le> CA_key c') \<and>
         (\<forall>c' \<in> set_option best. CA_key c \<le> CA_key c'))"
  using assms
proof (induction es arbitrary: best)
  case Nil
  then show ?case by (auto simp: candidates_def split: option.split)
next
  case (Cons x es)
  obtain i ea where x: "x = (i, ea)" by (cases x)
  from Cons.prems have "\<forall>i \<in> fst ` set es. gm_get ancB i \<noteq> None \<longrightarrow> (\<exists>p. rt_GetPerson rtx i = Inr p)"
    by simp
  note IH = Cons.IH [OF this]
  show ?case
  proof (cases "gm_get ancB i")
    case None
    then have same: "candidates rtx ancB (set (x # es)) = candidates rtx ancB (set es)"
      "nkca_loop rtx ancB (x # es) best = nkca_loop rtx ancB es best"
      by (auto simp: candidates_def x)
    show ?thesis unfolding same by (rule IH)
  next
    case (Some eb)
    with Cons.prems x obtain p where p: "rt_GetPerson rtx i = Inr p" by fastforce
    let ?c = "CA_candidate rtx i p ea eb"
    have cands: "candidates rtx ancB (set (x # es)) = insert ?c (candidates rtx ancB (set es))"
      using Some p by (auto simp: candidates_def x)
    let ?best = "case best of None \<Rightarrow> Some ?c | Some b \<Rightarrow> if CA_better ?c b then Some ?c else best"
    have "\<exists>b. ?best = Some b \<and> (b = ?c \<or> best = Some b) \<and> CA_key b \<le> CA_key ?c \<and>
        (\<forall>c' \<in> set_option best. CA_key b \<le> CA_key c')"
      by (cases best) (auto simp: CA_better_key not_less)
    then obtain b where b: "?best = Some b" "b = ?c \<or> best = Some b" "CA_key b \<le> CA_key ?c"
      "\<forall>c' \<in> set_option best. CA_key b \<le> CA_key c'" by blast
    have loop: "nkca_loop rtx ancB (x # es) best = nkca_loop rtx ancB es (Some b)"
      using Some p b(1) by (simp add: x)
    from IH [where best = "Some b"] obtain c where
      c: "nkca_loop rtx ancB es (Some b) = Inr (Some c)"
        "b = c \<or> c \<in> candidates rtx ancB (set es)"
        "\<forall>c' \<in> candidates rtx ancB (set es). CA_key c \<le> CA_key c'" "CA_key c \<le> CA_key b"
      by (auto split: option.splits)
    have "\<forall>c' \<in> set_option best. CA_key c \<le> CA_key c'" "CA_key c \<le> CA_key ?c"
      using b(3,4) c(4) order_trans by blast+
    with c b(2) show ?thesis unfolding loop cands by auto
  qed
qed

text \<open>Two candidates of the same key are the same, so the order of the loop does not matter.\<close>

lemma candidates_key:
  assumes "c \<in> candidates rtx B (set A)" and "c' \<in> candidates rtx B (set A)"
    and "CA_key c = CA_key c'" and "gm_ok A"
  shows "c = c'"
proof -
  have get: "(i, e) \<in> set A \<Longrightarrow> gm_get A i = Some e" for i e
    using gm_get_mem [OF assms(4)] by simp
  from assms(1) obtain i p ea eb where c: "c = CA_candidate rtx i p ea eb"
    "gm_get A i = Some ea" "gm_get B i = Some eb" "rt_GetPerson rtx i = Inr p"
    unfolding candidates_def by (blast dest: get)
  from assms(2) obtain j q fa fb where c': "c' = CA_candidate rtx j q fa fb"
    "gm_get A j = Some fa" "gm_get B j = Some fb" "rt_GetPerson rtx j = Inr q"
    unfolding candidates_def by (blast dest: get)
  from assms(3) have "i = j" by (simp add: c(1) c'(1) CA_key_def CA_candidate_def)
  with c c' show ?thesis by simp
qed

lemma nkca_loop_order:
  assumes ok: "gm_ok A" and es: "set es = set A" "set es' = set A"
    and p: "\<forall>i \<in> fst ` set A. gm_get B i \<noteq> None \<longrightarrow> (\<exists>p. rt_GetPerson rtx i = Inr p)"
  shows "nkca_loop rtx B es None = nkca_loop rtx B es' None"
proof -
  from nkca_loop_best [of es B rtx None] p es obtain r1 where
    1: "nkca_loop rtx B es None = Inr r1"
      "case r1 of None \<Rightarrow> candidates rtx B (set A) = {}
       | Some c \<Rightarrow> c \<in> candidates rtx B (set A) \<and> (\<forall>c' \<in> candidates rtx B (set A). CA_key c \<le> CA_key c')"
    by (auto split: option.splits)
  from nkca_loop_best [of es' B rtx None] p es obtain r2 where
    2: "nkca_loop rtx B es' None = Inr r2"
      "case r2 of None \<Rightarrow> candidates rtx B (set A) = {}
       | Some c \<Rightarrow> c \<in> candidates rtx B (set A) \<and> (\<forall>c' \<in> candidates rtx B (set A). CA_key c \<le> CA_key c')"
    by (auto split: option.splits)
  have "r1 = r2"
  proof (cases r1)
    case None
    with 1(2) 2(2) show ?thesis by (cases r2) auto
  next
    case (Some c)
    with 1(2) 2(2) obtain c' where r2: "r2 = Some c'" by (cases r2) auto
    with 1(2) 2(2) Some have "CA_key c = CA_key c'" by (auto intro: antisym)
    with 1(2) 2(2) Some r2 candidates_key [OF _ _ _ ok] show ?thesis by auto
  qed
  with 1(1) 2(1) show ?thesis by simp
qed

text \<open>
  The specification: a common ancestor with a best walk from each of the two persons, and what
  the code makes of it.
\<close>

definition common_walks :: "Graph \<Rightarrow> nat \<Rightarrow> ID \<Rightarrow> ID \<Rightarrow> ID \<Rightarrow> Step list \<Rightarrow> Step list \<Rightarrow> bool" where
  "common_walks G d a b i sa sb \<longleftrightarrow> best_walk G d a i sa \<and> best_walk G d b i sb"

definition common_key :: "ID \<Rightarrow> Step list \<Rightarrow> Step list \<Rightarrow> int \<times> int \<times> ID" where
  "common_key i sa sb = (wrap64 (walk_dist sa + walk_dist sb),
     - Certainty_Rank (Certainty_Min (walk_cert sa) (walk_cert sb)), i)"

definition common_ancestor :: "ReadTx \<Rightarrow> ID \<Rightarrow> Person \<Rightarrow> Step list \<Rightarrow> Step list \<Rightarrow> CommonAncestor" where
  "common_ancestor rtx i p sa sb = CA_candidate rtx i p (walk_entry rtx sa) (walk_entry rtx sb)"

lemma common_ancestor_key [simp]: "CA_key (common_ancestor rtx i p sa sb) = common_key i sa sb"
  by (simp add: common_ancestor_def CA_key_def CA_candidate_def common_key_def)

lemma best_walk_target:
  assumes "best_walk G d a i ss" and "graph_wf G" and "g_persons G a \<noteq> None"
  shows "g_persons G i \<noteq> None"
proof (cases "i = a")
  case False
  with assms(1) have w: "list_all (up_step G) ss" "chained a ss i"
    by (auto simp: best_walk_def up_within_def up_walk_def)
  with False have "ss \<noteq> []" by auto
  with w have "up_step G (last ss)" "i = St_ToPerson (last ss)"
    by (auto simp: list_all_iff chained_last)
  then show ?thesis
    using graph_wf_ran_rel [OF assms(2)] by (auto simp: up_step_def)
qed (use assms(3) in simp)

text \<open>Entries of the same ancestor agree on the key.\<close>

lemma best_walk_key: "best_walk G d a i s \<Longrightarrow> best_walk G d a i t \<Longrightarrow> walk_key s = walk_key t"
  by (auto simp: best_walk_def intro: antisym split: if_splits)

lemma best_walk_common_key:
  assumes "common_walks G d a b i sa sb" and "common_walks G d a b i ta tb"
  shows "common_key i sa sb = common_key i ta tb"
  using best_walk_key [of G d a i sa ta] best_walk_key [of G d b i sb tb] assms
  by (simp add: common_walks_def common_key_def walk_key_def)

context graph_reader
begin

text \<open>Where an upward walk leads, a best one leads.\<close>

lemma best_walk_exists:
  assumes "ok r" and "g_persons (gr r) a \<noteq> None"
    and "up_within (gr r) (nat (maxDepth opts)) a i ss"
  shows "\<exists>ss. best_walk (gr r) (nat (maxDepth opts)) a i ss"
proof -
  from ancestorPaths_correct [OF assms(1,2), of opts] obtain M where
    "case gm_get M i of
        None \<Rightarrow> i \<noteq> a \<and> (\<nexists>ss. up_within (gr r) (nat (maxDepth opts)) a i ss)
      | Some e \<Rightarrow> \<exists>ss. best_walk (gr r) (nat (maxDepth opts)) a i ss \<and> e = walk_entry (rd r) ss"
    unfolding ancestor_map_def by blast
  with assms(3) show ?thesis by (auto split: option.splits)
qed

lemma common_walks_exist:
  assumes "ok r" and "g_persons (gr r) a \<noteq> None" and "g_persons (gr r) b \<noteq> None"
    and "up_within (gr r) (nat (maxDepth opts)) a i sa"
    and "up_within (gr r) (nat (maxDepth opts)) b i sb"
  shows "\<exists>sa sb. common_walks (gr r) (nat (maxDepth opts)) a b i sa sb"
  using best_walk_exists [OF assms(1,2,4)] best_walk_exists [OF assms(1,3,5)]
  by (simp add: common_walks_def)

text \<open>What the candidates are: the common ancestors, over the best walks that the two maps recorded.\<close>

lemma candidates_common:
  assumes r: "ok r" and G: "graph_wf (gr r)" and pa: "g_persons (gr r) a \<noteq> None"
    and A: "ancestor_map (rd r) (gr r) d a A" and B: "ancestor_map (rd r) (gr r) d b B"
  shows "c \<in> candidates (rd r) B (set A) \<Longrightarrow> \<exists>i p sa sb. c = common_ancestor (rd r) i p sa sb \<and>
      g_persons (gr r) i = Some p \<and> common_walks (gr r) d a b i sa sb"
    and "common_walks (gr r) d a b j ta tb \<Longrightarrow> \<exists>p ua ub. common_walks (gr r) d a b j ua ub \<and>
      common_ancestor (rd r) j p ua ub \<in> candidates (rd r) B (set A)"
    and "i \<in> fst ` set A \<Longrightarrow> \<exists>p. rt_GetPerson (rd r) i = Inr p"
proof -
  have get: "rt_GetPerson (rd r) i = Inr p \<longleftrightarrow> g_persons (gr r) i = Some p" for i p
    by (rule GetPerson_Inr [OF r])
  have entry: "\<exists>ss. best_walk (gr r) d c i ss \<and> e = walk_entry (rd r) ss"
    if "ancestor_map (rd r) (gr r) d c M" "gm_get M i = Some e" for c M i e
    using that by (auto simp: ancestor_map_def dest: spec [of _ i])
  have mem: "(i, e) \<in> set A \<longleftrightarrow> gm_get A i = Some e" for i e
    using A by (simp add: ancestor_map_def gm_get_mem)
  show person: "\<exists>p. rt_GetPerson (rd r) i = Inr p" if "i \<in> fst ` set A" for i
    using that entry [OF A] best_walk_target [OF _ G pa] by (force simp: mem get)
  show "\<exists>i p sa sb. c = common_ancestor (rd r) i p sa sb \<and>
      g_persons (gr r) i = Some p \<and> common_walks (gr r) d a b i sa sb" if "c \<in> candidates (rd r) B (set A)"
  proof -
    from that obtain i p ea eb where c: "c = CA_candidate (rd r) i p ea eb" "gm_get A i = Some ea"
      "gm_get B i = Some eb" "g_persons (gr r) i = Some p"
      by (auto simp: candidates_def mem get)
    with entry [OF A c(2)] entry [OF B c(3)] show ?thesis
      by (auto simp: common_ancestor_def common_walks_def)
  qed
  assume j: "common_walks (gr r) d a b j ta tb"
  have "gm_get A j \<noteq> None" "gm_get B j \<noteq> None"
    using A B j by (auto simp: ancestor_map_def common_walks_def best_walk_def dest!: spec [of _ j]
        split: option.splits if_splits)
  then obtain ea eb where e: "gm_get A j = Some ea" "gm_get B j = Some eb" by auto
  obtain ua ub where "best_walk (gr r) d a j ua" "best_walk (gr r) d b j ub"
    "ea = walk_entry (rd r) ua" "eb = walk_entry (rd r) ub"
    using entry [OF A e(1)] entry [OF B e(2)] by blast
  moreover obtain p where "rt_GetPerson (rd r) j = Inr p"
    using person [of j] e(1) mem [of j ea] by force
  ultimately show "\<exists>p ua ub. common_walks (gr r) d a b j ua ub \<and>
      common_ancestor (rd r) j p ua ub \<in> candidates (rd r) B (set A)"
    using e mem unfolding candidates_def common_ancestor_def common_walks_def by blast
qed

lemma NKCA_correct:
  assumes r: "ok r" and G: "graph_wf (gr r)" and ab: "a \<noteq> b"
    and pa: "g_persons (gr r) a \<noteq> None" and pb: "g_persons (gr r) b \<noteq> None"
    and ord: "\<And>xs. mset (ord xs) = mset xs"
  shows "(NearestKnownCommonAncestor ord (rd r) a b opts = Inl ErrNoKnownConnection \<and>
      (\<nexists>i sa sb. common_walks (gr r) (nat (maxDepth opts)) a b i sa sb)) \<or>
    (\<exists>i p sa sb. NearestKnownCommonAncestor ord (rd r) a b opts =
        Inr (common_ancestor (rd r) i p sa sb) \<and> g_persons (gr r) i = Some p \<and>
      common_walks (gr r) (nat (maxDepth opts)) a b i sa sb \<and>
      (\<forall>j ta tb. common_walks (gr r) (nat (maxDepth opts)) a b j ta tb \<longrightarrow>
         common_key i sa sb \<le> common_key j ta tb))"
proof -
  let ?D = "nat (maxDepth opts)"
  obtain ma mb where m: "ancestorPaths (rd r) a opts = Inr ma" "ancestorPaths (rd r) b opts = Inr mb"
    and am: "ancestor_map (rd r) (gr r) ?D a (gm_put a (self_entry (rd r)) ma)"
      "ancestor_map (rd r) (gr r) ?D b (gm_put b (self_entry (rd r)) mb)"
    using ancestorPaths_correct [OF r pa, of opts] ancestorPaths_correct [OF r pb, of opts] by blast
  define A where "A = gm_put a (self_entry (rd r)) ma"
  define B where "B = gm_put b (self_entry (rd r)) mb"
  note cands = candidates_common [OF r G pa am, folded A_def B_def]
  have set: "set (ord A) = set A" using ord by (metis set_mset_mset)
  have persons: "\<forall>i \<in> fst ` set (ord A). gm_get B i \<noteq> None \<longrightarrow> (\<exists>p. rt_GetPerson (rd r) i = Inr p)"
    using cands(3) set by simp
  from nkca_loop_best [OF persons, of None, unfolded set] obtain res where
    loop: "nkca_loop (rd r) B (ord A) None = Inr res" and
    res: "case res of None \<Rightarrow> candidates (rd r) B (set A) = {}
      | Some c \<Rightarrow> c \<in> candidates (rd r) B (set A) \<and>
          (\<forall>c' \<in> candidates (rd r) B (set A). CA_key c \<le> CA_key c')"
    by (auto split: option.splits)
  have nkca: "NearestKnownCommonAncestor ord (rd r) a b opts =
      (case res of None \<Rightarrow> Inl ErrNoKnownConnection | Some c \<Rightarrow> Inr c)"
    using ab m loop by (simp add: NearestKnownCommonAncestor_def A_def B_def)
  show ?thesis
  proof (cases res)
    case None
    with res cands(2) nkca show ?thesis by fastforce
  next
    case (Some c)
    with res have c: "c \<in> candidates (rd r) B (set A)"
      and least: "\<And>c'. c' \<in> candidates (rd r) B (set A) \<Longrightarrow> CA_key c \<le> CA_key c'" by auto
    from cands(1) [OF c] obtain i p sa sb where i: "c = common_ancestor (rd r) i p sa sb"
      "g_persons (gr r) i = Some p" "common_walks (gr r) ?D a b i sa sb" by blast
    have "common_key i sa sb \<le> common_key j ta tb" if j: "common_walks (gr r) ?D a b j ta tb" for j ta tb
      using cands(2) [OF j] least i(1) best_walk_common_key [OF j] by fastforce
    with Some i nkca show ?thesis by auto
  qed
qed

lemma NKCA_order:
  assumes r: "ok r" and G: "graph_wf (gr r)"
    and pa: "g_persons (gr r) a \<noteq> None" and pb: "g_persons (gr r) b \<noteq> None"
    and ord: "\<And>xs. mset (ord xs) = mset xs" "\<And>xs. mset (ord' xs) = mset xs"
  shows "NearestKnownCommonAncestor ord (rd r) a b opts =
    NearestKnownCommonAncestor ord' (rd r) a b opts"
proof -
  let ?D = "nat (maxDepth opts)"
  obtain ma mb where m: "ancestorPaths (rd r) a opts = Inr ma" "ancestorPaths (rd r) b opts = Inr mb"
    and am: "ancestor_map (rd r) (gr r) ?D a (gm_put a (self_entry (rd r)) ma)"
    using ancestorPaths_correct [OF r pa, of opts] ancestorPaths_correct [OF r pb, of opts] by blast
  define A where "A = gm_put a (self_entry (rd r)) ma"
  have ok: "gm_ok A" using am by (simp add: ancestor_map_def A_def)
  have "\<exists>p. rt_GetPerson (rd r) i = Inr p" if "(i, e) \<in> set A" for i e
  proof -
    from that ok have "gm_get A i = Some e" by (simp add: gm_get_mem)
    moreover from am have "case gm_get A i of None \<Rightarrow> i \<noteq> a \<and> (\<nexists>ss. up_within (gr r) ?D a i ss)
      | Some e \<Rightarrow> \<exists>ss. best_walk (gr r) ?D a i ss \<and> e = walk_entry (rd r) ss"
      unfolding ancestor_map_def A_def by blast
    ultimately have "\<exists>ss. best_walk (gr r) ?D a i ss" by auto
    then have "g_persons (gr r) i \<noteq> None" using best_walk_target [OF _ G pa] by blast
    then show ?thesis using GetPerson_Inr [OF r] by auto
  qed
  then have "nkca_loop (rd r) (gm_put b (self_entry (rd r)) mb) (ord A) None =
      nkca_loop (rd r) (gm_put b (self_entry (rd r)) mb) (ord' A) None"
    using mset_eq_setD [OF ord(1)] mset_eq_setD [OF ord(2)]
    by (intro nkca_loop_order [OF ok]) auto
  with m show ?thesis by (simp add: NearestKnownCommonAncestor_def A_def)
qed

end

end
