(* ===== verification/Explain.thy ===== *)
theory Explain
  imports Ancestors
begin

text \<open>
  Structured explanations (src/explain/explain.go, src/explain/types.go): the explanation of a
  path, with its one weakest link, and of a common ancestor. A pointer that may be nil is an
  option.
\<close>

section \<open>The code\<close>

record EdgeExplanation =
  EE_Index :: int
  EE_FromPerson :: ID
  EE_ToPerson :: ID
  EE_FromIsUnknownAncestor :: bool
  EE_ToIsUnknownAncestor :: bool
  EE_RelationshipID :: ID
  EE_Type :: RelationshipType
  EE_Direction :: EdgeDirection
  EE_Certainty :: Certainty
  EE_Continuity :: Continuity
  EE_SourceIDs :: "ID list"
  EE_IsWeakestLink :: bool

record PathExplanation =
  PE_From :: ID
  PE_To :: ID
  PE_Length :: int
  PE_Classification :: PathClassification
  PE_OverallCertainty :: Certainty
  PE_TotalGapGenerations :: int
  PE_GapEdgeCount :: int
  PE_Edges :: "EdgeExplanation list"
  PE_GraphVersion :: Version

record CommonAncestorExplanation =
  CE_AncestorID :: ID
  CE_AncestorIsUnknown :: bool
  CE_TotalGenerations :: int
  CE_CombinedCertainty :: Certainty
  CE_GraphVersion :: Version
  CE_PathFromA :: "PathExplanation option"
  CE_PathFromB :: "PathExplanation option"

definition isUnknownPerson :: "ReadTx \<Rightarrow> ID \<Rightarrow> error + bool" where
  "isUnknownPerson rtx i =
     (if ID_IsZero i then Inr False
      else bindE (rt_GetPerson rtx i) (\<lambda>p. Inr (P_unknown p)))"

text \<open>The first loop: the index of the first edge with the overall certainty, or -1.\<close>

fun weakest_index :: "Certainty \<Rightarrow> int \<Rightarrow> Step list \<Rightarrow> int" where
  "weakest_index c i [] = -1"
| "weakest_index c i (s # ss) =
     (if R_certainty (St_Relationship s) = c then i else weakest_index c (i + 1) ss)"

text \<open>The second loop, from index \<open>i\<close> on.\<close>

fun explain_edges ::
    "ReadTx \<Rightarrow> int \<Rightarrow> int \<Rightarrow> Step list \<Rightarrow> EdgeExplanation list \<Rightarrow> error + EdgeExplanation list" where
  "explain_edges rtx weakestIdx i [] out = Inr out"
| "explain_edges rtx weakestIdx i (s # ss) out =
     bindE (isUnknownPerson rtx (St_FromPerson s))
       (\<lambda>fromUnknown. bindE (isUnknownPerson rtx (St_ToPerson s))
       (\<lambda>toUnknown.
          let r = St_Relationship s in
          explain_edges rtx weakestIdx (i + 1) ss (out @
            [\<lparr>EE_Index = i, EE_FromPerson = St_FromPerson s, EE_ToPerson = St_ToPerson s,
              EE_FromIsUnknownAncestor = fromUnknown, EE_ToIsUnknownAncestor = toUnknown,
              EE_RelationshipID = R_id r, EE_Type = R_type r, EE_Direction = St_Direction s,
              EE_Certainty = R_certainty r, EE_Continuity = R_continuity r,
              EE_SourceIDs = R_sources r, EE_IsWeakestLink = (i = weakestIdx)\<rparr>])))"

definition explain_Path :: "ReadTx \<Rightarrow> Path \<Rightarrow> error + PathExplanation" where
  "explain_Path rtx p =
     bindE (explain_edges rtx (weakest_index (Pa_Certainty p) 0 (Pa_Steps p)) 0 (Pa_Steps p) [])
       (\<lambda>edges. Inr
          \<lparr>PE_From = Path_From p, PE_To = Path_To p, PE_Length = Pa_Length p,
           PE_Classification = Pa_Classification p, PE_OverallCertainty = Pa_Certainty p,
           PE_TotalGapGenerations = Pa_TotalGap p, PE_GapEdgeCount = Pa_GapEdges p,
           PE_Edges = edges, PE_GraphVersion = Pa_GraphVersion p\<rparr>)"

definition explain_side :: "ReadTx \<Rightarrow> Path \<Rightarrow> error + PathExplanation option" where
  "explain_side rtx p =
     (if Pa_Steps p \<noteq> [] then bindE (explain_Path rtx p) (\<lambda>e. Inr (Some e)) else Inr None)"

text \<open>The zero value is what a nil \<open>ca\<close> gives.\<close>

definition explain_CommonAncestor ::
    "ReadTx \<Rightarrow> CommonAncestor option \<Rightarrow> error + CommonAncestorExplanation" where
  "explain_CommonAncestor rtx ca = (case ca of
     None \<Rightarrow> Inr \<lparr>CE_AncestorID = '''', CE_AncestorIsUnknown = False, CE_TotalGenerations = 0,
       CE_CombinedCertainty = 0, CE_GraphVersion = 0, CE_PathFromA = None, CE_PathFromB = None\<rparr>
   | Some c \<Rightarrow>
       bindE (explain_side rtx (CA_PathFromA c))
         (\<lambda>pa. bindE (explain_side rtx (CA_PathFromB c))
         (\<lambda>pb. Inr
            \<lparr>CE_AncestorID = CA_AncestorID c, CE_AncestorIsUnknown = CA_Unknown c,
             CE_TotalGenerations = CA_TotalGenerations c,
             CE_CombinedCertainty = CA_CombinedCertainty c,
             CE_GraphVersion = CA_GraphVersion c, CE_PathFromA = pa, CE_PathFromB = pb\<rparr>)))"


section \<open>What an explanation says\<close>

text \<open>The record of one step, given the placeholder flags of the snapshot.\<close>

definition edge_of :: "(ID \<Rightarrow> bool) \<Rightarrow> int \<Rightarrow> int \<Rightarrow> Step \<Rightarrow> EdgeExplanation" where
  "edge_of unknown w i s =
     \<lparr>EE_Index = i, EE_FromPerson = St_FromPerson s, EE_ToPerson = St_ToPerson s,
      EE_FromIsUnknownAncestor = unknown (St_FromPerson s),
      EE_ToIsUnknownAncestor = unknown (St_ToPerson s),
      EE_RelationshipID = R_id (St_Relationship s), EE_Type = R_type (St_Relationship s),
      EE_Direction = St_Direction s, EE_Certainty = R_certainty (St_Relationship s),
      EE_Continuity = R_continuity (St_Relationship s), EE_SourceIDs = R_sources (St_Relationship s),
      EE_IsWeakestLink = (i = w)\<rparr>"

definition edges_of :: "(ID \<Rightarrow> bool) \<Rightarrow> int \<Rightarrow> Step list \<Rightarrow> EdgeExplanation list" where
  "edges_of unknown w ss = map (\<lambda>k. edge_of unknown w (int k) (ss ! k)) [0..<length ss]"

definition placeholder :: "Graph \<Rightarrow> ID \<Rightarrow> bool" where
  "placeholder G i = (case g_persons G i of None \<Rightarrow> False | Some p \<Rightarrow> P_unknown p)"

lemma edges_of_Cons:
  "map (\<lambda>k. edge_of u w (i + int k) ((s # ss) ! k)) [0..<length (s # ss)] =
     edge_of u w i s # map (\<lambda>k. edge_of u w (i + 1 + int k) (ss ! k)) [0..<length ss]"
  by (rule nth_equalityI) (auto simp: nth_Cons nth_append add.assoc split: nat.split simp del: upt_Suc)

lemma weakest_index_first:
  "weakest_index c i ss =
     (case find (\<lambda>k. R_certainty (St_Relationship (ss ! k)) = c) [0..<length ss] of
        None \<Rightarrow> -1 | Some k \<Rightarrow> i + int k)"
proof (induction ss arbitrary: i)
  case (Cons s ss)
  have "[0..<length (s # ss)] = 0 # map Suc [0..<length ss]"
    by (simp add: upt_conv_Cons map_Suc_upt del: upt_Suc)
  moreover have "find P (map Suc ks) = map_option Suc (find (\<lambda>k. P (Suc k)) ks)" for P ks
    by (induction ks) auto
  ultimately show ?case
    using Cons.IH [of "i + 1"] by (simp split: option.split)
qed simp

context graph_reader
begin

lemma explain_edges_Inr:
  assumes "ok r"
    and "\<And>s. s \<in> set ss \<Longrightarrow> g_persons (gr r) (St_FromPerson s) \<noteq> None \<and>
      g_persons (gr r) (St_ToPerson s) \<noteq> None"
    and "g_persons (gr r) '''' = None"
  shows "explain_edges (rd r) w i ss out =
    Inr (out @ map (\<lambda>k. edge_of (placeholder (gr r)) w (i + int k) (ss ! k)) [0..<length ss])"
  using assms(2)
proof (induction ss arbitrary: i out)
  case (Cons s ss)
  have unk: "isUnknownPerson (rd r) j = Inr (placeholder (gr r) j)" if "g_persons (gr r) j \<noteq> None" for j
  proof -
    from that obtain p where "g_persons (gr r) j = Some p" by auto
    moreover from this have "j \<noteq> ''''" using assms(3) by auto
    ultimately show ?thesis
      using GetPerson_Inr [OF assms(1), of j p]
      by (simp add: isUnknownPerson_def ID_IsZero_def placeholder_def)
  qed
  from Cons.prems [of s] unk have "isUnknownPerson (rd r) (St_FromPerson s) =
      Inr (placeholder (gr r) (St_FromPerson s))"
    "isUnknownPerson (rd r) (St_ToPerson s) = Inr (placeholder (gr r) (St_ToPerson s))"
    by simp_all
  with Cons show ?case
    unfolding edges_of_Cons by (simp add: edge_of_def Let_def)
qed simp

text \<open>
  The explanation of a path built by \<open>makePath\<close>: the record of every step, and the flag on the
  first step whose certainty is the least.
\<close>

lemma explain_makePath:
  assumes r: "ok r" and ss: "ss \<noteq> []"
    and p: "\<And>s. s \<in> set ss \<Longrightarrow> g_persons (gr r) (St_FromPerson s) \<noteq> None \<and>
      g_persons (gr r) (St_ToPerson s) \<noteq> None"
    and ne: "g_persons (gr r) '''' = None"
  shows "\<exists>k < length ss. R_certainty (St_Relationship (ss ! k)) = Min (set (map (R_certainty \<circ> St_Relationship) ss)) \<and>
    (\<forall>j < k. R_certainty (St_Relationship (ss ! j)) \<noteq> Min (set (map (R_certainty \<circ> St_Relationship) ss))) \<and>
    (\<exists>e. explain_Path (rd r) (makePath (rd r) ss) = Inr e \<and>
       PE_From e = St_FromPerson (hd ss) \<and> PE_To e = St_ToPerson (last ss) \<and>
       PE_Length e = int (length ss) \<and>
       PE_OverallCertainty e = Min (set (map (R_certainty \<circ> St_Relationship) ss)) \<and>
       PE_Edges e = edges_of (placeholder (gr r)) (int k) ss)"
proof -
  let ?c = "Min (set (map (R_certainty \<circ> St_Relationship) ss))"
  let ?find = "find (\<lambda>k. R_certainty (St_Relationship (ss ! k)) = ?c) [0..<length ss]"
  have "?c \<in> set (map (R_certainty \<circ> St_Relationship) ss)"
    by (rule Min_in) (use ss in simp_all)
  then obtain j where "j < length ss" "R_certainty (St_Relationship (ss ! j)) = ?c"
    by (auto simp: in_set_conv_nth)
  then have "?find \<noteq> None" by (auto simp: find_None_iff)
  then obtain k where k: "?find = Some k" by auto
  then have first: "k < length ss" "R_certainty (St_Relationship (ss ! k)) = ?c"
    "\<forall>j < k. R_certainty (St_Relationship (ss ! j)) \<noteq> ?c"
    by (auto simp: find_Some_iff)
  have cert: "Pa_Certainty (makePath (rd r) ss) = ?c" "Pa_Length (makePath (rd r) ss) = int (length ss)"
    using ss by (simp_all add: makePath_def computeAggregate_eq)
  have w: "weakest_index ?c 0 ss = int k"
    using weakest_index_first [of ?c 0 ss] unfolding k by simp
  have "explain_edges (rd r) (int k) 0 ss [] = Inr (edges_of (placeholder (gr r)) (int k) ss)"
    using explain_edges_Inr [OF r p ne, of ss "int k" 0 "[]"] by (simp add: edges_of_def)
  then have "explain_edges (rd r) (weakest_index ?c 0 ss) 0 ss [] =
      Inr (edges_of (placeholder (gr r)) (int k) ss)" unfolding w .
  then show ?thesis
    using first ss cert
    by (intro exI [of _ k]) (simp add: explain_Path_def Path_From_def Path_To_def hd_conv_nth
        split: list.split)
qed

end

end
