(* ===== verification/QueryProps.thy ===== *)
theory QueryProps
  imports Explain GovernanceRun
begin

text \<open>
  The properties of package query and package explain on the snapshots of the memory adapter,
  obtained from the interpretation \<open>mem_reader\<close>.
\<close>

section \<open>Finding paths\<close>

text \<open>The query that the properties are about: two distinct persons of a well-formed snapshot.\<close>

definition query_ok :: "readTx \<Rightarrow> ID \<Rightarrow> ID \<Rightarrow> bool" where
  "query_ok r a b \<longleftrightarrow> read_ok r \<and> graph_wf (read_graph r) \<and> a \<noteq> b \<and>
     a \<in> dom (g_persons (read_graph r)) \<and> b \<in> dom (g_persons (read_graph r))"

definition bounded_paths :: "readTx \<Rightarrow> Options \<Rightarrow> ID \<Rightarrow> ID \<Rightarrow> Step list set" where
  "bounded_paths r opts a b =
     {ss. simple_path (read_graph r) (Opt_IncludeAffinal opts) a b ss \<and>
          int (length ss) \<le> maxDepth opts}"

lemma query_okD:
  assumes "query_ok r a b"
  shows "read_ok r" "graph_wf (read_graph r)" "a \<noteq> b" "a \<noteq> ''''" "b \<noteq> ''''"
    "g_persons (read_graph r) a \<noteq> None" "g_persons (read_graph r) b \<noteq> None"
    "g_persons (read_graph r) '''' = None"
  using assms graph_wf_id [of "read_graph r"] graph_wf_no_empty_id [of "read_graph r"]
  by (auto simp: query_ok_def)

lemma mem_paths:
  assumes "query_ok r a b"
  shows "set (paths (nat (maxDepth opts)) (mem_ReadTx r) opts b a {a}) = bounded_paths r opts a b"
    and "distinct (paths (nat (maxDepth opts)) (mem_ReadTx r) opts b a {a})"
  using mem_reader.paths_simple [OF query_okD(1,3) [OF assms]]
    mem_reader.paths_distinct [OF query_okD(1) [OF assms]] maxDepth_pos [of opts]
  by (auto simp: bounded_paths_def le_nat_iff)

lemma mem_FindPaths:
  assumes "query_ok r a b"
  shows "FindPaths (mem_ReadTx r) a b opts = Some (
    let ps = map (makePath (mem_ReadTx r)) (paths (nat (maxDepth opts)) (mem_ReadTx r) opts b a {a});
        qs = sort_key found_key ps
    in if ps = [] then Inl ErrNoKnownConnection
       else if Opt_MaxPaths opts > 0 \<and> int (length qs) > Opt_MaxPaths opts
         then Inr (take (nat (Opt_MaxPaths opts)) qs) else Inr qs)"
  using mem_reader.FindPaths_eq [OF query_okD(1,6,7,3-5) [OF assms]]
  by (simp add: SliceStable_found)

text \<open>
  C3: \<open>FindPaths\<close> is sound and complete. Between two distinct persons of a well-formed snapshot it
  always returns. Without a limit on the number of paths it returns every simple path (no person
  twice, each step an edge of the graph walked along or against its direction, marriages only
  when asked for) of at most \<open>maxDepth\<close> edges, each exactly once and with its aggregates; when
  there is no such path it returns NO_KNOWN_CONNECTION.
\<close>

theorem FindPaths_sound_complete:
  assumes "query_ok r a b" and "Opt_MaxPaths opts \<le> 0"
  shows "case FindPaths (mem_ReadTx r) a b opts of
      None \<Rightarrow> False
    | Some (Inl e) \<Rightarrow> e = ErrNoKnownConnection \<and> bounded_paths r opts a b = {}
    | Some (Inr ps) \<Rightarrow> set (map Pa_Steps ps) = bounded_paths r opts a b \<and>
        distinct (map Pa_Steps ps) \<and> ps \<noteq> [] \<and>
        ps = map (makePath (mem_ReadTx r)) (map Pa_Steps ps)"
  unfolding bounded_paths_def
  by (rule mem_reader.FindPaths_exact [OF query_okD(1,6,7,3-5) [OF assms(1)] assms(2)])

text \<open>The sample query: from \<open>a\<close> to \<open>c\<close> in the line of descent \<open>a\<close>, \<open>b\<close>, \<open>c\<close>.\<close>

definition sample_opts :: Options where
  "sample_opts = \<lparr>Opt_MaxDepth = 0, Opt_MaxPaths = 0, Opt_IncludeAffinal = False\<rparr>"

definition sample_line :: "Step list" where
  "sample_line =
     [\<lparr>St_Relationship = sample_edge ''e'' ''a'' ''b'', St_Direction = EdgeForward,
       St_FromPerson = ''a'', St_ToPerson = ''b''\<rparr>,
      \<lparr>St_Relationship = sample_edge ''f'' ''b'' ''c'', St_Direction = EdgeForward,
       St_FromPerson = ''b'', St_ToPerson = ''c''\<rparr>]"

lemma sample_query_ok: "query_ok sample_read ''a'' ''c''" "query_ok sample_read ''c'' ''a''"
proof -
  have "graph_wf (read_graph sample_read)"
    by (simp add: sample_read_graph sample_wf sample_merge_audited)
  then show "query_ok sample_read ''a'' ''c''" "query_ok sample_read ''c'' ''a''"
    by (simp_all add: query_ok_def sample_read_ok sample_read_graph sample_graph)
qed

lemma sample_line_path: "sample_line \<in> bounded_paths sample_read sample_opts ''a'' ''c''"
  by (simp add: bounded_paths_def sample_read_graph sample_graph simple_path_def sample_line_def
      step_in_def Let_def ran_map_upd maxDepth_def DefaultMaxDepth_def sample_opts_def)

lemma sample_found:
  "\<exists>ps p. FindPaths (mem_ReadTx sample_read) ''a'' ''c'' sample_opts = Some (Inr ps) \<and>
     p \<in> set ps \<and> Pa_Steps p = sample_line"
proof -
  let ?xs = "paths (nat (maxDepth sample_opts)) (mem_ReadTx sample_read) sample_opts ''c'' ''a'' {''a''}"
  have x: "sample_line \<in> set ?xs"
    using mem_paths(1) [OF sample_query_ok(1), of sample_opts] sample_line_path by simp
  then have "map (makePath (mem_ReadTx sample_read)) ?xs \<noteq> []" by auto
  moreover have "\<not> 0 < Opt_MaxPaths sample_opts" by (simp add: sample_opts_def)
  ultimately have "FindPaths (mem_ReadTx sample_read) ''a'' ''c'' sample_opts =
      Some (Inr (sort_key found_key (map (makePath (mem_ReadTx sample_read)) ?xs)))"
    unfolding mem_FindPaths [OF sample_query_ok(1)] Let_def by (simp only: if_False simp_thms)
  moreover have "makePath (mem_ReadTx sample_read) sample_line \<in>
      set (sort_key found_key (map (makePath (mem_ReadTx sample_read)) ?xs))"
    using x by simp
  ultimately show ?thesis by (metis makePath_steps)
qed

theorem FindPaths_sound_complete_witness:
  "\<exists>ps. FindPaths (mem_ReadTx sample_read) ''a'' ''c'' sample_opts = Some (Inr ps) \<and>
     sample_line \<in> set (map Pa_Steps ps)"
proof -
  have "Opt_MaxPaths sample_opts \<le> 0" by (simp add: sample_opts_def)
  from FindPaths_sound_complete [OF sample_query_ok(1) this] sample_line_path show ?thesis
    by (auto split: option.splits sum.splits)
qed

text \<open>
  C32: \<open>FindPaths\<close> always returns and ranks best first, whatever the store: on every reader the
  search ends, an answer is never empty, and its paths come lineage before affinal and then in
  the order of \<open>Less\<close>.
\<close>

theorem FindPaths_best_first:
  "case FindPaths rtx a b opts of
     None \<Rightarrow> False
   | Some (Inl e) \<Rightarrow> True
   | Some (Inr ps) \<Rightarrow> ps \<noteq> [] \<and> sorted (map found_key ps)"
proof -
  let ?ps = "map (makePath rtx) (paths (nat (maxDepth opts)) rtx opts b a {a})"
  let ?qs = "sort_key found_key ?ps"
  let ?F = "FindPaths rtx a b opts"
  have dfs: "dfs (nat (maxDepth opts) + 1) rtx opts b a \<lparr>D_visited = {a}, D_steps = [], D_found = []\<rparr> =
      Some \<lparr>D_visited = {a}, D_steps = [], D_found = ?ps\<rparr>"
    by (subst dfs_correct) simp_all
  have ne: "?ps \<noteq> [] \<Longrightarrow> ?qs \<noteq> []" by (metis length_0_conv length_sort)
  have "(\<exists>e. ?F = Some (Inl e)) \<or>
      (?ps \<noteq> [] \<and> (?F = Some (Inr ?qs) \<or>
         0 < nat (Opt_MaxPaths opts) \<and> ?F = Some (Inr (take (nat (Opt_MaxPaths opts)) ?qs))))"
    unfolding FindPaths_def dfs option.case DfsState.select_convs SliceStable_found Let_def
    by (auto split: sum.split)
  then consider e where "?F = Some (Inl e)" | "?ps \<noteq> []" "?F = Some (Inr ?qs)"
    | n where "?ps \<noteq> []" "n > 0" "?F = Some (Inr (take n ?qs))" by blast
  then show ?thesis
  proof cases
    case 2
    with ne show ?thesis by (simp only: option.case sum.case) simp
  next
    case (3 n)
    have "sorted (map found_key (take n ?qs))"
      by (simp add: take_map [symmetric] sorted_wrt_take)
    moreover have "take n ?qs \<noteq> []" using ne [OF 3(1)] 3(2) by simp
    ultimately show ?thesis by (simp only: 3(3) option.case sum.case simp_thms)
  qed simp
qed

text \<open>
  \<open>MaxPaths\<close> only cuts the answer: with a limit of \<open>n\<close> the answer is the first \<open>n\<close> paths of
  the answer without a limit, and the errors are the same.
\<close>

theorem FindPaths_limit:
  assumes "0 < n"
  shows "FindPaths rtx a b (opts\<lparr>Opt_MaxPaths := n\<rparr>) =
    map_option (map_sum id (take (nat n))) (FindPaths rtx a b (opts\<lparr>Opt_MaxPaths := 0\<rparr>))"
proof -
  have dfs: "dfs fuel rtx (opts\<lparr>Opt_MaxPaths := m\<rparr>) b = dfs fuel rtx opts b" for fuel m
  proof (induction fuel)
    case (Suc fuel)
    show ?case by (intro ext) (simp add: Suc maxDepth_def)
  qed (simp add: fun_eq_iff)
  have depth: "maxDepth (opts\<lparr>Opt_MaxPaths := m\<rparr>) = maxDepth opts" for m
    by (simp add: maxDepth_def)
  have take: "take (nat n) xs = xs" if "int (length xs) \<le> n" for xs :: "Path list"
    using that by simp
  show ?thesis
    unfolding FindPaths_def dfs depth using assms take
    by (simp add: Let_def split: sum.split option.split)
qed

theorem FindPaths_limit_witness:
  "FindPaths (mem_ReadTx sample_read) ''a'' ''c'' (sample_opts\<lparr>Opt_MaxPaths := 1\<rparr>) =
   map_option (map_sum id (take 1))
     (FindPaths (mem_ReadTx sample_read) ''a'' ''c'' (sample_opts\<lparr>Opt_MaxPaths := 0\<rparr>))"
  using FindPaths_limit [of 1 "mem_ReadTx sample_read" "''a''" "''c''" sample_opts] by simp

text \<open>
  C36: being connected is symmetric. \<open>FindPaths\<close> from \<open>a\<close> to \<open>b\<close> answers NO_KNOWN_CONNECTION exactly
  when it does from \<open>b\<close> to \<open>a\<close>, because a path walked the other way is a path.
\<close>

theorem FindPaths_symmetric:
  assumes "query_ok r a b"
  shows "(FindPaths (mem_ReadTx r) a b opts = Some (Inl ErrNoKnownConnection)) =
    (FindPaths (mem_ReadTx r) b a opts = Some (Inl ErrNoKnownConnection))"
proof -
  have ba: "query_ok r b a" using assms by (auto simp: query_ok_def)
  have none: "FindPaths (mem_ReadTx r) x y opts = Some (Inl ErrNoKnownConnection) \<longleftrightarrow>
      bounded_paths r opts x y = {}" if "query_ok r x y" for x y
    unfolding mem_FindPaths [OF that] mem_paths(1) [OF that, symmetric] by (simp add: Let_def)
  have "bounded_paths r opts x y \<noteq> {}" if "bounded_paths r opts y x \<noteq> {}" for x y
    using that simple_path_flip by (fastforce simp: bounded_paths_def)
  then show ?thesis unfolding none [OF assms] none [OF ba] by blast
qed

theorem FindPaths_symmetric_witness:
  "FindPaths (mem_ReadTx sample_read) ''c'' ''a'' sample_opts \<noteq> Some (Inl ErrNoKnownConnection)"
proof -
  have "FindPaths (mem_ReadTx sample_read) ''a'' ''c'' sample_opts \<noteq> Some (Inl ErrNoKnownConnection)"
    using mem_FindPaths [OF sample_query_ok(1), of sample_opts] sample_line_path
      mem_paths(1) [OF sample_query_ok(1), of sample_opts]
    by (auto simp: Let_def)
  with FindPaths_symmetric [OF sample_query_ok(1)] show ?thesis by simp
qed


section \<open>Explaining a path\<close>

text \<open>The records of the edges of a path, when step \<open>k\<close> is a weakest one.\<close>

lemma edges_of_weakest:
  fixes ss :: "Step list"
  defines "m \<equiv> Min (set (map (R_certainty \<circ> St_Relationship) ss))"
  assumes k: "k < length ss" "R_certainty (St_Relationship (ss ! k)) = m"
    and es: "es = edges_of ph (int k) ss"
  shows "length es = length ss" "{i. i < length es \<and> EE_IsWeakestLink (es ! i)} = {k}"
    "EE_Certainty (es ! k) = m" "list_all (\<lambda>x. m \<le> EE_Certainty x) es"
proof -
  have edge: "es ! i = edge_of ph (int k) (int i) (ss ! i)" if "i < length ss" for i
    using that by (simp add: es edges_of_def)
  show len: "length es = length ss" by (simp add: es edges_of_def)
  have cert: "EE_Certainty (es ! i) = R_certainty (St_Relationship (ss ! i))" if "i < length ss" for i
    using edge [OF that] by (simp add: edge_of_def)
  show "{i. i < length es \<and> EE_IsWeakestLink (es ! i)} = {k}"
    using edge k(1) by (auto simp: len edge_of_def)
  show "EE_Certainty (es ! k) = m" using cert [OF k(1)] k(2) by simp
  show "list_all (\<lambda>x. m \<le> EE_Certainty x) es"
    unfolding list_all_length len m_def using cert by (auto intro!: Min_le)
qed

lemma found_path_explained:
  assumes "query_ok r a b" and "FindPaths (mem_ReadTx r) a b opts = Some (Inr ps)" and "p \<in> set ps"
  obtains ss k e where "p = makePath (mem_ReadTx r) ss" "k < length ss"
    "R_certainty (St_Relationship (ss ! k)) = Min (set (map (R_certainty \<circ> St_Relationship) ss))"
    "explain_Path (mem_ReadTx r) p = Inr e" "PE_From e = a" "PE_To e = b"
    "PE_OverallCertainty e = Min (set (map (R_certainty \<circ> St_Relationship) ss))"
    "PE_Edges e = edges_of (placeholder (read_graph r)) (int k) ss"
proof -
  let ?xs = "paths (nat (maxDepth opts)) (mem_ReadTx r) opts b a {a}" and ?G = "read_graph r"
  from assms(2,3) have "p \<in> set (sort_key found_key (map (makePath (mem_ReadTx r)) ?xs))"
    unfolding mem_FindPaths [OF assms(1)]
    by (auto simp: Let_def simp del: set_sort split: if_splits dest: in_set_takeD)
  then obtain ss where ss: "ss \<in> bounded_paths r opts a b" and p: "p = makePath (mem_ReadTx r) ss"
    using mem_paths(1) [OF assms(1), of opts] by auto
  from ss have path: "list_all (step_in ?G (Opt_IncludeAffinal opts)) ss" "chained a ss b"
    by (auto simp: bounded_paths_def simple_path_def)
  with query_okD(3) [OF assms(1)] have ne: "ss \<noteq> []" by auto
  have ends: "St_FromPerson (hd ss) = a" "St_ToPerson (last ss) = b"
    using path(2) ne chained_last [OF path(2) ne] by (cases ss; simp)+
  have persons: "g_persons ?G (St_FromPerson s) \<noteq> None \<and> g_persons ?G (St_ToPerson s) \<noteq> None"
    if "s \<in> set ss" for s
    using path(1) that graph_wf_ran_rel [OF query_okD(2) [OF assms(1)], of "St_Relationship s"]
    by (auto simp: list_all_iff step_in_def Let_def)
  from mem_reader.explain_makePath [OF query_okD(1) [OF assms(1)] ne persons
      query_okD(8) [OF assms(1)]]
  show thesis using that p unfolding ends by blast
qed

text \<open>
  C33: every path that \<open>FindPaths\<close> returns can be explained, and the explanation singles out one
  weakest link: it has one record per step, runs from \<open>a\<close> to \<open>b\<close>, flags exactly one edge, that edge
  has the overall certainty, and no edge has a lower one.
\<close>

theorem explain_one_weakest_link:
  assumes "query_ok r a b" and "FindPaths (mem_ReadTx r) a b opts = Some (Inr ps)" and "p \<in> set ps"
  shows "\<exists>e k. explain_Path (mem_ReadTx r) p = Inr e \<and> PE_From e = a \<and> PE_To e = b \<and>
    length (PE_Edges e) = length (Pa_Steps p) \<and>
    {i. i < length (PE_Edges e) \<and> EE_IsWeakestLink (PE_Edges e ! i)} = {k} \<and>
    EE_Certainty (PE_Edges e ! k) = PE_OverallCertainty e \<and>
    list_all (\<lambda>x. PE_OverallCertainty e \<le> EE_Certainty x) (PE_Edges e)"
proof -
  obtain ss k e where p: "p = makePath (mem_ReadTx r) ss"
    and k: "k < length ss" "R_certainty (St_Relationship (ss ! k)) = Min (set (map (R_certainty \<circ> St_Relationship) ss))"
    and e: "explain_Path (mem_ReadTx r) p = Inr e" "PE_From e = a" "PE_To e = b"
    "PE_OverallCertainty e = Min (set (map (R_certainty \<circ> St_Relationship) ss))"
    "PE_Edges e = edges_of (placeholder (read_graph r)) (int k) ss"
    using found_path_explained [OF assms] by blast
  from edges_of_weakest [OF k e(5)] e p show ?thesis by auto
qed

theorem explain_one_weakest_link_witness:
  "\<exists>ps p e. FindPaths (mem_ReadTx sample_read) ''a'' ''c'' sample_opts = Some (Inr ps) \<and>
     p \<in> set ps \<and> Pa_Steps p = sample_line \<and> explain_Path (mem_ReadTx sample_read) p = Inr e \<and>
     length (PE_Edges e) = 2"
proof -
  let ?F = "FindPaths (mem_ReadTx sample_read) ''a'' ''c'' sample_opts"
  obtain ps p where ps: "?F = Some (Inr ps)" "p \<in> set ps" "Pa_Steps p = sample_line"
    using sample_found by blast
  from explain_one_weakest_link [OF sample_query_ok(1) ps(1,2)] ps show ?thesis
    by (auto simp: sample_line_def)
qed


section \<open>The nearest common ancestor\<close>

text \<open>
  C4: \<open>NearestKnownCommonAncestor\<close> finds a nearest common ancestor. It always returns; on two
  distinct persons of a well-formed snapshot it answers NO_KNOWN_CONNECTION only when no person
  is reached by upward walks of at most \<open>maxDepth\<close> edges from both (each person reaches itself);
  otherwise it answers a common ancestor with a best walk from either side (fewest generations,
  then highest certainty), and no other common ancestor has a smaller total, or the same total
  and a higher combined certainty, or the same both and a smaller id.
\<close>

theorem NKCA_nearest:
  assumes "query_ok r a b" and "\<And>xs. mset (ord xs) = mset xs"
  shows "(NearestKnownCommonAncestor ord (mem_ReadTx r) a b opts = Inl ErrNoKnownConnection \<and>
      (\<nexists>i sa sb. up_within (read_graph r) (nat (maxDepth opts)) a i sa \<and>
         up_within (read_graph r) (nat (maxDepth opts)) b i sb)) \<or>
    (\<exists>i p sa sb. NearestKnownCommonAncestor ord (mem_ReadTx r) a b opts =
        Inr (common_ancestor (mem_ReadTx r) i p sa sb) \<and> g_persons (read_graph r) i = Some p \<and>
      common_walks (read_graph r) (nat (maxDepth opts)) a b i sa sb \<and>
      (\<forall>j ta tb. common_walks (read_graph r) (nat (maxDepth opts)) a b j ta tb \<longrightarrow>
         common_key i sa sb \<le> common_key j ta tb))"
  using mem_reader.NKCA_correct [OF query_okD(1-3,6,7) [OF assms(1)] assms(2), of opts]
    mem_reader.common_walks_exist [OF query_okD(1,6,7) [OF assms(1)], of opts] by blast

theorem NKCA_nearest_witness:
  "\<exists>i p sa sb. NearestKnownCommonAncestor rev (mem_ReadTx sample_read) ''a'' ''c'' sample_opts =
     Inr (common_ancestor (mem_ReadTx sample_read) i p sa sb)"
proof -
  have "up_within (read_graph sample_read) (nat (maxDepth sample_opts)) ''a'' ''a'' []"
    by (simp add: up_within_def up_walk_def)
  moreover have "up_within (read_graph sample_read) (nat (maxDepth sample_opts)) ''c'' ''a''
      (flip_path sample_line)"
    by (simp add: up_within_def up_walk_def up_step_def flip_path_def flip_step_def sample_line_def
        sample_read_graph sample_graph ran_map_upd maxDepth_def DefaultMaxDepth_def sample_opts_def)
  moreover have "mset (rev xs) = mset xs" for xs :: "(ID \<times> ancestorEntry) list" by simp
  note NKCA_nearest [OF sample_query_ok(1) this, of sample_opts]
  ultimately show ?thesis by blast
qed




section \<open>Explaining a common ancestor\<close>

text \<open>
  The explanation of one side: none when the person is the ancestor; otherwise it leads upwards from
  the person to the ancestor, over parent-child edges, with one weakest link.
\<close>

definition side_explained :: "ID \<Rightarrow> ID \<Rightarrow> PathExplanation option \<Rightarrow> bool" where
  "side_explained a i x \<longleftrightarrow> (case x of None \<Rightarrow> a = i
     | Some e \<Rightarrow> a \<noteq> i \<and> PE_From e = a \<and> PE_To e = i \<and>
         (\<exists>k. {j. j < length (PE_Edges e) \<and> EE_IsWeakestLink (PE_Edges e ! j)} = {k} \<and>
            EE_Certainty (PE_Edges e ! k) = PE_OverallCertainty e) \<and>
         list_all (\<lambda>y. EE_Type y = RelTypeParentChild \<and> EE_Direction y = EdgeReverse \<and>
            PE_OverallCertainty e \<le> EE_Certainty y) (PE_Edges e))"

definition side_certainty :: "PathExplanation option \<Rightarrow> Certainty" where
  "side_certainty x = (case x of None \<Rightarrow> CertaintyCertain | Some e \<Rightarrow> PE_OverallCertainty e)"

lemma walk_cert_Min:
  assumes "ss \<noteq> []" and "\<And>s. s \<in> set ss \<Longrightarrow> R_certainty (St_Relationship s) \<le> CertaintyCertain"
  shows "walk_cert ss = Min (set (map (R_certainty \<circ> St_Relationship) ss))"
proof -
  let ?f = "R_certainty \<circ> St_Relationship"
  have m: "Min (insert (min x y) S) = Min (insert x (insert y S))" if "finite S" for x y and S :: "Certainty set"
    using that by (cases "S = {}") (simp_all add: min.assoc)
  have "fold (\<lambda>s c. min c (?f s)) ss x = Min (insert x (set (map ?f ss)))" for x
    by (induction ss arbitrary: x) (simp_all add: m)
  then have "walk_cert ss = Min (insert CertaintyCertain (set (map ?f ss)))"
    by (simp add: walk_cert_def Certainty_Min_eq comp_def)
  also have "\<dots> = min CertaintyCertain (Min (set (map ?f ss)))" using assms(1) by (intro Min_insert) auto
  also have "\<dots> = Min (set (map ?f ss))"
    using assms by (intro min_absorb2) (auto simp: Min_le_iff neq_Nil_conv)
  finally show ?thesis .
qed

lemma side_walk_explained:
  assumes r: "read_ok r" "graph_wf (read_graph r)" and w: "best_walk (read_graph r) d a i ss"
  shows "\<exists>x. explain_side (mem_ReadTx r) (AE_path (walk_entry (mem_ReadTx r) ss)) = Inr x \<and>
    side_explained a i x \<and> side_certainty x = walk_cert ss"
proof (cases "i = a")
  case True
  with w have "ss = []" by (simp add: best_walk_def)
  then show ?thesis
    using True by (simp add: walk_entry_def self_entry_def explain_side_def side_explained_def side_certainty_def
        walk_cert_def)
next
  case False
  let ?G = "read_graph r"
  from w False have up: "list_all (up_step ?G) ss" and ch: "chained a ss i"
    by (simp_all add: best_walk_def up_within_def up_walk_def)
  with False have ne: "ss \<noteq> []" by auto
  have ends: "St_FromPerson (hd ss) = a" "St_ToPerson (last ss) = i"
    using ch ne chained_last [OF ch ne] by (cases ss; simp)+
  have step: "g_persons ?G (St_FromPerson s) \<noteq> None \<and> g_persons ?G (St_ToPerson s) \<noteq> None"
    "R_certainty (St_Relationship s) \<le> CertaintyCertain"
    "is_pc (St_Relationship s) \<and> St_Direction s = EdgeReverse" if "s \<in> set ss" for s
    using up that graph_wf_ran_rel [OF r(2), of "St_Relationship s"]
    by (auto simp: list_all_iff up_step_def Relationship_wf_def edge_ok_def Certainty_IsValid_def go_consts)
  from mem_reader.explain_makePath [OF r(1) ne step(1) graph_wf_no_empty_id(1) [OF r(2)]] obtain k e
    where k: "k < length ss" "R_certainty (St_Relationship (ss ! k)) = Min (set (map (R_certainty \<circ> St_Relationship) ss))"
    and e: "explain_Path (mem_ReadTx r) (makePath (mem_ReadTx r) ss) = Inr e" "PE_From e = a" "PE_To e = i"
      "PE_OverallCertainty e = Min (set (map (R_certainty \<circ> St_Relationship) ss))"
      "PE_Edges e = edges_of (placeholder ?G) (int k) ss"
    unfolding ends by blast
  note W = edges_of_weakest [OF k e(5)]
  have "list_all (\<lambda>y. EE_Type y = RelTypeParentChild \<and> EE_Direction y = EdgeReverse) (PE_Edges e)"
    using step(3) by (auto simp: e(5) edges_of_def edge_of_def list_all_iff is_pc_def)
  with W False e have "side_explained a i (Some e)"
    by (auto simp: side_explained_def list_all_iff)
  moreover have "side_certainty (Some e) = walk_cert ss"
    using walk_cert_Min [OF ne step(2)] e(4) by (simp add: side_certainty_def)
  moreover have "explain_side (mem_ReadTx r) (AE_path (walk_entry (mem_ReadTx r) ss)) = Inr (Some e)"
    using ne e(1) by (simp add: walk_entry_def explain_side_def)
  ultimately show ?thesis by blast
qed

text \<open>
  C34: every answer of \<open>NearestKnownCommonAncestor\<close> can be explained. The explanation names the
  ancestor and says whether it is a placeholder; a side is left out exactly when that person is the
  ancestor; otherwise it leads from the person up to the ancestor over parent-child edges with one
  weakest link; and the combined certainty is the weaker of the two sides'.
\<close>

theorem explain_common_ancestor:
  assumes "query_ok r a b" and "\<And>xs. mset (ord xs) = mset xs"
    and "NearestKnownCommonAncestor ord (mem_ReadTx r) a b opts = Inr c"
  shows "\<exists>e. explain_CommonAncestor (mem_ReadTx r) (Some c) = Inr e \<and>
    CE_AncestorID e = CA_AncestorID c \<and> CE_AncestorIsUnknown e = placeholder (read_graph r) (CE_AncestorID e) \<and>
    side_explained a (CE_AncestorID e) (CE_PathFromA e) \<and> side_explained b (CE_AncestorID e) (CE_PathFromB e) \<and>
    CE_CombinedCertainty e = min (side_certainty (CE_PathFromA e)) (side_certainty (CE_PathFromB e))"
proof -
  from mem_reader.NKCA_correct [OF query_okD(1-3,6,7) [OF assms(1)] assms(2), of opts] assms(3)
  obtain i p sa sb where c: "c = common_ancestor (mem_ReadTx r) i p sa sb" "g_persons (read_graph r) i = Some p"
    and w: "best_walk (read_graph r) (nat (maxDepth opts)) a i sa" "best_walk (read_graph r) (nat (maxDepth opts)) b i sb"
    by (auto simp: common_walks_def)
  from side_walk_explained [OF query_okD(1,2) [OF assms(1)] w(1)]
    side_walk_explained [OF query_okD(1,2) [OF assms(1)] w(2)]
  show ?thesis
    using c by (auto simp: explain_CommonAncestor_def common_ancestor_def CA_candidate_def placeholder_def Certainty_Min_eq)
qed

theorem explain_common_ancestor_witness:
  "\<exists>c e. NearestKnownCommonAncestor rev (mem_ReadTx sample_read) ''a'' ''c'' sample_opts = Inr c \<and>
     explain_CommonAncestor (mem_ReadTx sample_read) (Some c) = Inr e"
proof -
  have up: "up_within (read_graph sample_read) (nat (maxDepth sample_opts)) ''a'' ''a'' []"
    "up_within (read_graph sample_read) (nat (maxDepth sample_opts)) ''c'' ''a'' (flip_path sample_line)"
    by (simp_all add: up_within_def up_walk_def up_step_def flip_path_def flip_step_def sample_line_def
        sample_read_graph sample_graph ran_map_upd maxDepth_def DefaultMaxDepth_def sample_opts_def)
  have rev: "mset (rev xs) = mset xs" for xs :: "(ID \<times> ancestorEntry) list" by simp
  note Q = query_okD [OF sample_query_ok(1)]
  have "\<exists>c. NearestKnownCommonAncestor rev (mem_ReadTx sample_read) ''a'' ''c'' sample_opts = Inr c"
    using mem_reader.NKCA_correct [OF Q(1-3,6,7) rev, of sample_opts] mem_reader.common_walks_exist [OF Q(1,6,7) up]
    by blast
  with explain_common_ancestor [OF sample_query_ok(1) rev, of sample_opts] show ?thesis by blast
qed

end
