(* ===== verification/Slices.thy ===== *)
theory Slices
  imports Proposals "HOL-Library.Sublist"
begin

text \<open>
  Slices and aliasing in package \<open>model\<close> (src/model/person.go, relationship.go, proposal.go). A Go
  slice is a pointer to an array and a length; arrays live in a heap, and \<open>append\<close> writes into the
  array it is given when there is room. The constructors copy the slices they are given and the
  getters return copies, so that an entity, which the other theories have as a value, is one.
\<close>

section \<open>Arrays and slices\<close>

type_synonym loc = nat

datatype cell = NameCell Name | IDCell ID | ByteCell char | TransitionCell ProposalTransition

record slice =
  sl_ptr :: loc
  sl_len :: nat

record 'c heap =
  hp_arrays :: "loc \<Rightarrow> 'c list"
  hp_next :: loc

text \<open>The location 0 is the array of no elements of a nil slice.\<close>

definition nil_slice :: slice where
  "nil_slice = \<lparr>sl_ptr = 0, sl_len = 0\<rparr>"

definition heap_ok :: "'c heap \<Rightarrow> bool" where
  "heap_ok h \<longleftrightarrow> hp_arrays h 0 = [] \<and> 0 < hp_next h"

definition slice_ok :: "'c heap \<Rightarrow> slice \<Rightarrow> bool" where
  "slice_ok h s \<longleftrightarrow> sl_ptr s < hp_next h \<and> sl_len s \<le> length (hp_arrays h (sl_ptr s))"

definition elems :: "'c heap \<Rightarrow> slice \<Rightarrow> 'c list" where
  "elems h s = take (sl_len s) (hp_arrays h (sl_ptr s))"

definition go_make :: "'c list \<Rightarrow> 'c heap \<Rightarrow> slice \<times> 'c heap" where
  "go_make zeros h = (\<lparr>sl_ptr = hp_next h, sl_len = length zeros\<rparr>,
     h\<lparr>hp_arrays := (hp_arrays h)(hp_next h := zeros), hp_next := hp_next h + 1\<rparr>)"

definition go_copy :: "slice \<Rightarrow> slice \<Rightarrow> 'c heap \<Rightarrow> 'c heap" where
  "go_copy d s h = (let k = min (sl_len d) (sl_len s) in
     h\<lparr>hp_arrays := (hp_arrays h)(sl_ptr d := take k (elems h s) @ drop k (hp_arrays h (sl_ptr d)))\<rparr>)"

text \<open>
  \<open>append(s, xs...)\<close>. When the array is too short a new one is made; how much room it has beyond
  the elements is up to the runtime (\<open>spare\<close>).
\<close>

definition go_append :: "(nat \<Rightarrow> 'c list) \<Rightarrow> slice \<Rightarrow> 'c list \<Rightarrow> 'c heap \<Rightarrow> slice \<times> 'c heap" where
  "go_append spare s xs h =
     (let n = sl_len s + length xs; arr = hp_arrays h (sl_ptr s) in
      if n \<le> length arr
      then (s\<lparr>sl_len := n\<rparr>,
            h\<lparr>hp_arrays := (hp_arrays h)(sl_ptr s := take (sl_len s) arr @ xs @ drop n arr)\<rparr>)
      else (\<lparr>sl_ptr = hp_next h, sl_len = n\<rparr>,
            h\<lparr>hp_arrays := (hp_arrays h)(hp_next h := elems h s @ xs @ spare n), hp_next := hp_next h + 1\<rparr>))"


section \<open>Entities with slices\<close>

text \<open>An entity is a struct; its fields that are not slices are those of the value.\<close>

fun name_of :: "cell \<Rightarrow> Name" where
  "name_of (NameCell n) = n"
| "name_of _ = zero_Name"

fun id_of :: "cell \<Rightarrow> ID" where
  "id_of (IDCell i) = i"
| "id_of _ = ''''"

fun byte_of :: "cell \<Rightarrow> char" where
  "byte_of (ByteCell b) = b"
| "byte_of _ = CHR 0x00"

definition zero_Transition :: ProposalTransition where
  "zero_Transition = \<lparr>T_From = 0, T_To = 0, T_Actor = '''', T_Timestamp = 0, T_Reason = ''''\<rparr>"

fun transition_of :: "cell \<Rightarrow> ProposalTransition" where
  "transition_of (TransitionCell t) = t"
| "transition_of _ = zero_Transition"

record PersonObj =
  po_fields :: Person
  po_names :: slice

record RelationshipObj =
  ro_fields :: Relationship
  ro_sources :: slice

record ProposalObj =
  qo_fields :: Proposal
  qo_payload :: slice
  qo_sources :: slice
  qo_history :: slice

definition person_value :: "cell heap \<Rightarrow> PersonObj \<Rightarrow> Person" where
  "person_value h p = (po_fields p)\<lparr>P_names := map name_of (elems h (po_names p))\<rparr>"

definition relationship_value :: "cell heap \<Rightarrow> RelationshipObj \<Rightarrow> Relationship" where
  "relationship_value h r = (ro_fields r)\<lparr>R_sources := map id_of (elems h (ro_sources r))\<rparr>"

definition proposal_value :: "cell heap \<Rightarrow> ProposalObj \<Rightarrow> Proposal" where
  "proposal_value h q = (qo_fields q)\<lparr>Q_payload := map byte_of (elems h (qo_payload q)),
     Q_sources := map id_of (elems h (qo_sources q)),
     Q_history := map transition_of (elems h (qo_history q))\<rparr>"

text \<open>\<open>append([]T(nil), s...)\<close>\<close>

definition clone :: "(nat \<Rightarrow> cell list) \<Rightarrow> slice \<Rightarrow> cell heap \<Rightarrow> slice \<times> cell heap" where
  "clone spare s h = go_append spare nil_slice (elems h s) h"

text \<open>The constructors: what they check is read through the slices of the options.\<close>

definition NewPerson_in :: "(nat \<Rightarrow> cell list) \<Rightarrow> ID \<Rightarrow> PersonOptions \<Rightarrow> slice \<Rightarrow> cell heap \<Rightarrow>
    (error + PersonObj) \<times> cell heap" where
  "NewPerson_in spare i opts names h =
     (case NewPerson i (opts\<lparr>PO_Names := map name_of (elems h names)\<rparr>) of
        Inl e \<Rightarrow> (Inl e, h)
      | Inr p \<Rightarrow> let (s, h') = clone spare names h in (Inr \<lparr>po_fields = p, po_names = s\<rparr>, h'))"

definition NewUnknownAncestor_in :: "ID \<Rightarrow> error + PersonObj" where
  "NewUnknownAncestor_in i =
     bindE (NewUnknownAncestor i) (\<lambda>p. Inr \<lparr>po_fields = p, po_names = nil_slice\<rparr>)"

definition NewRelationship_in :: "(nat \<Rightarrow> cell list) \<Rightarrow> ID \<Rightarrow> ID \<Rightarrow> ID \<Rightarrow> RelationshipType \<Rightarrow> Certainty \<Rightarrow>
    Continuity \<Rightarrow> RelationshipOptions \<Rightarrow> slice \<Rightarrow> cell heap \<Rightarrow> (error + RelationshipObj) \<times> cell heap" where
  "NewRelationship_in spare i from to relType cert cont opts sources h =
     (case NewRelationship i from to relType cert cont (opts\<lparr>RO_Sources := map id_of (elems h sources)\<rparr>) of
        Inl e \<Rightarrow> (Inl e, h)
      | Inr r \<Rightarrow> let (s, h') = clone spare sources h in (Inr \<lparr>ro_fields = r, ro_sources = s\<rparr>, h'))"

definition NewProposal_in :: "(nat \<Rightarrow> cell list) \<Rightarrow> ID \<Rightarrow> ProposalAction \<Rightarrow> EntityKind \<Rightarrow>
    ProposalOptions \<Rightarrow> slice \<Rightarrow> slice \<Rightarrow> cell heap \<Rightarrow> (error + ProposalObj) \<times> cell heap" where
  "NewProposal_in spare i action kind opts payload sources h =
     (case NewProposal i action kind (opts\<lparr>QO_Payload := map byte_of (elems h payload),
             QO_Sources := map id_of (elems h sources)\<rparr>) of
        Inl e \<Rightarrow> (Inl e, h)
      | Inr q \<Rightarrow>
          let (ps, h1) = clone spare payload h; (ss, h2) = clone spare sources h1 in
          (Inr \<lparr>qo_fields = q, qo_payload = ps, qo_sources = ss, qo_history = nil_slice\<rparr>, h2))"

text \<open>The getters: \<open>make\<close> and \<open>copy\<close>.\<close>

definition copy_out :: "cell \<Rightarrow> slice \<Rightarrow> cell heap \<Rightarrow> slice \<times> cell heap" where
  "copy_out zero s h = (let (out, h1) = go_make (replicate (sl_len s) zero) h in (out, go_copy out s h1))"

definition Person_Names :: "PersonObj \<Rightarrow> cell heap \<Rightarrow> slice \<times> cell heap" where
  "Person_Names p h = copy_out (NameCell zero_Name) (po_names p) h"

definition Relationship_Sources :: "RelationshipObj \<Rightarrow> cell heap \<Rightarrow> slice \<times> cell heap" where
  "Relationship_Sources r h = copy_out (IDCell '''') (ro_sources r) h"

definition Proposal_Payload :: "ProposalObj \<Rightarrow> cell heap \<Rightarrow> slice \<times> cell heap" where
  "Proposal_Payload q h = copy_out (ByteCell (CHR 0x00)) (qo_payload q) h"

definition Proposal_Sources :: "ProposalObj \<Rightarrow> cell heap \<Rightarrow> slice \<times> cell heap" where
  "Proposal_Sources q h = copy_out (IDCell '''') (qo_sources q) h"

definition Proposal_History :: "ProposalObj \<Rightarrow> cell heap \<Rightarrow> slice \<times> cell heap" where
  "Proposal_History q h = copy_out (TransitionCell zero_Transition) (qo_history q) h"

text \<open>\<open>withState\<close>: the copy of the struct shares the payload and the sources with the original.\<close>

definition withState_in :: "(nat \<Rightarrow> cell list) \<Rightarrow> ProposalObj \<Rightarrow> ProposalState \<Rightarrow> ProposalTransition \<Rightarrow> cell heap \<Rightarrow>
    ProposalObj \<times> cell heap" where
  "withState_in spare q s tr h =
     (let (c, h1) = clone spare (qo_history q) h;
          (hist, h2) = go_append spare c [TransitionCell tr] h1
      in (q\<lparr>qo_fields := (qo_fields q)\<lparr>Q_state := s\<rparr>, qo_history := hist\<rparr>, h2))"

section \<open>What the operations do to the heap\<close>

text \<open>No array that was there has changed.\<close>

definition grows :: "'c heap \<Rightarrow> 'c heap \<Rightarrow> bool" where
  "grows h h' \<longleftrightarrow> hp_next h \<le> hp_next h' \<and> heap_ok h' \<and>
     (\<forall>l < hp_next h. hp_arrays h' l = hp_arrays h l)"

text \<open>A slice that nobody else has: of a new array, or nil.\<close>

definition new_slice :: "'c heap \<Rightarrow> 'c heap \<Rightarrow> slice \<Rightarrow> bool" where
  "new_slice h h' s \<longleftrightarrow> slice_ok h' s \<and> (sl_ptr s = 0 \<or> hp_next h \<le> sl_ptr s)"

lemma grows_refl: "heap_ok h \<Longrightarrow> grows h h"
  by (simp add: grows_def)

lemma grows_trans: "grows h h1 \<Longrightarrow> grows h1 h2 \<Longrightarrow> grows h h2"
  by (auto simp: grows_def)

lemma grows_keeps:
  assumes "grows h h'" and "slice_ok h s"
  shows "slice_ok h' s" "elems h' s = elems h s"
  using assms by (auto simp: grows_def slice_ok_def elems_def)

lemma new_slice_later: "new_slice h1 h2 s \<Longrightarrow> grows h h1 \<Longrightarrow> new_slice h h2 s"
  by (auto simp: new_slice_def grows_def)

lemma new_slice_keeps: "new_slice h h1 s \<Longrightarrow> grows h1 h2 \<Longrightarrow> new_slice h h2 s"
  using grows_keeps(1) by (auto simp: new_slice_def)

lemma go_make_new:
  assumes "heap_ok h" and "go_make zs h = (s, h')"
  shows "grows h h'" "new_slice h h' s" "elems h' s = zs" "sl_ptr s \<noteq> 0"
  using assms by (auto simp: go_make_def grows_def new_slice_def slice_ok_def elems_def heap_ok_def)

lemma append_nil:
  assumes "heap_ok h" and "go_append spare nil_slice xs h = (c, h')"
  shows "grows h h'" "new_slice h h' c" "elems h' c = xs"
  using assms
  by (cases xs; auto simp: go_append_def nil_slice_def Let_def grows_def new_slice_def slice_ok_def
      elems_def heap_ok_def)+

lemma clone_new:
  assumes "heap_ok h" and "clone spare s h = (c, h')"
  shows "grows h h'" "new_slice h h' c" "elems h' c = elems h s"
  using append_nil [OF assms [unfolded clone_def]] .

lemma copy_out_new:
  assumes h: "heap_ok h" and s: "slice_ok h s" and c: "copy_out z s h = (out, h')"
  shows "grows h h'" "new_slice h h' out" "elems h' out = elems h s" "sl_ptr out \<noteq> 0"
  using assms
  by (auto simp: copy_out_def go_make_def go_copy_def Let_def grows_def new_slice_def slice_ok_def elems_def
      heap_ok_def)

text \<open>\<open>append\<close> to a slice of a new array touches no array that was there before.\<close>

lemma append_new:
  assumes h1: "heap_ok h1" "hp_next h \<le> hp_next h1" and c: "new_slice h h1 c" and xs: "xs \<noteq> []"
    and a: "go_append spare c xs h1 = (s, h2)" and h: "grows h h1" "0 < hp_next h"
  shows "grows h h2" "new_slice h h2 s" "elems h2 s = elems h1 c @ xs"
  using assms
  by (auto simp: go_append_def Let_def grows_def new_slice_def slice_ok_def elems_def heap_ok_def
      split: if_splits)

lemma withState_new:
  assumes h: "heap_ok h" and q: "slice_ok h (qo_history q)" and w: "withState_in spare q s tr h = (q', h')"
  shows "grows h h'" "new_slice h h' (qo_history q')"
    "elems h' (qo_history q') = elems h (qo_history q) @ [TransitionCell tr]"
    "qo_payload q' = qo_payload q" "qo_sources q' = qo_sources q"
    "qo_fields q' = (qo_fields q)\<lparr>Q_state := s\<rparr>"
proof -
  obtain c h1 where c: "clone spare (qo_history q) h = (c, h1)" by (cases "clone spare (qo_history q) h")
  obtain hist where a: "go_append spare c [TransitionCell tr] h1 = (hist, h')"
    and q': "q' = q\<lparr>qo_fields := (qo_fields q)\<lparr>Q_state := s\<rparr>, qo_history := hist\<rparr>"
    using w by (auto simp: withState_in_def c split: prod.splits)
  note C = clone_new [OF h c]
  have "heap_ok h1" "hp_next h \<le> hp_next h1" "0 < hp_next h" using C(1) h by (simp_all add: grows_def heap_ok_def)
  note A = append_new [OF this(1,2) C(2) _ a C(1) this(3)]
  show "grows h h'" "new_slice h h' (qo_history q')"
    "elems h' (qo_history q') = elems h (qo_history q) @ [TransitionCell tr]"
    "qo_payload q' = qo_payload q" "qo_sources q' = qo_sources q"
    "qo_fields q' = (qo_fields q)\<lparr>Q_state := s\<rparr>"
    using A C(3) by (simp_all add: q')
qed

text \<open>The operations on values, which the other theories use.\<close>

lemma NewPerson_in_value:
  assumes h: "heap_ok h" and n: "NewPerson_in spare i opts names h = (r, h')"
  shows "case r of
      Inl e \<Rightarrow> h' = h \<and> NewPerson i (opts\<lparr>PO_Names := map name_of (elems h names)\<rparr>) = Inl e
    | Inr p \<Rightarrow> NewPerson i (opts\<lparr>PO_Names := map name_of (elems h names)\<rparr>) = Inr (person_value h' p) \<and>
        grows h h' \<and> new_slice h h' (po_names p)"
proof (cases "NewPerson i (opts\<lparr>PO_Names := map name_of (elems h names)\<rparr>)")
  case (Inr p)
  obtain s h1 where c: "clone spare names h = (s, h1)" by (cases "clone spare names h")
  have "P_names p = map name_of (elems h names)"
    using Inr by (simp add: NewPerson_Inr)
  then show ?thesis
    using n Inr c clone_new [OF h c] by (auto simp: NewPerson_in_def person_value_def)
qed (use n in \<open>auto simp: NewPerson_in_def\<close>)

lemma NewRelationship_in_value:
  assumes h: "heap_ok h" and n: "NewRelationship_in spare i from to ty cert cont opts sources h = (r, h')"
  shows "case r of
      Inl e \<Rightarrow> h' = h \<and>
        NewRelationship i from to ty cert cont (opts\<lparr>RO_Sources := map id_of (elems h sources)\<rparr>) = Inl e
    | Inr x \<Rightarrow> NewRelationship i from to ty cert cont (opts\<lparr>RO_Sources := map id_of (elems h sources)\<rparr>) =
          Inr (relationship_value h' x) \<and> grows h h' \<and> new_slice h h' (ro_sources x)"
proof (cases "NewRelationship i from to ty cert cont (opts\<lparr>RO_Sources := map id_of (elems h sources)\<rparr>)")
  case (Inr x)
  obtain s h1 where c: "clone spare sources h = (s, h1)" by (cases "clone spare sources h")
  have "R_sources x = map id_of (elems h sources)"
    using Inr by (simp add: NewRelationship_Inr)
  then show ?thesis
    using n Inr c clone_new [OF h c] by (auto simp: NewRelationship_in_def relationship_value_def)
qed (use n in \<open>auto simp: NewRelationship_in_def\<close>)

lemma NewProposal_in_value:
  assumes h: "heap_ok h" and s: "slice_ok h sources"
    and n: "NewProposal_in spare i a k opts payload sources h = (r, h')"
  shows "case r of
      Inl e \<Rightarrow> h' = h \<and> NewProposal i a k (opts\<lparr>QO_Payload := map byte_of (elems h payload),
          QO_Sources := map id_of (elems h sources)\<rparr>) = Inl e
    | Inr q \<Rightarrow> NewProposal i a k (opts\<lparr>QO_Payload := map byte_of (elems h payload),
          QO_Sources := map id_of (elems h sources)\<rparr>) = Inr (proposal_value h' q) \<and>
        grows h h' \<and> (\<forall>s \<in> {qo_payload q, qo_sources q, qo_history q}. new_slice h h' s)"
proof (cases "NewProposal i a k (opts\<lparr>QO_Payload := map byte_of (elems h payload),
          QO_Sources := map id_of (elems h sources)\<rparr>)")
  case (Inr q)
  obtain ps h1 where p: "clone spare payload h = (ps, h1)" by (cases "clone spare payload h")
  obtain ss h2 where s2: "clone spare sources h1 = (ss, h2)" by (cases "clone spare sources h1")
  note P = clone_new [OF h p]
  have ok1: "heap_ok h1" using P(1) by (simp add: grows_def)
  note S = clone_new [OF ok1 s2]
  have ps: "slice_ok h1 ps" using P(2) by (simp add: new_slice_def)
  have r: "r = Inr \<lparr>qo_fields = q, qo_payload = ps, qo_sources = ss, qo_history = nil_slice\<rparr>" "h' = h2"
    using n Inr p s2 by (auto simp: NewProposal_in_def)
  have e: "elems h2 ps = elems h payload" "elems h2 ss = elems h sources"
    using grows_keeps(2) [OF S(1) ps] P(3) S(3) grows_keeps(2) [OF P(1) s] by simp_all
  have "elems h2 nil_slice = []" by (simp add: elems_def nil_slice_def)
  then have "proposal_value h2 \<lparr>qo_fields = q, qo_payload = ps, qo_sources = ss, qo_history = nil_slice\<rparr> = q"
    using Inr e by (auto simp: proposal_value_def NewProposal_Inr)
  moreover have "grows h h2" using P(1) S(1) by (rule grows_trans)
  moreover have "new_slice h h2 ps" "new_slice h h2 ss"
    using new_slice_keeps [OF P(2) S(1)] new_slice_later [OF S(2) P(1)] by simp_all
  moreover have "new_slice h h2 nil_slice"
    using \<open>grows h h2\<close> by (simp add: new_slice_def slice_ok_def nil_slice_def grows_def heap_ok_def)
  ultimately show ?thesis using Inr by (simp add: r)
qed (use n in \<open>auto simp: NewProposal_in_def\<close>)

section \<open>Clients\<close>

text \<open>
  A program that uses the package: the slices it has, and the entities it was given. It may make
  slices, write through any that it has (within the whole array: a slice can be extended to its
  capacity, and \<open>append\<close> does no more than extend and write, or make a new one), and call
  constructors, getters and \<open>withState\<close>. The fields of an entity are private to the package.
\<close>

record Client =
  cl_heap :: "cell heap"
  cl_slices :: "slice list"
  cl_persons :: "PersonObj list"
  cl_rels :: "RelationshipObj list"
  cl_props :: "ProposalObj list"

definition got_slice :: "Client \<Rightarrow> slice \<times> cell heap \<Rightarrow> Client" where
  "got_slice c r = c\<lparr>cl_heap := snd r, cl_slices := cl_slices c @ [fst r]\<rparr>"

inductive client_step :: "Client \<Rightarrow> Client \<Rightarrow> bool" where
  make: "client_step c (got_slice c (go_make xs (cl_heap c)))"
| extend: "s \<in> set (cl_slices c) \<Longrightarrow> n \<le> length (hp_arrays (cl_heap c) (sl_ptr s)) \<Longrightarrow>
    client_step c (got_slice c (s\<lparr>sl_len := n\<rparr>, cl_heap c))"
| store: "s \<in> set (cl_slices c) \<Longrightarrow> length xs = length (hp_arrays (cl_heap c) (sl_ptr s)) \<Longrightarrow>
    client_step c (c\<lparr>cl_heap := (cl_heap c)\<lparr>hp_arrays := (hp_arrays (cl_heap c))(sl_ptr s := xs)\<rparr>\<rparr>)"
| new_person: "names \<in> set (cl_slices c) \<Longrightarrow> NewPerson_in spare i opts names (cl_heap c) = (Inr p, h) \<Longrightarrow>
    client_step c (c\<lparr>cl_heap := h, cl_persons := cl_persons c @ [p]\<rparr>)"
| new_unknown: "NewUnknownAncestor_in i = Inr p \<Longrightarrow>
    client_step c (c\<lparr>cl_persons := cl_persons c @ [p]\<rparr>)"
| new_relationship: "sources \<in> set (cl_slices c) \<Longrightarrow>
    NewRelationship_in spare i from to ty cert cont ropts sources (cl_heap c) = (Inr r, h) \<Longrightarrow>
    client_step c (c\<lparr>cl_heap := h, cl_rels := cl_rels c @ [r]\<rparr>)"
| new_proposal: "payload \<in> set (cl_slices c) \<Longrightarrow> sources \<in> set (cl_slices c) \<Longrightarrow>
    NewProposal_in spare i a k qopts payload sources (cl_heap c) = (Inr q, h) \<Longrightarrow>
    client_step c (c\<lparr>cl_heap := h, cl_props := cl_props c @ [q]\<rparr>)"
| names: "p \<in> set (cl_persons c) \<Longrightarrow> client_step c (got_slice c (Person_Names p (cl_heap c)))"
| rel_sources: "r \<in> set (cl_rels c) \<Longrightarrow> client_step c (got_slice c (Relationship_Sources r (cl_heap c)))"
| payload: "q \<in> set (cl_props c) \<Longrightarrow> client_step c (got_slice c (Proposal_Payload q (cl_heap c)))"
| prop_sources: "q \<in> set (cl_props c) \<Longrightarrow> client_step c (got_slice c (Proposal_Sources q (cl_heap c)))"
| history: "q \<in> set (cl_props c) \<Longrightarrow> client_step c (got_slice c (Proposal_History q (cl_heap c)))"
| move: "q \<in> set (cl_props c) \<Longrightarrow> withState_in spare q st tr (cl_heap c) = (q', h) \<Longrightarrow>
    client_step c (c\<lparr>cl_heap := h, cl_props := cl_props c @ [q']\<rparr>)"

definition start_client :: Client where
  "start_client = \<lparr>cl_heap = \<lparr>hp_arrays = (\<lambda>_. []), hp_next = 1\<rparr>, cl_slices = [nil_slice],
     cl_persons = [], cl_rels = [], cl_props = []\<rparr>"

text \<open>The slices inside entities; none of their arrays is one that the client can write.\<close>

definition prop_slices :: "ProposalObj \<Rightarrow> slice set" where
  "prop_slices q = {qo_payload q, qo_sources q, qo_history q}"

definition inner :: "Client \<Rightarrow> slice set" where
  "inner c = po_names ` set (cl_persons c) \<union> ro_sources ` set (cl_rels c) \<union> \<Union> (prop_slices ` set (cl_props c))"

definition closed_off :: "Client \<Rightarrow> bool" where
  "closed_off c \<longleftrightarrow> heap_ok (cl_heap c) \<and> (\<forall>s \<in> set (cl_slices c). slice_ok (cl_heap c) s) \<and>
     (\<forall>s \<in> inner c. slice_ok (cl_heap c) s \<and> (sl_ptr s = 0 \<or> sl_ptr s \<notin> sl_ptr ` set (cl_slices c)))"

text \<open>The values of the entities.\<close>

definition values_of :: "Client \<Rightarrow> Person list \<times> Relationship list \<times> Proposal list" where
  "values_of c = (map (person_value (cl_heap c)) (cl_persons c),
     map (relationship_value (cl_heap c)) (cl_rels c), map (proposal_value (cl_heap c)) (cl_props c))"

definition extends :: "Client \<Rightarrow> Client \<Rightarrow> bool" where
  "extends c c' \<longleftrightarrow> prefix (fst (values_of c)) (fst (values_of c')) \<and>
     prefix (fst (snd (values_of c))) (fst (snd (values_of c'))) \<and>
     prefix (snd (snd (values_of c))) (snd (snd (values_of c')))"

lemma inner_in:
  "p \<in> set (cl_persons c) \<Longrightarrow> po_names p \<in> inner c"
  "r \<in> set (cl_rels c) \<Longrightarrow> ro_sources r \<in> inner c"
  "q \<in> set (cl_props c) \<Longrightarrow> qo_payload q \<in> inner c \<and> qo_sources q \<in> inner c \<and> qo_history q \<in> inner c"
  by (auto simp: inner_def prop_slices_def)

lemma values_kept:
  assumes "\<forall>s \<in> inner c. elems h s = elems (cl_heap c) s"
  shows "map (person_value h) (cl_persons c) = map (person_value (cl_heap c)) (cl_persons c)"
    "map (relationship_value h) (cl_rels c) = map (relationship_value (cl_heap c)) (cl_rels c)"
    "map (proposal_value h) (cl_props c) = map (proposal_value (cl_heap c)) (cl_props c)"
  using assms inner_in [of _ c]
  by (simp_all add: person_value_def relationship_value_def proposal_value_def)

text \<open>A step that changes no array: it adds slices or entities.\<close>

lemma grow_step:
  assumes c: "closed_off c" and g: "grows (cl_heap c) (cl_heap c')"
    and sl: "\<forall>s \<in> set (cl_slices c'). slice_ok (cl_heap c') s \<and>
      (sl_ptr s \<in> sl_ptr ` set (cl_slices c) \<or> hp_next (cl_heap c) \<le> sl_ptr s)"
    and inn: "\<forall>s \<in> inner c'. s \<in> inner c \<or> new_slice (cl_heap c) (cl_heap c') s"
    and one: "cl_slices c' = cl_slices c \<or> inner c' = inner c"
    and lists: "prefix (cl_persons c) (cl_persons c')" "prefix (cl_rels c) (cl_rels c')"
      "prefix (cl_props c) (cl_props c')"
  shows "closed_off c' \<and> extends c c'"
proof -
  let ?h = "cl_heap c" and ?h' = "cl_heap c'"
  have old: "slice_ok ?h s" "sl_ptr s = 0 \<or> sl_ptr s \<notin> sl_ptr ` set (cl_slices c)" if "s \<in> inner c" for s
    using c that by (auto simp: closed_off_def)
  have ok: "slice_ok ?h' s" if "s \<in> inner c'" for s
    using inn that old grows_keeps(1) [OF g] by (auto simp: new_slice_def)
  have "sl_ptr s = 0 \<or> sl_ptr s \<notin> sl_ptr ` set (cl_slices c')" if s: "s \<in> inner c'" for s
  proof (cases "s \<in> inner c")
    case True
    then have "sl_ptr s < hp_next ?h" using old(1) [OF True] by (simp add: slice_ok_def)
    then show ?thesis using old(2) [OF True] sl by fastforce
  next
    case False
    then have "new_slice ?h ?h' s" "cl_slices c' = cl_slices c" using inn one s by auto
    moreover have "\<forall>t \<in> set (cl_slices c). sl_ptr t < hp_next ?h"
      using c by (simp add: closed_off_def slice_ok_def)
    ultimately show ?thesis by (fastforce simp: new_slice_def)
  qed
  then have "closed_off c'"
    using g sl ok by (simp add: closed_off_def grows_def)
  moreover have "\<forall>s \<in> inner c. elems ?h' s = elems ?h s"
    using old(1) grows_keeps(2) [OF g] by blast
  note V = values_kept [OF this]
  have "extends c c'"
    using lists unfolding extends_def values_of_def fst_conv snd_conv V [symmetric]
    by (simp add: map_mono_prefix)
  ultimately show ?thesis ..
qed

lemma got_slice_step:
  assumes c: "closed_off c" and r: "grows (cl_heap c) h" "slice_ok h s"
    "sl_ptr s \<in> sl_ptr ` set (cl_slices c) \<or> hp_next (cl_heap c) \<le> sl_ptr s"
  shows "closed_off (got_slice c (s, h)) \<and> extends c (got_slice c (s, h))"
proof (rule grow_step [OF c])
  show "\<forall>t \<in> set (cl_slices (got_slice c (s, h))). slice_ok (cl_heap (got_slice c (s, h))) t \<and>
      (sl_ptr t \<in> sl_ptr ` set (cl_slices c) \<or> hp_next (cl_heap c) \<le> sl_ptr t)"
    using c r grows_keeps(1) [OF r(1)] by (auto simp: got_slice_def closed_off_def)
qed (use r in \<open>auto simp: got_slice_def inner_def\<close>)

lemma copy_out_step:
  assumes c: "closed_off c" and s: "s \<in> inner c"
  shows "closed_off (got_slice c (copy_out z s (cl_heap c))) \<and> extends c (got_slice c (copy_out z s (cl_heap c)))"
proof -
  obtain out h where o: "copy_out z s (cl_heap c) = (out, h)" by (cases "copy_out z s (cl_heap c)")
  have h: "heap_ok (cl_heap c)" "slice_ok (cl_heap c) s" using c s by (simp_all add: closed_off_def)
  note N = copy_out_new [OF h o]
  from N(2,4) have "slice_ok h out" "hp_next (cl_heap c) \<le> sl_ptr out" by (simp_all add: new_slice_def)
  then show ?thesis unfolding o using got_slice_step [OF c N(1)] by simp
qed

lemma store_step:
  assumes c: "closed_off c" and s: "s \<in> set (cl_slices c)"
    and xs: "length xs = length (hp_arrays (cl_heap c) (sl_ptr s))"
    and c': "c' = c\<lparr>cl_heap := (cl_heap c)\<lparr>hp_arrays := (hp_arrays (cl_heap c))(sl_ptr s := xs)\<rparr>\<rparr>"
  shows "closed_off c' \<and> extends c c'"
proof -
  have nil: "hp_arrays (cl_heap c) 0 = []" using c by (simp add: closed_off_def heap_ok_def)
  have same: "hp_arrays (cl_heap c') (sl_ptr t) = hp_arrays (cl_heap c) (sl_ptr t)" if "t \<in> inner c" for t
  proof (cases "sl_ptr t = sl_ptr s")
    case True
    then have "sl_ptr s = 0" using c s that by (auto simp: closed_off_def)
    then show ?thesis using nil xs True by (simp add: c')
  qed (simp add: c')
  have "slice_ok (cl_heap c') t = slice_ok (cl_heap c) t" for t
    using xs by (simp add: slice_ok_def c')
  moreover have "heap_ok (cl_heap c')" using c xs nil by (auto simp: closed_off_def heap_ok_def c')
  moreover have "inner c' = inner c" "cl_slices c' = cl_slices c" by (simp_all add: inner_def c')
  ultimately have "closed_off c'" using c by (simp add: closed_off_def)
  moreover have "\<forall>t \<in> inner c. elems (cl_heap c') t = elems (cl_heap c) t"
    using same by (simp add: elems_def)
  note V = values_kept [OF this]
  have "extends c c'"
    unfolding extends_def values_of_def fst_conv snd_conv V [symmetric] by (simp add: c')
  ultimately show ?thesis ..
qed

lemma client_step_sound:
  assumes "client_step c c'" and c: "closed_off c"
  shows "closed_off c' \<and> extends c c'"
  using assms(1)
proof cases
  case (make xs)
  obtain s h where m: "go_make xs (cl_heap c) = (s, h)" by (cases "go_make xs (cl_heap c)")
  note N = go_make_new [OF _ m]
  have "heap_ok (cl_heap c)" using c by (simp add: closed_off_def)
  with N show ?thesis unfolding make(1) m by (intro got_slice_step [OF c]) (auto simp: new_slice_def)
next
  case (extend s n)
  have "heap_ok (cl_heap c)" "slice_ok (cl_heap c) s" using c extend(2) by (simp_all add: closed_off_def)
  then show ?thesis
    unfolding extend(1) using extend(2,3)
    by (intro got_slice_step [OF c]) (auto simp: grows_refl slice_ok_def)
next
  case (store s xs)
  then show ?thesis using store_step [OF c] by blast
next
  case (new_person names spare i opts p h)
  have "heap_ok (cl_heap c)" using c by (simp add: closed_off_def)
  from NewPerson_in_value [OF this new_person(3)] have N: "grows (cl_heap c) h" "new_slice (cl_heap c) h (po_names p)"
    by simp_all
  show ?thesis
    using c N grows_keeps(1) [OF N(1)]
    by (intro grow_step [OF c]) (auto simp: new_person(1) inner_def closed_off_def)
next
  case (new_unknown i p)
  have p: "po_names p = nil_slice" using new_unknown(2) by (auto simp: NewUnknownAncestor_in_def bindE_eq_Inr)
  have h: "heap_ok (cl_heap c)" using c by (simp add: closed_off_def)
  then have "new_slice (cl_heap c) (cl_heap c) nil_slice"
    by (simp add: new_slice_def slice_ok_def nil_slice_def heap_ok_def)
  then show ?thesis
    using c p grows_refl [OF h]
    by (intro grow_step [OF c]) (auto simp: new_unknown(1) inner_def closed_off_def)
next
  case (new_relationship sources spare i a b ty cert cont ropts r h)
  have "heap_ok (cl_heap c)" using c by (simp add: closed_off_def)
  from NewRelationship_in_value [OF this new_relationship(3)]
  have N: "grows (cl_heap c) h" "new_slice (cl_heap c) h (ro_sources r)" by simp_all
  show ?thesis
    using c N grows_keeps(1) [OF N(1)]
    by (intro grow_step [OF c]) (auto simp: new_relationship(1) inner_def closed_off_def)
next
  case (new_proposal payload sources spare i a k qopts q h)
  have "heap_ok (cl_heap c)" "slice_ok (cl_heap c) sources"
    using c new_proposal(3) by (simp_all add: closed_off_def)
  from NewProposal_in_value [OF this new_proposal(4)]
  have N: "grows (cl_heap c) h" "\<forall>s \<in> prop_slices q. new_slice (cl_heap c) h s"
    by (simp_all add: prop_slices_def)
  show ?thesis
    using c N grows_keeps(1) [OF N(1)]
    by (intro grow_step [OF c]) (auto simp: new_proposal(1) inner_def closed_off_def)
next
  case (move q spare st tr q' h)
  have "heap_ok (cl_heap c)" "slice_ok (cl_heap c) (qo_history q)"
    using c inner_in(3) [OF move(2)] by (simp_all add: closed_off_def)
  note W = withState_new [OF this move(3)]
  have "\<forall>s \<in> prop_slices q'. s \<in> inner c \<or> new_slice (cl_heap c) h s"
    using W(2,4,5) inner_in(3) [OF move(2)] by (auto simp: prop_slices_def)
  then show ?thesis
    using c W(1) grows_keeps(1) [OF W(1)]
    by (intro grow_step [OF c]) (auto simp: move(1) inner_def closed_off_def)
qed (use copy_out_step [OF c] inner_in in \<open>simp_all add: Person_Names_def Relationship_Sources_def
    Proposal_Payload_def Proposal_Sources_def Proposal_History_def\<close>)

lemma closed_off_start: "closed_off start_client"
  by (simp add: closed_off_def start_client_def heap_ok_def inner_def slice_ok_def nil_slice_def)

lemma client_run_sound:
  assumes "client_step\<^sup>*\<^sup>* c c'" and "closed_off c"
  shows "closed_off c' \<and> extends c c'"
  using assms
proof (induction rule: rtranclp_induct)
  case base
  then show ?case by (simp add: extends_def)
next
  case (step c1 c2)
  then have "closed_off c2 \<and> extends c1 c2" by (intro client_step_sound) auto
  with step show ?case by (auto simp: extends_def)
qed

section \<open>Properties\<close>

text \<open>
  C20: entities are values. Whatever a program does with the slices that it has (it writes into those
  it gave to a constructor and into those that getters gave it, extends them to their capacity,
  appends to them) and whichever constructors, getters and moves it calls, with any growth of
  arrays by the runtime: a person, a relationship or a proposal that it has been given keeps its
  value, and what is constructed later comes after it.
\<close>

theorem entities_immutable:
  assumes "client_step\<^sup>*\<^sup>* start_client c" and "client_step\<^sup>*\<^sup>* c c'"
  shows "prefix (map (person_value (cl_heap c)) (cl_persons c))
      (map (person_value (cl_heap c')) (cl_persons c')) \<and>
    prefix (map (relationship_value (cl_heap c)) (cl_rels c))
      (map (relationship_value (cl_heap c')) (cl_rels c')) \<and>
    prefix (map (proposal_value (cl_heap c)) (cl_props c))
      (map (proposal_value (cl_heap c')) (cl_props c'))"
proof -
  have "closed_off c" using client_run_sound [OF assms(1) closed_off_start] ..
  with client_run_sound [OF assms(2)] show ?thesis by (simp add: extends_def values_of_def)
qed

text \<open>A program gives a payload to \<open>NewProposal\<close> and then writes another byte into it.\<close>

definition byte_slice :: slice where
  "byte_slice = \<lparr>sl_ptr = 1, sl_len = 1\<rparr>"

definition byte_client :: Client where
  "byte_client = got_slice start_client (go_make [ByteCell (CHR ''a'')] (cl_heap start_client))"

lemma byte_client_simps:
  "cl_slices byte_client = [nil_slice, byte_slice]" "elems (cl_heap byte_client) byte_slice = [ByteCell (CHR ''a'')]"
  "cl_props byte_client = []" "hp_arrays (cl_heap byte_client) (Suc 0) = [ByteCell (CHR ''a'')]"
  "elems (cl_heap byte_client) nil_slice = []"
  by (simp_all add: byte_client_def start_client_def got_slice_def go_make_def byte_slice_def elems_def nil_slice_def)

theorem entities_immutable_witness:
  "\<exists>c. client_step\<^sup>*\<^sup>* start_client c \<and> map (elems (cl_heap c)) (cl_slices c) = [[], [ByteCell (CHR ''b'')]] \<and>
     map (Q_payload \<circ> proposal_value (cl_heap c)) (cl_props c) = [''a'']"
proof -
  let ?o = "\<lparr>QO_TargetID = '''', QO_SecondaryID = '''', QO_Payload = '''', QO_Reason = '''',
    QO_Sources = [], QO_Author = ''u'', QO_CreatedAt = 1\<rparr>"
  let ?v = "\<lparr>Q_id = ''q'', Q_state = ProposalDraft, Q_action = ProposalActionCreate,
    Q_entityKind = EntityKindPerson, Q_targetID = '''', Q_secondaryID = '''', Q_payload = ''a'',
    Q_reason = '''', Q_sources = [], Q_author = ''u'', Q_createdAt = 1, Q_history = []\<rparr>"
  obtain r h where n: "NewProposal_in (\<lambda>_. []) ''q'' ProposalActionCreate EntityKindPerson ?o byte_slice nil_slice
      (cl_heap byte_client) = (r, h)"
    by (cases "NewProposal_in (\<lambda>_. []) ''q'' ProposalActionCreate EntityKindPerson ?o byte_slice nil_slice
      (cl_heap byte_client)")
  have start: "client_step start_client byte_client"
    unfolding byte_client_def by (rule client_step.make)
  then have off: "closed_off byte_client" using client_step_sound closed_off_start by blast
  then have ok: "heap_ok (cl_heap byte_client)" "slice_ok (cl_heap byte_client) nil_slice"
    "slice_ok (cl_heap byte_client) byte_slice"
    by (simp_all add: closed_off_def byte_client_simps)
  have "NewProposal ''q'' ProposalActionCreate EntityKindPerson
      (?o\<lparr>QO_Payload := ''a'', QO_Sources := []\<rparr>) = Inr ?v" by code_simp
  with NewProposal_in_value [OF ok(1,2) n] obtain q where r: "r = Inr q" and v: "proposal_value h q = ?v"
    and g: "grows (cl_heap byte_client) h"
    by (cases r) (simp_all add: byte_client_simps)
  define c where "c = byte_client\<lparr>cl_heap := h, cl_props := cl_props byte_client @ [q]\<rparr>"
  have s1: "client_step byte_client c"
    unfolding c_def using n r by (intro client_step.new_proposal) (auto simp: byte_client_simps)
  have arr: "hp_arrays h (Suc 0) = [ByteCell (CHR ''a'')]"
    using g ok(3) by (simp add: grows_def byte_client_simps slice_ok_def byte_slice_def)
  define c' where "c' = c\<lparr>cl_heap := (cl_heap c)\<lparr>hp_arrays := (hp_arrays (cl_heap c))(sl_ptr byte_slice := [ByteCell (CHR ''b'')])\<rparr>\<rparr>"
  have s2: "client_step c c'"
    unfolding c'_def by (rule client_step.store) (simp_all add: c_def byte_client_simps arr byte_slice_def)
  have "client_step\<^sup>*\<^sup>* start_client c" using start s1 by auto
  from entities_immutable [OF this r_into_rtranclp [where r = client_step, OF s2]]
  have "prefix [?v] (map (proposal_value (cl_heap c')) (cl_props c'))"
    by (simp add: c_def byte_client_simps v)
  moreover have "length (cl_props c') = 1" by (simp add: c'_def c_def byte_client_simps)
  ultimately have "map (proposal_value (cl_heap c')) (cl_props c') = [?v]"
    by (cases "cl_props c'") auto
  then have "map Q_payload (map (proposal_value (cl_heap c')) (cl_props c')) = [''a'']" by simp
  moreover have "map (elems (cl_heap c')) (cl_slices c') = [[], [ByteCell (CHR ''b'')]]"
    using g by (simp add: c'_def c_def byte_client_simps elems_def byte_slice_def nil_slice_def grows_def heap_ok_def)
  ultimately show ?thesis using start s1 s2 by (intro exI [of _ c']) auto
qed

end
