(* ===== verification/PathSlices.thy ===== *)
theory PathSlices
  imports QueryProps Slices
begin

text \<open>
  Path search with slices (\<open>FindPaths\<close> and \<open>makePath\<close> of src/query/engine.go). The closure \<open>dfs\<close>
  appends to and truncates one slice \<open>steps\<close> in place, so every path that is found would be
  overwritten by the rest of the search if \<open>makePath\<close> did not copy it. Here the search runs on a heap
  of arrays; it is related to the search on lists of Engine by a simulation.
\<close>

section \<open>The code\<close>

definition zero_Step :: Step where
  "zero_Step = \<lparr>St_Relationship = \<lparr>R_id = '''', R_from = '''', R_to = '''', R_type = 0, R_certainty = 0,
       R_continuity = \<lparr>Cont_State = 0, Cont_Gap = UnknownGap\<rparr>, R_timeRange = zero_TimeRange,
       R_notes = '''', R_sources = []\<rparr>,
     St_Direction = 0, St_FromPerson = '''', St_ToPerson = ''''\<rparr>"

text \<open>A path is a struct with a slice of steps.\<close>

record PathObj =
  ho_fields :: Path
  ho_steps :: slice

definition path_value :: "Step heap \<Rightarrow> PathObj \<Rightarrow> Path" where
  "path_value h p = (ho_fields p)\<lparr>Pa_Steps := elems h (ho_steps p)\<rparr>"

text \<open>\<open>make([]T, 0, n)\<close>: room for n elements.\<close>

definition go_make_cap :: "'c \<Rightarrow> nat \<Rightarrow> 'c heap \<Rightarrow> slice \<times> 'c heap" where
  "go_make_cap zero n h = (case go_make (replicate n zero) h of (s, h') \<Rightarrow> (s\<lparr>sl_len := 0\<rparr>, h'))"

definition makePath_in :: "ReadTx \<Rightarrow> slice \<Rightarrow> Step heap \<Rightarrow> PathObj \<times> Step heap" where
  "makePath_in rtx steps h =
     (let (cp, h1) = go_make (replicate (sl_len steps) zero_Step) h;
          h2 = go_copy cp steps h1
      in case computeAggregate (elems h2 cp) of
           (cert, gap, gaps, len, class) \<Rightarrow>
             (\<lparr>ho_fields = \<lparr>Pa_Steps = [], Pa_Certainty = cert, Pa_TotalGap = gap, Pa_GapEdges = gaps,
                 Pa_Length = len, Pa_Classification = class, Pa_GraphVersion = rt_Version rtx\<rparr>,
               ho_steps = cp\<rparr>, h2))"

record DfsHeap =
  H_visited :: "ID set"
  H_steps :: slice
  H_found :: "PathObj list"
  H_heap :: "Step heap"

text \<open>\<open>steps[:len(steps)-1]\<close> of no steps would panic: \<open>None\<close>.\<close>

definition drop_step :: "DfsHeap \<Rightarrow> DfsHeap option" where
  "drop_step d = (if sl_len (H_steps d) = 0 then None
     else Some (d\<lparr>H_steps := (H_steps d)\<lparr>sl_len := sl_len (H_steps d) - 1\<rparr>\<rparr>))"

definition dfs_visit_in ::
    "(nat \<Rightarrow> Step list) \<Rightarrow> ReadTx \<Rightarrow> ID \<Rightarrow> (ID \<Rightarrow> DfsHeap \<Rightarrow> DfsHeap option) \<Rightarrow> ID \<Rightarrow>
     Relationship \<times> EdgeDirection \<times> ID \<Rightarrow> DfsHeap \<Rightarrow> DfsHeap option" where
  "dfs_visit_in spare rtx to rec node m d =
     (case m of (rel, dir, nxt) \<Rightarrow>
        if nxt \<in> H_visited d then Some d
        else
          let step = \<lparr>St_Relationship = rel, St_Direction = dir, St_FromPerson = node,
                      St_ToPerson = nxt\<rparr>;
              (s, h) = go_append spare (H_steps d) [step] (H_heap d);
              d1 = d\<lparr>H_steps := s, H_heap := h, H_visited := insert nxt (H_visited d)\<rparr>;
              d2 = (if nxt = to
                    then let (p, h') = makePath_in rtx (H_steps d1) (H_heap d1) in
                         Some (d1\<lparr>H_found := H_found d1 @ [p], H_heap := h'\<rparr>)
                    else rec nxt d1)
          in Option.bind d2 (\<lambda>d2. drop_step (d2\<lparr>H_visited := H_visited d2 - {nxt}\<rparr>)))"

primrec dfs_in ::
    "nat \<Rightarrow> (nat \<Rightarrow> Step list) \<Rightarrow> ReadTx \<Rightarrow> Options \<Rightarrow> ID \<Rightarrow> ID \<Rightarrow> DfsHeap \<Rightarrow> DfsHeap option" where
  "dfs_in 0 spare rtx opts to node d = None"
| "dfs_in (Suc fuel) spare rtx opts to node d =
     (if int (sl_len (H_steps d)) \<ge> maxDepth opts then Some d
      else
        let visit = dfs_visit_in spare rtx to (dfs_in fuel spare rtx opts to) node;
            d1 = dfs_iter (\<lambda>rel. visit (child_move rel)) (rt_IterateChildren rtx node) (Some d);
            d2 = dfs_iter (\<lambda>rel. visit (parent_move rel)) (rt_IterateParents rtx node) d1
        in if Opt_IncludeAffinal opts
           then dfs_iter (\<lambda>rel. visit (marriage_move node rel)) (rt_IterateMarriages rtx node) d2
           else d2)"

definition FindPaths_in ::
    "(nat \<Rightarrow> Step list) \<Rightarrow> ReadTx \<Rightarrow> ID \<Rightarrow> ID \<Rightarrow> Options \<Rightarrow> Step heap \<Rightarrow>
     ((error + PathObj list) \<times> Step heap) option" where
  "FindPaths_in spare rtx from to opts h =
     (if ID_IsZero from \<or> ID_IsZero to
      then Some (Inl (New CodeInvalidArgument ''from/to required''), h)
      else if from = to
      then Some (Inl (New CodeInvalidArgument ''from and to must differ''), h)
      else case rt_GetPerson rtx from of Inl e \<Rightarrow> Some (Inl e, h) | Inr _ \<Rightarrow>
        (case rt_GetPerson rtx to of Inl e \<Rightarrow> Some (Inl e, h) | Inr _ \<Rightarrow>
          (let (steps, h1) = go_make_cap zero_Step (nat (maxDepth opts)) h in
           case dfs_in (nat (maxDepth opts) + 1) spare rtx opts to from
                  \<lparr>H_visited = {from}, H_steps = steps, H_found = [], H_heap = h1\<rparr> of
             None \<Rightarrow> None
           | Some d \<Rightarrow>
               (if H_found d = [] then Some (Inl ErrNoKnownConnection, H_heap d)
                else
                  let found = SliceStable (\<lambda>p q. found_less (path_value (H_heap d) p) (path_value (H_heap d) q))
                                (H_found d)
                  in if Opt_MaxPaths opts > 0 \<and> int (length found) > Opt_MaxPaths opts
                     then Some (Inr (take (nat (Opt_MaxPaths opts)) found), H_heap d)
                     else Some (Inr found, H_heap d)))))"


section \<open>The search on slices is the search on lists\<close>

text \<open>
  What a state of the search stands for, since the heap \<open>h\<close>: the paths found have arrays of their
  own, and none is the array of \<open>steps\<close>.
\<close>

definition stands_for :: "Step heap \<Rightarrow> DfsHeap \<Rightarrow> DfsState \<Rightarrow> bool" where
  "stands_for h d s \<longleftrightarrow> grows h (H_heap d) \<and> slice_ok (H_heap d) (H_steps d) \<and>
     hp_next h \<le> sl_ptr (H_steps d) \<and>
     (\<forall>p \<in> set (H_found d). slice_ok (H_heap d) (ho_steps p) \<and> hp_next h \<le> sl_ptr (ho_steps p)) \<and>
     distinct (sl_ptr (H_steps d) # map (sl_ptr \<circ> ho_steps) (H_found d)) \<and>
     D_visited s = H_visited d \<and> D_steps s = elems (H_heap d) (H_steps d) \<and>
     D_found s = map (path_value (H_heap d)) (H_found d)"

definition same_search :: "Step heap \<Rightarrow> nat \<Rightarrow> DfsHeap option \<Rightarrow> DfsState option \<Rightarrow> bool" where
  "same_search h n d s \<longleftrightarrow> (case s of None \<Rightarrow> True
     | Some s' \<Rightarrow> length (D_steps s') = n \<and> (\<exists>d'. d = Some d' \<and> stands_for h d' s'))"

lemma slice_ok_length: "slice_ok h s \<Longrightarrow> length (elems h s) = sl_len s"
  by (simp add: slice_ok_def elems_def)

lemma makePath_in_value:
  assumes h: "heap_ok h" and s: "slice_ok h s" and m: "makePath_in rtx s h = (p, h')"
  shows "path_value h' p = makePath rtx (elems h s)" "grows h h'" "new_slice h h' (ho_steps p)"
    "sl_ptr (ho_steps p) = hp_next h" "hp_next h' = hp_next h + 1"
proof -
  obtain cp h1 where c: "go_make (replicate (sl_len s) zero_Step) h = (cp, h1)"
    by (cases "go_make (replicate (sl_len s) zero_Step) h")
  have "grows h (go_copy cp s h1) \<and> new_slice h (go_copy cp s h1) cp \<and>
      elems (go_copy cp s h1) cp = elems h s \<and> sl_ptr cp = hp_next h \<and>
      hp_next (go_copy cp s h1) = hp_next h + 1"
    using h s c by (auto simp: go_make_def go_copy_def Let_def grows_def new_slice_def slice_ok_def
        elems_def heap_ok_def)
  then show "path_value h' p = makePath rtx (elems h s)" "grows h h'" "new_slice h h' (ho_steps p)"
    "sl_ptr (ho_steps p) = hp_next h" "hp_next h' = hp_next h + 1"
    using m c by (auto simp: makePath_in_def makePath_def path_value_def split: prod.splits)
qed

lemma append_one:
  assumes h: "heap_ok h" and s: "slice_ok h s" and p: "sl_ptr s \<noteq> 0" and a: "go_append spare s [x] h = (s', h')"
  shows "elems h' s' = elems h s @ [x]" "slice_ok h' s'" "heap_ok h'" "hp_next h \<le> hp_next h'"
    "\<And>l. l < hp_next h \<Longrightarrow> l \<noteq> sl_ptr s \<Longrightarrow> hp_arrays h' l = hp_arrays h l"
    "sl_ptr s' = sl_ptr s \<or> hp_next h \<le> sl_ptr s'" "sl_len s' = Suc (sl_len s)"
proof -
  let ?arr = "hp_arrays h (sl_ptr s)"
  have "elems h' s' = elems h s @ [x] \<and> slice_ok h' s' \<and> heap_ok h' \<and> hp_next h \<le> hp_next h' \<and>
    (\<forall>l < hp_next h. l \<noteq> sl_ptr s \<longrightarrow> hp_arrays h' l = hp_arrays h l) \<and>
    (sl_ptr s' = sl_ptr s \<or> hp_next h \<le> sl_ptr s') \<and> sl_len s' = Suc (sl_len s)"
  proof (cases "Suc (sl_len s) \<le> length ?arr")
    case True
    then show ?thesis
      using assms by (auto simp: go_append_def Let_def slice_ok_def elems_def heap_ok_def)
  next
    case False
    then have "length ?arr = sl_len s" using s by (simp add: slice_ok_def)
    with False show ?thesis
      using assms by (auto simp: go_append_def Let_def slice_ok_def elems_def heap_ok_def)
  qed
  then show "elems h' s' = elems h s @ [x]" "slice_ok h' s'" "heap_ok h'" "hp_next h \<le> hp_next h'"
    "\<And>l. l < hp_next h \<Longrightarrow> l \<noteq> sl_ptr s \<Longrightarrow> hp_arrays h' l = hp_arrays h l"
    "sl_ptr s' = sl_ptr s \<or> hp_next h \<le> sl_ptr s'" "sl_len s' = Suc (sl_len s)"
    by auto
qed

lemma push_step:
  assumes d: "stands_for h d s" "heap_ok h" and a: "go_append spare (H_steps d) [st] (H_heap d) = (sl, hp)"
  shows "stands_for h (d\<lparr>H_steps := sl, H_heap := hp, H_visited := insert n (H_visited d)\<rparr>)
    (s\<lparr>D_steps := D_steps s @ [st], D_visited := insert n (D_visited s)\<rparr>)"
proof -
  from d have ok: "heap_ok (H_heap d)" "slice_ok (H_heap d) (H_steps d)" "sl_ptr (H_steps d) \<noteq> 0"
    "hp_next h \<le> hp_next (H_heap d)"
    by (auto simp: stands_for_def grows_def heap_ok_def)
  note A = append_one [OF ok(1-3) a]
  have keep: "slice_ok hp (ho_steps p) \<and> elems hp (ho_steps p) = elems (H_heap d) (ho_steps p) \<and>
      sl_ptr (ho_steps p) \<noteq> sl_ptr sl" if "p \<in> set (H_found d)" for p
  proof -
    have p: "slice_ok (H_heap d) (ho_steps p)" "sl_ptr (ho_steps p) \<noteq> sl_ptr (H_steps d)"
      using d(1) that by (auto simp: stands_for_def) (metis image_eqI)
    then have "sl_ptr (ho_steps p) < hp_next (H_heap d)" by (simp add: slice_ok_def)
    with p A(4-6) show ?thesis by (auto simp: slice_ok_def elems_def)
  qed
  have "grows h hp"
    using d(1) A(3-5) by (auto simp: stands_for_def grows_def)
  moreover have "sl_ptr sl \<notin> (sl_ptr \<circ> ho_steps) ` set (H_found d)" using keep by force
  moreover have "hp_next h \<le> sl_ptr sl" using d(1) A(6) ok(4) by (auto simp: stands_for_def)
  moreover have "map (path_value hp) (H_found d) = map (path_value (H_heap d)) (H_found d)"
    using keep by (simp add: path_value_def)
  ultimately show ?thesis using d(1) keep A(1,2) by (simp add: stands_for_def)
qed

lemma found_path:
  assumes d: "stands_for h d s" "heap_ok h" and m: "makePath_in rtx (H_steps d) (H_heap d) = (p, hp)"
  shows "stands_for h (d\<lparr>H_found := H_found d @ [p], H_heap := hp\<rparr>)
    (s\<lparr>D_found := D_found s @ [makePath rtx (D_steps s)]\<rparr>)"
proof -
  from d have ok: "heap_ok (H_heap d)" "slice_ok (H_heap d) (H_steps d)"
    "hp_next h \<le> hp_next (H_heap d)"
    by (auto simp: stands_for_def grows_def)
  note M = makePath_in_value [OF ok(1,2) m]
  have keep: "slice_ok hp sl \<and> elems hp sl = elems (H_heap d) sl \<and> sl_ptr sl \<noteq> sl_ptr (ho_steps p)"
    if "slice_ok (H_heap d) sl" for sl
    using grows_keeps [OF M(2) that] M(4) that by (auto simp: slice_ok_def)
  show ?thesis
    using d M grows_trans [OF _ M(2)] ok keep
    by (fastforce simp: stands_for_def path_value_def new_slice_def)
qed

lemma pop_step:
  assumes d: "stands_for h d s" and ne: "D_steps s \<noteq> []"
  shows "\<exists>d'. drop_step (d\<lparr>H_visited := H_visited d - {n}\<rparr>) = Some d' \<and>
    stands_for h d' (s\<lparr>D_visited := D_visited s - {n}, D_steps := butlast (D_steps s)\<rparr>)"
proof -
  have ok: "slice_ok (H_heap d) (H_steps d)" "D_steps s = elems (H_heap d) (H_steps d)"
    using d by (simp_all add: stands_for_def)
  with ne have len: "0 < sl_len (H_steps d)" by (auto simp: elems_def)
  moreover have "butlast (D_steps s) = elems (H_heap d) ((H_steps d)\<lparr>sl_len := sl_len (H_steps d) - 1\<rparr>)"
    using ok by (simp add: elems_def slice_ok_def butlast_take)
  moreover have "slice_ok (H_heap d) ((H_steps d)\<lparr>sl_len := sl_len (H_steps d) - 1\<rparr>)"
    using ok by (auto simp: slice_ok_def)
  ultimately show ?thesis using d by (simp add: drop_step_def stands_for_def)
qed

lemma dfs_iter_same:
  assumes f: "\<And>x d s. stands_for h d s \<Longrightarrow> length (D_steps s) = n \<Longrightarrow> same_search h n (g x d) (f x s)"
    and c: "same_search h n d s"
  shows "same_search h n (dfs_iter g it d) (dfs_iter f it s)"
proof -
  let ?cb = "\<lambda>f rel c. case c of None \<Rightarrow> (None, False) | Some s \<Rightarrow> (f rel s, True)"
  have "same_search h n (fst (iterate (?cb g) xs err d)) (fst (iterate (?cb f) xs err s))" for xs err
    using c
  proof (induction xs arbitrary: d s)
    case (Cons x xs)
    show ?case
    proof (cases s)
      case (Some s')
      then obtain d' where d: "d = Some d'" "stands_for h d' s'" "length (D_steps s') = n"
        using Cons.prems by (auto simp: same_search_def)
      show ?thesis using Cons.IH [OF f [OF d(2,3)]] by (simp add: Some d(1))
    qed (simp add: same_search_def)
  qed simp
  then show ?thesis by (simp add: dfs_iter_def run_iter_def)
qed

lemma visit_same:
  assumes h: "heap_ok h" and d: "stands_for h d s" "length (D_steps s) = n"
    and rec: "\<And>x d s. stands_for h d s \<Longrightarrow> length (D_steps s) = Suc n \<Longrightarrow> same_search h (Suc n) (rec' x d) (rec x s)"
  shows "same_search h n (dfs_visit_in spare rtx to rec' node m d) (dfs_visit rtx to rec node m s)"
proof -
  obtain rel dir nxt where m: "m = (rel, dir, nxt)" by (cases m)
  define st where "st = \<lparr>St_Relationship = rel, St_Direction = dir, St_FromPerson = node, St_ToPerson = nxt\<rparr>"
  obtain sl hp where a: "go_append spare (H_steps d) [st] (H_heap d) = (sl, hp)"
    by (cases "go_append spare (H_steps d) [st] (H_heap d)")
  define d1 where "d1 = d\<lparr>H_steps := sl, H_heap := hp, H_visited := insert nxt (H_visited d)\<rparr>"
  define s1 where "s1 = s\<lparr>D_steps := D_steps s @ [st], D_visited := insert nxt (D_visited s)\<rparr>"
  have 1: "stands_for h d1 s1" "length (D_steps s1) = Suc n"
    unfolding d1_def s1_def using push_step [OF d(1) h a] d(2) by simp_all
  obtain p hp2 where p: "makePath_in rtx (H_steps d1) (H_heap d1) = (p, hp2)"
    by (cases "makePath_in rtx (H_steps d1) (H_heap d1)")
  define d2 where "d2 = (if nxt = to then Some (d1\<lparr>H_found := H_found d1 @ [p], H_heap := hp2\<rparr>) else rec' nxt d1)"
  define s2 where "s2 = (if nxt = to then Some (s1\<lparr>D_found := D_found s1 @ [makePath rtx (D_steps s1)]\<rparr>)
    else rec nxt s1)"
  have 2: "same_search h (Suc n) d2 s2"
    using found_path [OF 1(1) h p] rec [OF 1] 1(2) by (simp add: d2_def s2_def same_search_def)
  have vis: "D_visited s = H_visited d" using d(1) by (simp add: stands_for_def)
  have "same_search h n (Option.bind d2 (\<lambda>d2. drop_step (d2\<lparr>H_visited := H_visited d2 - {nxt}\<rparr>)))
      (map_option (\<lambda>s2. s2\<lparr>D_visited := D_visited s2 - {nxt}, D_steps := butlast (D_steps s2)\<rparr>) s2)"
  proof (cases s2)
    case (Some s')
    then obtain d' where d': "d2 = Some d'" "stands_for h d' s'" "length (D_steps s') = Suc n"
      using 2 by (auto simp: same_search_def)
    then have "D_steps s' \<noteq> []" by auto
    from pop_step [OF d'(2) this, of nxt] d' show ?thesis
      by (auto simp: Some same_search_def)
  qed (simp add: same_search_def)
  moreover have "dfs_visit_in spare rtx to rec' node m d = (if nxt \<in> H_visited d then Some d
      else Option.bind d2 (\<lambda>d2. drop_step (d2\<lparr>H_visited := H_visited d2 - {nxt}\<rparr>)))"
    using a p by (simp add: dfs_visit_in_def m d2_def d1_def st_def Let_def)
  moreover have "dfs_visit rtx to rec node m s = (if nxt \<in> D_visited s then Some s
      else map_option (\<lambda>s2. s2\<lparr>D_visited := D_visited s2 - {nxt}, D_steps := butlast (D_steps s2)\<rparr>) s2)"
    by (simp add: dfs_visit_def m s2_def s1_def st_def Let_def)
  ultimately show ?thesis using d vis by (simp add: same_search_def)
qed

lemma dfs_same:
  assumes "heap_ok h"
  shows "stands_for h d s \<Longrightarrow>
    same_search h (length (D_steps s)) (dfs_in fuel spare rtx opts to node d) (dfs fuel rtx opts to node s)"
proof (induction fuel arbitrary: node d s)
  case (Suc fuel)
  let ?n = "length (D_steps s)"
  have n: "?n = sl_len (H_steps d)"
    using Suc.prems slice_ok_length by (auto simp: stands_for_def)
  have visit: "same_search h ?n (dfs_visit_in spare rtx to (dfs_in fuel spare rtx opts to) node m d')
      (dfs_visit rtx to (dfs fuel rtx opts to) node m s')"
    if "stands_for h d' s'" "length (D_steps s') = ?n" for m d' s'
    using visit_same [OF assms that, of "dfs_in fuel spare rtx opts to"] Suc.IH by metis
  have start: "same_search h ?n (Some d) (Some s)" using Suc.prems by (simp add: same_search_def)
  note iter = dfs_iter_same [where h = h and n = ?n, OF visit]
  show ?case
    using start iter [OF _ _ start] by (auto simp: n [symmetric] Let_def intro!: iter)
qed (simp add: same_search_def)


lemma map_insert_before: "map f (insert_before (\<lambda>x y. lt (f x) (f y)) x ys) = insert_before lt (f x) (map f ys)"
  by (induction ys) auto

lemma map_SliceStable: "map f (SliceStable (\<lambda>x y. lt (f x) (f y)) xs) = SliceStable lt (map f xs)"
  by (induction xs) (simp_all add: SliceStable_def map_insert_before)

lemma make_cap_new:
  assumes "heap_ok h" and "go_make_cap z n h = (s, h')"
  shows "grows h h'" "slice_ok h' s" "elems h' s = []" "sl_ptr s = hp_next h" "hp_next h' = Suc (hp_next h)"
  using assms by (auto simp: go_make_cap_def go_make_def grows_def slice_ok_def elems_def heap_ok_def)

lemma makePath_zero_free: "distinct (map f (SliceStable lt xs)) = distinct (map f xs)"
  by (metis SliceStable_mset mset_eq_imp_distinct_iff mset_map)

section \<open>Property\<close>

text \<open>
  C19: the search on slices is the search on lists, and the paths that it returns are the caller's.
  With any growth of arrays by the runtime \<open>FindPaths\<close> returns, changes no array that was there
  before, and returns the error or the paths of the model on lists, in its order; the arrays of the
  steps of the paths returned are new, and no two paths share one.
\<close>

theorem FindPaths_slices:
  assumes h: "heap_ok h"
  shows "\<exists>r h'. FindPaths_in spare rtx a b opts h = Some (r, h') \<and> grows h h' \<and>
    FindPaths rtx a b opts = Some (map_sum id (map (path_value h')) r) \<and>
    (case r of Inl _ \<Rightarrow> True | Inr ps \<Rightarrow>
       (\<forall>p \<in> set ps. new_slice h h' (ho_steps p)) \<and> distinct (map (sl_ptr \<circ> ho_steps) ps))"
proof -
  let ?n = "nat (maxDepth opts)"
  let ?s = "\<lparr>D_visited = {a}, D_steps = [], D_found = []\<rparr>"
  obtain sl h1 where m: "go_make_cap zero_Step ?n h = (sl, h1)" by (cases "go_make_cap zero_Step ?n h")
  let ?d = "\<lparr>H_visited = {a}, H_steps = sl, H_found = [], H_heap = h1\<rparr>"
  obtain s where s: "dfs (?n + 1) rtx opts b a ?s = Some s"
    using dfs_correct [of opts ?s "?n + 1"] by simp
  have "stands_for h ?d ?s"
    using make_cap_new [OF h m] by (simp add: stands_for_def)
  from dfs_same [OF h this, of "?n + 1" spare rtx opts b a] obtain d
    where d: "dfs_in (?n + 1) spare rtx opts b a ?d = Some d" and st: "stands_for h d s"
    using s by (auto simp: same_search_def simp del: dfs.simps dfs_in.simps)
  let ?v = "path_value (H_heap d)"
  let ?xs = "SliceStable (\<lambda>p q. found_less (?v p) (?v q)) (H_found d)"
  have found: "D_found s = map ?v (H_found d)" using st by (simp add: stands_for_def)
  have g: "grows h (H_heap d)" using st by (simp add: stands_for_def)
  have xs: "SliceStable found_less (D_found s) = map ?v ?xs"
    by (simp add: found map_SliceStable)
  have new: "\<forall>p \<in> set ?xs. new_slice h (H_heap d) (ho_steps p)" "distinct (map (sl_ptr \<circ> ho_steps) ?xs)"
    using st by (simp_all add: stands_for_def new_slice_def makePath_zero_free)
  have new': "\<forall>p \<in> set (take k ?xs). new_slice h (H_heap d) (ho_steps p)"
    "distinct (map (sl_ptr \<circ> ho_steps) (take k ?xs))" for k
    using new by (auto simp: take_map [symmetric] dest: in_set_takeD)
  show ?thesis
    unfolding FindPaths_in_def FindPaths_def m s d prod.case option.case Let_def
    using found g xs new new' grows_refl [OF h]
    by (auto simp: take_map split: sum.splits)
qed


theorem FindPaths_slices_witness:
  "\<exists>ps h' p. FindPaths_in (\<lambda>_. []) (mem_ReadTx sample_read) ''a'' ''c'' sample_opts
       \<lparr>hp_arrays = \<lambda>_. [], hp_next = 1\<rparr> = Some (Inr ps, h') \<and>
     p \<in> set ps \<and> elems h' (ho_steps p) = sample_line"
proof -
  let ?h = "\<lparr>hp_arrays = \<lambda>_. [], hp_next = 1\<rparr> :: Step heap"
  have "heap_ok ?h" by (simp add: heap_ok_def)
  from FindPaths_slices [OF this, of "\<lambda>_. []" "mem_ReadTx sample_read" "''a''" "''c''" sample_opts]
  obtain r h' where r: "FindPaths_in (\<lambda>_. []) (mem_ReadTx sample_read) ''a'' ''c'' sample_opts ?h = Some (r, h')"
    and v: "FindPaths (mem_ReadTx sample_read) ''a'' ''c'' sample_opts = Some (map_sum id (map (path_value h')) r)"
    by blast
  from sample_found v obtain ps p where "r = Inr ps" "p \<in> set ps" "Pa_Steps (path_value h' p) = sample_line"
    by (cases r) auto
  with r show ?thesis by (auto simp: path_value_def)
qed

end
